(* ===== verification/Nodus_Prelude.thy ===== *)
theory Nodus_Prelude
  imports Main
begin

text \<open>
  Shared vocabulary of the development: Python strings as lists of code points, results with
  errors as values, sequencing of state-changing actions, and the generic lemmas on lists,
  options and folds the component theories rest on.
\<close>

named_theorems pystr_simps \<open>evaluation of Python string literals\<close>
named_theorems result_simps \<open>rewriting of results and sequenced actions\<close>

section \<open>Python strings\<close>

text \<open>
  A Python \<^verbatim>\<open>str\<close> is a sequence of Unicode code points, so it is a list of naturals here;
  \<open>py ''abc''\<close> is the ASCII literal \<^verbatim>\<open>"abc"\<close>.
\<close>

type_synonym pystr = "nat list"

definition py :: "string \<Rightarrow> pystr" where
  "py s = map of_char s"

lemma py_Nil [simp, pystr_simps]: "py [] = []"
  by (simp add: py_def)

lemma py_Cons [pystr_simps]: "py (c # cs) = of_char c # py cs"
  by (simp add: py_def)

lemma py_append: "py (xs @ ys) = py xs @ py ys"
  by (simp add: py_def)

lemma py_eq_iff [simp]: "py xs = py ys \<longleftrightarrow> xs = ys"
  by (auto simp: py_def inj_map_eq_map inj_def)

lemma length_py [simp]: "length (py xs) = length xs"
  by (simp add: py_def)

lemma py_eq_Nil_iff [simp]: "py xs = [] \<longleftrightarrow> xs = []"
  by (simp add: py_def)

text \<open>Rendering of a natural number in base ten, as \<^verbatim>\<open>str(n)\<close> does.\<close>

fun digits_of :: "nat \<Rightarrow> pystr" where
  "digits_of n = (if n < 10 then [48 + n] else digits_of (n div 10) @ [48 + n mod 10])"

declare digits_of.simps [simp del]

definition str_int :: "int \<Rightarrow> pystr" where
  "str_int i = (if i < 0 then 45 # digits_of (nat (- i)) else digits_of (nat i))"

definition str_nat :: "nat \<Rightarrow> pystr" where
  "str_nat n = digits_of n"

text \<open>\<^verbatim>\<open>s.startswith(p)\<close>, \<^verbatim>\<open>s.replace(c, r)\<close> for a one-character \<open>c\<close>,
  \<^verbatim>\<open>sep.join(parts)\<close> and \<^verbatim>\<open>s.find(p)\<close>.\<close>

fun starts_with :: "'a list \<Rightarrow> 'a list \<Rightarrow> bool" where
  "starts_with xs [] = True"
| "starts_with [] (p # ps) = False"
| "starts_with (x # xs) (p # ps) = (x = p \<and> starts_with xs ps)"

definition replace_char :: "nat \<Rightarrow> pystr \<Rightarrow> pystr \<Rightarrow> pystr" where
  "replace_char c r s = concat (map (\<lambda>x. if x = c then r else [x]) s)"

fun join_str :: "pystr \<Rightarrow> pystr list \<Rightarrow> pystr" where
  "join_str sep [] = []"
| "join_str sep [x] = x"
| "join_str sep (x # y # zs) = x @ sep @ join_str sep (y # zs)"

fun find_sub :: "pystr \<Rightarrow> pystr \<Rightarrow> nat option" where
  "find_sub p [] = (if p = [] then Some 0 else None)"
| "find_sub p (x # xs) =
     (if starts_with (x # xs) p then Some 0 else map_option Suc (find_sub p xs))"

lemma starts_with_iff: "starts_with xs ps \<longleftrightarrow> (\<exists>ys. xs = ps @ ys)"
  by (induction xs ps rule: starts_with.induct) auto

lemma starts_with_append [simp]: "starts_with (ps @ ys) ps"
  by (auto simp: starts_with_iff)

lemma starts_with_drop: "starts_with xs ps \<Longrightarrow> ps @ drop (length ps) xs = xs"
  by (auto simp: starts_with_iff)

lemma replace_char_Nil [simp]: "replace_char c r [] = []"
  by (simp add: replace_char_def)

lemma replace_char_Cons:
  "replace_char c r (x # xs) = (if x = c then r else [x]) @ replace_char c r xs"
  by (simp add: replace_char_def)

lemma replace_char_append:
  "replace_char c r (xs @ ys) = replace_char c r xs @ replace_char c r ys"
  by (simp add: replace_char_def)

lemma digits_of_nonempty [simp]: "digits_of n \<noteq> []"
  by (subst digits_of.simps) simp

lemma digits_of_ascii: "c \<in> set (digits_of n) \<Longrightarrow> 48 \<le> c \<and> c \<le> 57"
proof (induction n rule: digits_of.induct)
  case (1 n)
  show ?case
  proof (cases "n < 10")
    case True
    with "1.prems" show ?thesis by (simp add: digits_of.simps [of n])
  next
    case False
    with "1.prems" have "c \<in> set (digits_of (n div 10)) \<or> c = 48 + n mod 10"
      by (auto simp: digits_of.simps [of n])
    moreover have "n mod 10 \<le> 9" by simp
    ultimately show ?thesis using "1.IH" False by fastforce
  qed
qed

section \<open>Results and sequenced actions\<close>

text \<open>
  A Python function that may raise returns \<open>Inl\<close> of the exception or \<open>Inr\<close> of its
  value. A method that mutates its object is an action, a function from the state to a result
  holding the new state; \<open>seqs\<close> runs actions in order and stops at the first exception.
\<close>

type_synonym ('e, 's) action = "'s \<Rightarrow> 'e + 's"

definition bindE :: "'e + 'a \<Rightarrow> ('a \<Rightarrow> 'e + 'b) \<Rightarrow> 'e + 'b" where
  "bindE r f = (case r of Inl e \<Rightarrow> Inl e | Inr x \<Rightarrow> f x)"

fun seqs :: "('e, 's) action list \<Rightarrow> ('e, 's) action" where
  "seqs [] s = Inr s"
| "seqs (a # as) s = bindE (a s) (seqs as)"

definition okE :: "('s \<Rightarrow> 's) \<Rightarrow> ('e, 's) action" where
  "okE f s = Inr (f s)"

definition skipE :: "('e, 's) action" where
  "skipE s = Inr s"

definition failE :: "'e \<Rightarrow> ('e, 's) action" where
  "failE e s = Inl e"

definition guardE :: "bool \<Rightarrow> 'e \<Rightarrow> ('e, 's) action" where
  "guardE b e s = (if b then Inr s else Inl e)"

lemma bindE_simps [simp, result_simps]:
  "bindE (Inl e) f = Inl e" "bindE (Inr x) f = f x"
  by (simp_all add: bindE_def)

lemma bindE_Inr_iff [result_simps]: "bindE r f = Inr y \<longleftrightarrow> (\<exists>x. r = Inr x \<and> f x = Inr y)"
  by (cases r) auto

lemma bindE_Inl_iff:
  "bindE r f = Inl e \<longleftrightarrow> r = Inl e \<or> (\<exists>x. r = Inr x \<and> f x = Inl e)"
  by (cases r) auto

lemma bindE_assoc: "bindE (bindE r f) g = bindE r (\<lambda>x. bindE (f x) g)"
  by (cases r) auto

lemma bindE_cong [fundef_cong]:
  "r = r' \<Longrightarrow> (\<And>x. r' = Inr x \<Longrightarrow> f x = f' x) \<Longrightarrow> bindE r f = bindE r' f'"
  by (cases r') auto

lemma okE_simp [simp, result_simps]: "okE f s = Inr (f s)"
  by (simp add: okE_def)

lemma skipE_simp [simp, result_simps]: "skipE s = Inr s"
  by (simp add: skipE_def)

lemma failE_simp [simp, result_simps]: "failE e s = Inl e"
  by (simp add: failE_def)

lemma guardE_simp [result_simps]: "guardE b e s = Inr s' \<longleftrightarrow> b \<and> s' = s"
  by (auto simp: guardE_def)

lemma seqs_append:
  "seqs (as @ bs) s = bindE (seqs as s) (seqs bs)"
  by (induction as arbitrary: s) (auto simp: bindE_def split: sum.splits)

lemma seqs_Cons_Inr [result_simps]:
  "seqs (a # as) s = Inr t \<longleftrightarrow> (\<exists>s'. a s = Inr s' \<and> seqs as s' = Inr t)"
  by (simp add: bindE_Inr_iff)

lemma seqs_Nil_Inr [result_simps]: "seqs [] s = Inr t \<longleftrightarrow> t = s"
  by auto

text \<open>A property kept by each action is kept by the sequence.\<close>

lemma seqs_preserves:
  assumes "\<And>a s t. a \<in> set as \<Longrightarrow> a s = Inr t \<Longrightarrow> P s \<Longrightarrow> P t"
    and "seqs as s = Inr t" and "P s"
  shows "P t"
  using assms
proof (induction as arbitrary: s)
  case Nil
  then show ?case by simp
next
  case (Cons a as)
  from Cons.prems(2) obtain s' where s': "a s = Inr s'" "seqs as s' = Inr t"
    by (auto simp: result_simps)
  have "P s'" using Cons.prems(1)[of a s s'] s'(1) Cons.prems(3) by simp
  with s'(2) show ?case using Cons.IH Cons.prems(1) by (meson list.set_intros(2))
qed

text \<open>A reflexive and transitive relation between the states of each action relates the ends.\<close>

lemma seqs_rel:
  assumes "\<And>s. R s s" and "\<And>s t v. R s t \<Longrightarrow> R t v \<Longrightarrow> R s v"
    and "\<And>a s t. a \<in> set as \<Longrightarrow> a s = Inr t \<Longrightarrow> R s t"
    and "seqs as s = Inr t"
  shows "R s t"
  using assms(3,4)
proof (induction as arbitrary: s)
  case Nil
  then show ?case using assms(1) by simp
next
  case (Cons a as)
  from Cons.prems(2) obtain s' where s': "a s = Inr s'" "seqs as s' = Inr t"
    by (auto simp: result_simps)
  have "R s s'" using Cons.prems(1)[of a s s'] s'(1) by simp
  moreover have "R s' t" using Cons.IH[OF _ s'(2)] Cons.prems(1) by (meson list.set_intros(2))
  ultimately show ?case by (rule assms(2))
qed

section \<open>Lists\<close>

lemma takeWhile_dropWhile_append [simp]: "takeWhile P xs @ dropWhile P xs = xs"
  by (rule takeWhile_dropWhile_id)

lemma length_dropWhile_lt: "xs \<noteq> [] \<Longrightarrow> P (hd xs) \<Longrightarrow> length (dropWhile P xs) < length xs"
  by (cases xs) (auto simp: le_imp_less_Suc length_dropWhile_le)

lemma drop_length_takeWhile: "drop (length (takeWhile P xs)) xs = dropWhile P xs"
  by (induction xs) auto

lemma take_length_takeWhile: "take (length (takeWhile P xs)) xs = takeWhile P xs"
  by (induction xs) auto

lemma list_update_append_right:
  "length xs \<le> i \<Longrightarrow> (xs @ ys)[i := v] = xs @ ys[i - length xs := v]"
  by (simp add: list_update_append)

end
