(* ===== verification/Lexer.thy ===== *)
theory Lexer
  imports Unicode_Data
begin

text \<open>
  The tokenizer, \<^verbatim>\<open>src/nodus/frontend/lexer.py\<close>: the token regular expression, string
  literals with escapes and nested interpolation, and the main loop that tracks source positions
  and bracket depth. The source keeps a position \<^verbatim>\<open>pos\<close> into the text; the model passes
  the remaining text instead. Errors carry what their message is built from and the location.
\<close>

abbreviation TAB :: nat where "TAB \<equiv> 9"
abbreviation LF :: nat where "LF \<equiv> 10"
abbreviation CR :: nat where "CR \<equiv> 13"
abbreviation SPACE :: nat where "SPACE \<equiv> 32"
abbreviation QUOTE :: nat where "QUOTE \<equiv> 34"
abbreviation LPAR :: nat where "LPAR \<equiv> 40"
abbreviation RPAR :: nat where "RPAR \<equiv> 41"
abbreviation COLON :: nat where "COLON \<equiv> 58"
abbreviation BSLASH :: nat where "BSLASH \<equiv> 92"

section \<open>Tokens and errors\<close>

datatype tok = Tok (tok_kind: pystr) (tok_val: pystr) (tok_line: nat) (tok_col: nat)

datatype lex_msg =
    NestingDepthExceeded
  | UnterminatedString
  | UnterminatedEscape
  | IncompleteX
  | InvalidX pystr
  | IncompleteU
  | InvalidU pystr
  | UnsupportedEscape nat
  | FormatSpecifier
  | UnclosedInterpolation
  | UnexpectedInInterpolation nat
  | BadIntSuffix pystr
  | InvalidIntLiteral pystr pystr
  | NonAsciiIdentifier nat
  | UnexpectedCharacter nat

text \<open>\<open>LexError\<close> is \<^verbatim>\<open>LangSyntaxError\<close>; \<open>LexFuel\<close> marks the model's loop bound
  running out, which \<open>lex_no_fuel\<close> below excludes.\<close>

datatype lex_error = LexError lex_msg nat nat | LexFuel

section \<open>Keywords\<close>

definition KEYWORDS :: "pystr list" where
  "KEYWORDS = map py
     [''let'', ''print'', ''if'', ''else'', ''while'', ''for'', ''true'', ''false'', ''fn'',
      ''return'', ''nil'', ''import'', ''as'', ''export'', ''from'', ''try'', ''catch'',
      ''finally'', ''throw'', ''record'', ''in'', ''yield'', ''workflow'', ''goal'', ''step'',
      ''after'', ''with'', ''action'']"

definition CONTEXTUAL_KEYWORDS :: "pystr list" where
  "CONTEXTUAL_KEYWORDS = map py
     [''break'', ''continue'', ''match'', ''over'', ''until'', ''budget'', ''reached'', ''retry'',
      ''when'', ''each'', ''checkpoint'', ''state'', ''extern'', ''compensates'']"

text \<open>\<^verbatim>\<open>text.upper()\<close> on ASCII text.\<close>

definition upper :: "pystr \<Rightarrow> pystr" where
  "upper s = map (\<lambda>c. if 97 \<le> c \<and> c \<le> 122 then c - 32 else c) s"

section \<open>The token regular expression\<close>

datatype tkind =
    K_WS | K_COMMENT1 | K_COMMENT2 | K_NL | K_NUM_INT_BAD | K_NUM_INT_DOUBLE | K_NUM_INT
  | K_NUM | K_ID | K_OP

definition is_id_start :: "nat \<Rightarrow> bool" where
  "is_id_start c \<longleftrightarrow> (65 \<le> c \<and> c \<le> 90) \<or> (97 \<le> c \<and> c \<le> 122) \<or> c = 95"

definition is_id_char :: "nat \<Rightarrow> bool" where
  "is_id_char c \<longleftrightarrow> is_id_start c \<or> (48 \<le> c \<and> c \<le> 57)"

text \<open>The optional groups \<^verbatim>\<open>(\.\d+)?\<close> and \<^verbatim>\<open>([eE][+-]?\d+)?\<close>: the length of the
  match, zero when the group does not match.\<close>

definition frac_len :: "pystr \<Rightarrow> nat" where
  "frac_len cs = (case cs of
      c # d # r \<Rightarrow> if c = 46 \<and> is_decimal d then Suc (length (takeWhile is_decimal (d # r))) else 0
    | _ \<Rightarrow> 0)"

definition exp_len :: "pystr \<Rightarrow> nat" where
  "exp_len cs = (case cs of
      c # r \<Rightarrow>
        (if c = 101 \<or> c = 69 then
           (case r of
              s # r' \<Rightarrow>
                (if s = 43 \<or> s = 45
                 then (let n = length (takeWhile is_decimal r') in if n = 0 then 0 else n + 2)
                 else (let n = length (takeWhile is_decimal r) in if n = 0 then 0 else n + 1))
            | [] \<Rightarrow> 0)
         else 0)
    | [] \<Rightarrow> 0)"

definition two_char_ops :: "pystr list" where
  "two_char_ops = map py
     [''&&'', [CHR 124, CHR 124], ''=='', ''!='', ''<='', ''>='', ''->'', ''=>'', ''+='', ''-='',
      ''*='', ''/='']"

definition one_char_ops :: "pystr" where
  "one_char_ops = py ''+-*/=%(){}[],;:.<>!@''"

definition op_len :: "pystr \<Rightarrow> nat" where
  "op_len cs =
     (if take 2 cs \<in> set two_char_ops then 2
      else case cs of c # _ \<Rightarrow> (if c \<in> set one_char_ops then 1 else 0) | [] \<Rightarrow> 0)"

text \<open>The alternatives in the order the expression lists them; the result is the kind of the
  first that matches and the length of its match.\<close>

definition num_match :: "pystr \<Rightarrow> (tkind \<times> nat) option" where
  "num_match cs =
     (let n = length (takeWhile is_decimal cs); rest = drop n cs
      in if n = 0 then None
         else case rest of
             c # r \<Rightarrow>
               (if c = 73 then Some (K_NUM_INT_BAD, n + 1)
                else if c = 105 then
                  (case r of
                     d # _ \<Rightarrow>
                       (if is_id_start d
                        then Some (K_NUM_INT_DOUBLE, n + 1 + length (takeWhile is_id_char r))
                        else Some (K_NUM_INT, n + 1))
                   | [] \<Rightarrow> Some (K_NUM_INT, n + 1))
                else
                  (let f = frac_len rest in Some (K_NUM, n + f + exp_len (drop f rest))))
           | [] \<Rightarrow> Some (K_NUM, n))"

definition token_match :: "pystr \<Rightarrow> (tkind \<times> nat) option" where
  "token_match cs = (case cs of [] \<Rightarrow> None | c # r \<Rightarrow>
     (if c = SPACE \<or> c = TAB
      then Some (K_WS, length (takeWhile (\<lambda>x. x = SPACE \<or> x = TAB) cs))
      else if c = 35 then Some (K_COMMENT1, length (takeWhile (\<lambda>x. x \<noteq> LF) cs))
      else if c = 47 \<and> take 1 r = [47]
      then Some (K_COMMENT2, length (takeWhile (\<lambda>x. x \<noteq> LF) cs))
      else if c = LF then Some (K_NL, length (takeWhile (\<lambda>x. x = LF) cs))
      else case num_match cs of
          Some m \<Rightarrow> Some m
        | None \<Rightarrow>
            (if is_id_start c then Some (K_ID, length (takeWhile is_id_char cs))
             else let n = op_len cs in if n = 0 then None else Some (K_OP, n))))"

section \<open>Escapes\<close>

text \<open>
  \<^verbatim>\<open>int(text, 16)\<close> as CPython computes it: non-ASCII decimal digits and spaces are
  transliterated, surrounding white space, a sign, a \<^verbatim>\<open>0x\<close> prefix and single underscores
  between digits are accepted; \<open>None\<close> is \<^verbatim>\<open>ValueError\<close>.
\<close>

fun to_ascii :: "pystr \<Rightarrow> pystr" where
  "to_ascii [] = []"
| "to_ascii (c # cs) =
     (if c < 127 then c # to_ascii cs
      else if is_space c then SPACE # to_ascii cs
      else case decimal_value c of Some d \<Rightarrow> (48 + d) # to_ascii cs | None \<Rightarrow> [63])"

definition c_space :: "nat \<Rightarrow> bool" where
  "c_space c \<longleftrightarrow> (9 \<le> c \<and> c \<le> 13) \<or> c = 32"

definition hex_value :: "nat \<Rightarrow> nat option" where
  "hex_value c =
     (if 48 \<le> c \<and> c \<le> 57 then Some (c - 48)
      else if 97 \<le> c \<and> c \<le> 102 then Some (c - 87)
      else if 65 \<le> c \<and> c \<le> 70 then Some (c - 55)
      else None)"

fun scan_hex :: "bool \<Rightarrow> int \<Rightarrow> pystr \<Rightarrow> (int \<times> pystr) option" where
  "scan_hex us acc [] = (if us then None else Some (acc, []))"
| "scan_hex us acc (c # cs) =
     (if c = 95 then (if us then None else scan_hex True acc cs)
      else case hex_value c of
          Some d \<Rightarrow> scan_hex False (16 * acc + int d) cs
        | None \<Rightarrow> (if us then None else Some (acc, c # cs)))"

definition skip_hex_prefix :: "pystr \<Rightarrow> pystr" where
  "skip_hex_prefix s =
     (if take 2 s = py ''0x'' \<or> take 2 s = py ''0X''
      then (let r = drop 2 s in if take 1 r = [95] then drop 1 r else r)
      else s)"

definition py_int16 :: "pystr \<Rightarrow> int option" where
  "py_int16 text =
     (let s = dropWhile c_space (if list_all (\<lambda>c. c < 128) text then text else to_ascii text);
          neg = (take 1 s = [45]);
          s = (if take 1 s = [45] \<or> take 1 s = [43] then drop 1 s else s);
          s = skip_hex_prefix s
      in case s of
           [] \<Rightarrow> None
         | c # _ \<Rightarrow>
             (if hex_value c = None then None
              else case scan_hex False 0 s of
                  None \<Rightarrow> None
                | Some (v, rest) \<Rightarrow>
                    (if dropWhile c_space rest = [] then Some (if neg then - v else v) else None)))"

text \<open>\<^verbatim>\<open>chr(int(hex_digits, 16))\<close>; \<open>None\<close> is \<^verbatim>\<open>ValueError\<close> from either call.\<close>

definition chr_hex :: "pystr \<Rightarrow> nat option" where
  "chr_hex digits = (case py_int16 digits of
      None \<Rightarrow> None
    | Some v \<Rightarrow> (if 0 \<le> v \<and> v < 1114112 then Some (nat v) else None))"

definition ESCAPE_MAP :: "nat \<Rightarrow> nat option" where
  "ESCAPE_MAP c =
     (if c = 110 then Some LF
      else if c = 116 then Some TAB
      else if c = 114 then Some CR
      else if c = 48 then Some 0
      else if c = QUOTE then Some QUOTE
      else if c = BSLASH then Some BSLASH
      else None)"

text \<open>One escape sequence after its backslash: the decoded character and the number of characters
  of the sequence including the backslash.\<close>

definition decode_hex_escape ::
  "nat \<Rightarrow> lex_msg \<Rightarrow> (pystr \<Rightarrow> lex_msg) \<Rightarrow> pystr \<Rightarrow> lex_msg + (nat \<times> nat)" where
  "decode_hex_escape n incomplete invalid cs =
     (let hex_digits = take n cs
      in if length hex_digits < n then Inl incomplete
         else case chr_hex hex_digits of
             Some v \<Rightarrow> Inr (v, n + 2)
           | None \<Rightarrow> Inl (invalid hex_digits))"

definition lex_escape :: "nat \<Rightarrow> pystr \<Rightarrow> lex_msg + (nat \<times> nat)" where
  "lex_escape next_ch cs =
     (if next_ch = 110 then Inr (LF, 2)
      else if next_ch = 116 then Inr (TAB, 2)
      else if next_ch = 114 then Inr (CR, 2)
      else if next_ch = 48 then Inr (0, 2)
      else if next_ch = QUOTE then Inr (QUOTE, 2)
      else if next_ch = BSLASH then Inr (BSLASH, 2)
      else if next_ch = 120 then decode_hex_escape 2 IncompleteX InvalidX cs
      else if next_ch = 117 then decode_hex_escape 4 IncompleteU InvalidU cs
      else Inl (UnsupportedEscape next_ch))"

text \<open>\<^verbatim>\<open>decode_string_literal\<close>: the decoder of a whole quoted token. Its loop is over the
  token without its first and last character.\<close>

function decode_loop :: "pystr \<Rightarrow> pystr \<Rightarrow> lex_msg + pystr" where
  "decode_loop s out = (case s of
      [] \<Rightarrow> Inr out
    | ch # r \<Rightarrow>
        (if ch \<noteq> BSLASH then decode_loop r (out @ [ch])
         else case r of
             [] \<Rightarrow> Inl UnterminatedEscape
           | esc # r' \<Rightarrow>
               (if esc = 120 then
                  bindE (decode_hex_escape 2 IncompleteX InvalidX r')
                    (\<lambda>(v, _). decode_loop (drop 2 r') (out @ [v]))
                else if esc = 117 then
                  bindE (decode_hex_escape 4 IncompleteU InvalidU r')
                    (\<lambda>(v, _). decode_loop (drop 4 r') (out @ [v]))
                else case ESCAPE_MAP esc of
                    None \<Rightarrow> Inl (UnsupportedEscape esc)
                  | Some v \<Rightarrow> decode_loop r' (out @ [v]))))"
  by pat_completeness auto
termination
  by (relation "measure (\<lambda>(s, out). length s)") auto

declare decode_loop.simps [simp del]

definition decode_string_literal :: "pystr \<Rightarrow> lex_msg + pystr" where
  "decode_string_literal token_text = decode_loop (butlast (tl token_text)) []"

section \<open>String literals and interpolation\<close>

definition MAX_INTERP_DEPTH :: nat where
  "MAX_INTERP_DEPTH = 32"

definition flush_literal :: "pystr \<Rightarrow> nat \<Rightarrow> nat \<Rightarrow> tok list \<Rightarrow> tok list" where
  "flush_literal buf line col toks =
     (if buf \<noteq> [] then toks @ [Tok (py ''STRING_LITERAL'') buf line col] else toks)"

text \<open>The token of an identifier or keyword, and of an operator or separator.\<close>

definition word_tok :: "pystr \<Rightarrow> nat \<Rightarrow> nat \<Rightarrow> tok" where
  "word_tok text line col =
     (if text \<in> set KEYWORDS then Tok (upper text) text line col
      else Tok (py ''ID'') text line col)"

definition op_tok :: "pystr \<Rightarrow> nat \<Rightarrow> nat \<Rightarrow> tok" where
  "op_tok text line col =
     (if text = py '';'' then Tok (py ''SEP'') text line col else Tok text text line col)"

text \<open>The tokens and the position after a match inside an interpolation; \<open>text\<close> is the
  matched text.\<close>

fun newline_seps :: "pystr \<Rightarrow> nat \<Rightarrow> nat \<Rightarrow> tok list \<times> nat \<times> nat" where
  "newline_seps [] line col = ([], line, col)"
| "newline_seps (_ # cs) line col =
     (case newline_seps cs (line + 1) 1 of
        (ts, l, c) \<Rightarrow> (Tok (py ''SEP'') [LF] line col # ts, l, c))"

definition interp_token ::
  "tkind \<Rightarrow> pystr \<Rightarrow> nat \<Rightarrow> nat \<Rightarrow> lex_error + (tok list \<times> nat \<times> nat)" where
  "interp_token k text line col = (case k of
      K_WS \<Rightarrow> Inr ([], line, col + length text)
    | K_COMMENT1 \<Rightarrow> Inr ([Tok (py ''COMMENT'') text line col], line, col + length text)
    | K_COMMENT2 \<Rightarrow> Inr ([Tok (py ''COMMENT'') text line col], line, col + length text)
    | K_NL \<Rightarrow> Inr (newline_seps text line col)
    | K_NUM_INT_BAD \<Rightarrow> Inl (LexError (BadIntSuffix text) line col)
    | K_NUM_INT_DOUBLE \<Rightarrow>
        Inl (LexError (InvalidIntLiteral text (takeWhile is_digit text)) line col)
    | K_NUM_INT \<Rightarrow> Inr ([Tok (py ''NUM_INT'') (butlast text) line col], line, col + length text)
    | K_NUM \<Rightarrow> Inr ([Tok (py ''NUM'') text line col], line, col + length text)
    | K_ID \<Rightarrow> Inr ([word_tok text line col], line, col + length text)
    | K_OP \<Rightarrow> Inr ([op_tok text line col], line, col + length text))"

text \<open>
  The two mutually recursive scanners. \<open>lex_string_loop\<close> is the loop of
  \<^verbatim>\<open>_lex_string\<close> after the opening quote (\<open>sl\<close> and \<open>sc\<close> are the start of the
  literal), \<open>lex_interp\<close> is \<^verbatim>\<open>_lex_interp\<close>. Every iteration consumes a character, so
  a bound above the length of the remaining text is never reached.
\<close>

function lex_string_loop ::
  "nat \<Rightarrow> pystr \<Rightarrow> nat \<Rightarrow> nat \<Rightarrow> nat \<Rightarrow> nat \<Rightarrow> nat \<Rightarrow> pystr \<Rightarrow> tok list \<Rightarrow> bool
   \<Rightarrow> lex_error + (tok list \<times> pystr \<times> nat \<times> nat)"
and lex_interp ::
  "nat \<Rightarrow> pystr \<Rightarrow> nat \<Rightarrow> nat \<Rightarrow> nat \<Rightarrow> nat \<Rightarrow> nat \<Rightarrow> nat \<Rightarrow> tok list
   \<Rightarrow> lex_error + (pystr \<times> nat \<times> nat \<times> tok list)" where
  "lex_string_loop 0 cs line col sl sc depth buf toks interp = Inl LexFuel"
| "lex_string_loop (Suc n) cs line col sl sc depth buf toks interp = (case cs of
      [] \<Rightarrow> Inl (LexError UnterminatedString sl sc)
    | ch # r \<Rightarrow>
        (if ch = QUOTE then
           (if \<not> interp then Inr ([Tok (py ''STR'') buf sl sc], r, line, col + 1)
            else Inr (Tok (py ''STRING_START'') [QUOTE] sl sc #
                        flush_literal buf line (col + 1) toks @
                        [Tok (py ''STRING_END'') [QUOTE] line (col + 1)],
                      r, line, col + 1))
         else if ch = BSLASH \<and> r \<noteq> [] then
           (if hd r = LPAR then
              (case lex_interp n (tl r) line (col + 2) line col depth 0 [] of
                 Inl e \<Rightarrow> Inl e
               | Inr (rest, line', col', expr_toks) \<Rightarrow>
                   lex_string_loop n rest line' col' sl sc depth []
                     (flush_literal buf line col toks @
                      [Tok (py ''INTERP_START'') [BSLASH, LPAR] line col] @ expr_toks) True)
            else (case lex_escape (hd r) (tl r) of
                Inl m \<Rightarrow> Inl (LexError m line col)
              | Inr (v, k) \<Rightarrow>
                  lex_string_loop n (drop k cs) line (col + k) sl sc depth (buf @ [v]) toks interp))
         else if ch = LF then Inl (LexError UnterminatedString sl sc)
         else lex_string_loop n r line (col + 1) sl sc depth (buf @ [ch]) toks interp))"
| "lex_interp 0 cs line col il ic depth pd toks = Inl LexFuel"
| "lex_interp (Suc n) cs line col il ic depth pd toks = (case cs of
      [] \<Rightarrow> Inl (LexError UnclosedInterpolation il ic)
    | ch # r \<Rightarrow>
        (if ch = QUOTE then
           (if depth + 1 > MAX_INTERP_DEPTH then Inl (LexError NestingDepthExceeded line col)
            else (case lex_string_loop n r line (col + 1) line col (depth + 1) [] [] False of
                Inl e \<Rightarrow> Inl e
              | Inr (nested, rest, line', col') \<Rightarrow>
                  lex_interp n rest line' col' il ic depth pd (toks @ nested)))
         else if ch = RPAR then
           (if pd = 0
            then Inr (r, line, col + 1, toks @ [Tok (py ''INTERP_END'') [RPAR] line col])
            else lex_interp n r line (col + 1) il ic depth (pd - 1)
                   (toks @ [Tok [RPAR] [RPAR] line col]))
         else if ch = LPAR then
           lex_interp n r line (col + 1) il ic depth (pd + 1) (toks @ [Tok [LPAR] [LPAR] line col])
         else if ch = COLON \<and> pd = 0 then Inl (LexError FormatSpecifier line col)
         else if ch = SPACE \<or> ch = TAB then lex_interp n r line (col + 1) il ic depth pd toks
         else if ch = LF then
           lex_interp n r (line + 1) 1 il ic depth pd (toks @ [Tok (py ''SEP'') [LF] line col])
         else (case token_match cs of
             None \<Rightarrow> Inl (LexError (UnexpectedInInterpolation ch) line col)
           | Some (k, len) \<Rightarrow>
               (case interp_token k (take len cs) line col of
                  Inl e \<Rightarrow> Inl e
                | Inr (ts, line', col') \<Rightarrow>
                    lex_interp n (drop len cs) line' col' il ic depth pd (toks @ ts)))))"
  by pat_completeness auto
termination
  by (relation "measure (\<lambda>x. case x of Inl a \<Rightarrow> fst a | Inr b \<Rightarrow> fst b)") auto

declare lex_string_loop.simps [simp del] lex_interp.simps [simp del]

definition lex_string ::
  "pystr \<Rightarrow> nat \<Rightarrow> nat \<Rightarrow> nat \<Rightarrow> lex_error + (tok list \<times> pystr \<times> nat \<times> nat)" where
  "lex_string cs line col depth =
     (if depth > MAX_INTERP_DEPTH then Inl (LexError NestingDepthExceeded line col)
      else lex_string_loop (Suc (length cs)) (tl cs) line (col + 1) line col depth [] [] False)"

section \<open>Progress of the scanners\<close>

lemma num_match_len: "num_match cs = Some (k, n) \<Longrightarrow> 0 < n \<and> n \<le> length cs"
proof -
  assume m: "num_match cs = Some (k, n)"
  define d where "d = length (takeWhile is_decimal cs)"
  have dle: "d \<le> length cs" by (simp add: d_def length_takeWhile_le)
  have frac: "frac_len xs \<le> length xs" for xs
    by (auto simp: frac_len_def length_takeWhile_le split: list.splits)
  have ex: "exp_len xs \<le> length xs" for xs
    by (auto simp: exp_len_def Let_def length_takeWhile_le le_SucI split: list.splits)
  have tw: "length (takeWhile is_id_char xs) \<le> length xs" for xs
    by (simp add: length_takeWhile_le)
  show ?thesis
  proof (cases "drop d cs")
    case Nil
    then show ?thesis using m dle by (auto simp: num_match_def d_def Let_def split: if_splits)
  next
    case (Cons c r)
    have len: "length cs = d + Suc (length r)"
      using Cons dle by (metis add_diff_inverse_nat length_Cons length_drop linorder_not_less)
    have e2: "exp_len (drop (frac_len (c # r)) (c # r)) \<le> Suc (length r) - frac_len (c # r)"
      using ex[of "drop (frac_len (c # r)) (c # r)"] by simp
    show ?thesis
      using m Cons len e2 frac[of "c # r"] tw[of r]
      by (auto simp: num_match_def d_def[symmetric] Let_def split: if_splits list.splits)
  qed
qed

lemma op_len_le: "op_len cs \<le> length cs"
proof (cases "take 2 cs \<in> set two_char_ops")
  case True
  have "\<forall>x\<in>set two_char_ops. length x = 2" by (simp add: two_char_ops_def)
  with True have "length (take 2 cs) = 2" by blast
  then have "2 \<le> length cs" by simp
  with True show ?thesis by (simp add: op_len_def)
next
  case False
  then show ?thesis by (auto simp: op_len_def split: list.splits)
qed

lemma token_match_len: "token_match cs = Some (k, n) \<Longrightarrow> 0 < n \<and> n \<le> length cs"
proof (cases cs)
  case Nil
  assume "token_match cs = Some (k, n)"
  with Nil show ?thesis by (simp add: token_match_def)
next
  case (Cons c r)
  assume m: "token_match cs = Some (k, n)"
  have id: "is_id_start c \<Longrightarrow> is_id_char c" by (simp add: is_id_char_def)
  have tw: "length (takeWhile P r) \<le> length r" for P by (simp add: length_takeWhile_le)
  show ?thesis
    using m Cons num_match_len[of cs k n] op_len_le[of cs] tw id
    by (auto simp: token_match_def Let_def split: if_splits option.splits)
qed

section \<open>Positions\<close>

fun loc_after :: "pystr \<Rightarrow> nat \<times> nat \<Rightarrow> nat \<times> nat" where
  "loc_after [] p = p"
| "loc_after (c # cs) p =
     loc_after cs (if c = LF then (fst p + 1, 1) else (fst p, snd p + 1))"

fun esc_ok :: "pystr \<Rightarrow> bool" where
  "esc_ok [] = True"
| "esc_ok (c # cs) \<longleftrightarrow>
     (c = BSLASH \<longrightarrow> (case cs of [] \<Rightarrow> True | e # r \<Rightarrow>
        (e = 120 \<longrightarrow> LF \<notin> set (take 2 r)) \<and> (e = 117 \<longrightarrow> LF \<notin> set (take 4 r)))) \<and>
     esc_ok cs"

definition consumes :: "pystr \<Rightarrow> pystr \<Rightarrow> nat \<Rightarrow> nat \<Rightarrow> nat \<Rightarrow> nat \<Rightarrow> bool" where
  "consumes cs rest line col line' col' \<longleftrightarrow>
     (\<exists>p. p \<noteq> [] \<and> cs = p @ rest \<and> (esc_ok cs \<longrightarrow> loc_after p (line, col) = (line', col')))"

lemma loc_after_append: "loc_after (xs @ ys) p = loc_after ys (loc_after xs p)"
  by (induction xs arbitrary: p) auto

lemma loc_after_same_line: "LF \<notin> set xs \<Longrightarrow> loc_after xs p = (fst p, snd p + length xs)"
  by (induction xs arbitrary: p) auto

lemma loc_after_newlines: "loc_after (replicate (Suc n) LF) p = (fst p + Suc n, 1)"
  by (induction n arbitrary: p) auto

lemma esc_ok_append: "esc_ok (xs @ ys) \<Longrightarrow> esc_ok ys"
  by (induction xs) auto

lemma consumes_length: "consumes cs rest line col l c \<Longrightarrow> length rest < length cs"
  by (auto simp: consumes_def)

lemma consumes_trans:
  assumes "consumes a b l0 c0 l1 c1" and "consumes b d l1 c1 l2 c2"
  shows "consumes a d l0 c0 l2 c2"
proof -
  from assms(1) obtain p where p: "p \<noteq> []" "a = p @ b"
    "esc_ok a \<longrightarrow> loc_after p (l0, c0) = (l1, c1)" by (auto simp: consumes_def)
  from assms(2) obtain q where q: "b = q @ d"
    "esc_ok b \<longrightarrow> loc_after q (l1, c1) = (l2, c2)" by (auto simp: consumes_def)
  have "esc_ok a \<longrightarrow> esc_ok b" using p(2) esc_ok_append by blast
  with p q show ?thesis
    by (auto simp: consumes_def loc_after_append intro!: exI[of _ "p @ q"])
qed

lemma consumes_take:
  assumes "0 < k" and "k \<le> length cs" and "esc_ok cs \<Longrightarrow> LF \<notin> set (take k cs)"
  shows "consumes cs (drop k cs) line col line (col + k)"
  unfolding consumes_def
  using assms by (intro exI[of _ "take k cs"]) (auto simp: loc_after_same_line)

lemma consumes_one: "c \<noteq> LF \<Longrightarrow> consumes (c # r) r line col line (col + 1)"
  using consumes_take[of 1 "c # r" line col] by simp

lemma consumes_two: "c \<noteq> LF \<Longrightarrow> d \<noteq> LF \<Longrightarrow> consumes (c # d # r) r line col line (col + 2)"
  using consumes_take[of 2 "c # d # r" line col] by (simp add: numeral_2_eq_2)

lemma consumes_LF: "consumes (LF # r) r line col (line + 1) 1"
  unfolding consumes_def by (intro exI[of _ "[LF]"]) simp

lemma lex_escape_len: "lex_escape e r = Inr (v, k) \<Longrightarrow> 2 \<le> k \<and> k \<le> 2 + length r"
  by (auto simp: lex_escape_def decode_hex_escape_def Let_def split: if_splits option.splits)

lemma consumes_escape:
  assumes "lex_escape e r = Inr (v, k)"
  shows "consumes (BSLASH # e # r) (drop k (BSLASH # e # r)) line col line (col + k)"
proof (rule consumes_take)
  from lex_escape_len[OF assms] show "0 < k" "k \<le> length (BSLASH # e # r)" by auto
next
  assume ok: "esc_ok (BSLASH # e # r)"
  have e: "e \<noteq> LF" using assms by (auto simp: lex_escape_def)
  show "LF \<notin> set (take k (BSLASH # e # r))"
  proof (cases "k = 2")
    case True
    with e show ?thesis by (simp add: numeral_2_eq_2)
  next
    case False
    with assms have "(e = 120 \<and> k = 4) \<or> (e = 117 \<and> k = 6)"
      by (auto simp: lex_escape_def decode_hex_escape_def Let_def split: if_splits option.splits)
    with ok e show ?thesis by (auto simp: eval_nat_numeral)
  qed
qed

lemma LF_not_decimal [simp]: "\<not> is_decimal LF"
  by (simp add: is_decimal_def in_ranges_def decimal_ranges_def)

lemma LF_not_takeWhile: "\<not> P LF \<Longrightarrow> LF \<notin> set (takeWhile P xs)"
  by (auto dest: set_takeWhileD)

lemma take_takeWhile_LF: "n \<le> length (takeWhile P xs) \<Longrightarrow> \<not> P LF \<Longrightarrow> LF \<notin> set (take n xs)"
proof
  assume a: "n \<le> length (takeWhile P xs)" "\<not> P LF" "LF \<in> set (take n xs)"
  have "take n xs = take n (takeWhile P xs)"
    using a(1) by (metis takeWhile_eq_take take_take min.absorb1)
  with a(3) have "LF \<in> set (takeWhile P xs)" by (auto dest: in_set_takeD)
  with a(2) show False by (auto dest: set_takeWhileD)
qed

lemma LF_not_id [simp]: "\<not> is_id_char LF" "\<not> is_id_start LF"
  by (simp_all add: is_id_char_def is_id_start_def)

lemma frac_len_LF: "LF \<notin> set (take (frac_len cs) cs)"
proof (cases "\<exists>d r. cs = 46 # d # r \<and> is_decimal d")
  case True
  then obtain d r where cs: "cs = 46 # d # r" "is_decimal d" by blast
  then have "take (frac_len cs) cs = 46 # takeWhile is_decimal (d # r)"
    by (simp add: frac_len_def take_length_takeWhile)
  then show ?thesis using LF_not_takeWhile[of is_decimal "d # r"] by simp
next
  case False
  then have "frac_len cs = 0" by (auto simp: frac_len_def split: list.splits)
  then show ?thesis by simp
qed

lemma exp_len_LF: "LF \<notin> set (take (exp_len cs) cs)"
  by (auto simp: exp_len_def Let_def take_length_takeWhile LF_not_takeWhile
      split: list.splits if_splits)

lemma num_match_LF: "num_match cs = Some (k, n) \<Longrightarrow> k \<noteq> K_NL \<and> LF \<notin> set (take n cs)"
proof -
  assume m: "num_match cs = Some (k, n)"
  define d where "d = length (takeWhile is_decimal cs)"
  define rest where "rest = drop d cs"
  have td: "LF \<notin> set (take d cs)"
    using take_takeWhile_LF[of d is_decimal cs] by (simp add: d_def)
  have "\<exists>m'. n = d + m' \<and> LF \<notin> set (take m' rest) \<and> k \<noteq> K_NL"
  proof (cases rest)
    case Nil
    with m show ?thesis
      by (intro exI[of _ 0]) (auto simp: num_match_def d_def rest_def Let_def split: if_splits)
  next
    case (Cons c r)
    then have c: "c = 73 \<or> c = 105 \<or> (c \<noteq> 73 \<and> c \<noteq> 105)" by blast
    have fe: "LF \<notin> set (take (frac_len rest + exp_len (drop (frac_len rest) rest)) rest)"
      using frac_len_LF[of rest] exp_len_LF[of "drop (frac_len rest) rest"]
      by (simp add: take_add)
    have tr: "LF \<notin> set (take (Suc (length (takeWhile is_id_char r))) (105 # r))"
      by (simp add: take_length_takeWhile LF_not_takeWhile)
    from c show ?thesis
    proof (elim disjE)
      assume "c = 73"
      with m Cons show ?thesis
        by (intro exI[of _ 1]) (auto simp: num_match_def d_def rest_def Let_def split: if_splits)
    next
      assume "c = 105"
      with m Cons tr show ?thesis
        by (intro exI[of _ "n - d"])
          (auto simp: num_match_def d_def rest_def Let_def split: if_splits list.splits)
    next
      assume "c \<noteq> 73 \<and> c \<noteq> 105"
      with m Cons fe show ?thesis
        by (intro exI[of _ "frac_len rest + exp_len (drop (frac_len rest) rest)"])
          (auto simp: num_match_def d_def rest_def Let_def split: if_splits)
    qed
  qed
  then show ?thesis using td by (auto simp: take_add rest_def)
qed

lemma op_len_LF: "LF \<notin> set (take (op_len cs) cs)"
proof (cases "take 2 cs \<in> set two_char_ops")
  case True
  then have "op_len cs = 2" by (simp add: op_len_def)
  moreover have "\<forall>x\<in>set two_char_ops. LF \<notin> set x"
    by (simp add: two_char_ops_def pystr_simps)
  ultimately show ?thesis using True by auto
next
  case False
  have "LF \<notin> set one_char_ops" by (simp add: one_char_ops_def pystr_simps)
  with False show ?thesis by (auto simp: op_len_def split: list.splits)
qed

lemma takeWhile_eq_replicate: "takeWhile (\<lambda>x. x = a) xs = replicate (length (takeWhile (\<lambda>x. x = a) xs)) a"
  by (induction xs) auto

lemma token_match_LF:
  assumes "token_match cs = Some (k, n)"
  shows "if k = K_NL then take n cs = replicate n LF else LF \<notin> set (take n cs)"
proof (cases cs)
  case Nil
  with assms show ?thesis by (simp add: token_match_def)
next
  case (Cons c r)
  have id: "is_id_start c \<Longrightarrow> is_id_char c" by (simp add: is_id_char_def)
  have nl: "take (length (takeWhile (\<lambda>x. x = LF) cs)) cs =
      replicate (length (takeWhile (\<lambda>x. x = LF) cs)) LF"
    by (metis take_length_takeWhile takeWhile_eq_replicate)
  have tw: "\<not> P LF \<Longrightarrow> LF \<notin> set (take (length (takeWhile P cs)) cs)" for P
    by (rule take_takeWhile_LF) auto
  show ?thesis
  proof (cases "c = LF")
    case True
    with assms Cons nl show ?thesis by (auto simp: token_match_def split: if_splits)
  next
    case False
    show ?thesis
    proof (cases "num_match cs")
      case (Some m)
      with assms False Cons num_match_LF[of cs k n] show ?thesis
        using tw[of "\<lambda>x. x = SPACE \<or> x = TAB"] tw[of "\<lambda>x. x \<noteq> LF"]
        by (auto simp: token_match_def split: if_splits)
    next
      case None
      with assms False Cons op_len_LF[of cs] show ?thesis
        using tw[of "\<lambda>x. x = SPACE \<or> x = TAB"] tw[of "\<lambda>x. x \<noteq> LF"] tw[of is_id_char]
        by (auto simp: token_match_def Let_def split: if_splits)
    qed
  qed
qed

lemma newline_seps_pos:
  "snd (newline_seps tx line col) = (if tx = [] then (line, col) else (line + length tx, 1))"
  by (induction tx arbitrary: line col) (auto simp: case_prod_beta)

lemma consumes_NL:
  assumes "take n cs = replicate n LF" and "0 < n"
  shows "consumes cs (drop n cs) line col (line + n) 1"
proof -
  obtain m where m: "n = Suc m" using assms(2) gr0_implies_Suc by blast
  have "cs = replicate n LF @ drop n cs" by (metis append_take_drop_id assms(1))
  moreover have "loc_after (replicate n LF) (line, col) = (line + n, 1)"
    using loc_after_newlines[of m "(line, col)"] m by simp
  ultimately show ?thesis
    unfolding consumes_def using assms(2) by (intro exI[of _ "replicate n LF"]) auto
qed

lemma consumes_interp_token:
  assumes m: "token_match cs = Some (k, n)"
    and t: "interp_token k (take n cs) line col = Inr (ts, l, c)"
  shows "consumes cs (drop n cs) line col l c"
proof -
  have len: "0 < n" "n \<le> length cs" using token_match_len[OF m] by auto
  show ?thesis
  proof (cases "k = K_NL")
    case True
    with token_match_LF[OF m] have nl: "take n cs = replicate n LF" by simp
    from t True have "newline_seps (take n cs) line col = (ts, l, c)"
      by (simp add: interp_token_def)
    then have "(l, c) = (line + n, 1)"
      using newline_seps_pos[of "take n cs" line col] len by auto
    with consumes_NL[OF nl len(1), of line col] show ?thesis by simp
  next
    case False
    with token_match_LF[OF m] have "LF \<notin> set (take n cs)" by simp
    with len have "consumes cs (drop n cs) line col line (col + n)"
      by (intro consumes_take) auto
    moreover have "l = line \<and> c = col + n"
      using t False len by (cases k) (auto simp: interp_token_def)
    ultimately show ?thesis by simp
  qed
qed

lemma lex_consumes:
  "(\<forall>cs line col sl sc depth buf toks interp ts rest l c.
      lex_string_loop n cs line col sl sc depth buf toks interp = Inr (ts, rest, l, c) \<longrightarrow>
      consumes cs rest line col l c) \<and>
   (\<forall>cs line col il ic depth pd toks ts rest l c.
      lex_interp n cs line col il ic depth pd toks = Inr (rest, l, c, ts) \<longrightarrow>
      consumes cs rest line col l c)"
proof (induction n)
  case 0
  show ?case by (simp add: lex_string_loop.simps lex_interp.simps)
next
  case (Suc n)
  have S: "lex_string_loop n cs line col sl sc depth buf toks interp = Inr (ts, rest, l, c) \<Longrightarrow>
      consumes cs rest line col l c" for cs line col sl sc depth buf toks interp ts rest l c
    by (rule Suc.IH [THEN conjunct1, rule_format])
  have I: "lex_interp n cs line col il ic depth pd toks = Inr (rest, l, c, ts) \<Longrightarrow>
      consumes cs rest line col l c" for cs line col il ic depth pd toks rest l c ts
    by (rule Suc.IH [THEN conjunct2, rule_format])
  note step = consumes_trans [OF consumes_one S] consumes_trans [OF consumes_one I]
    consumes_trans [OF consumes_two consumes_trans [OF I S]]
    consumes_trans [OF consumes_escape S] consumes_trans [OF consumes_LF I]
    consumes_trans [OF consumes_one consumes_trans [OF S I]]
    consumes_trans [OF consumes_interp_token I]
  have A: "consumes cs rest line col l c"
    if "lex_string_loop (Suc n) cs line col sl sc depth buf toks interp = Inr (ts, rest, l, c)"
    for cs line col sl sc depth buf toks interp ts rest l c
    using that
    by (auto simp: lex_string_loop.simps neq_Nil_conv split: list.splits if_splits sum.splits
        intro: consumes_one consumes_one [simplified] step)
  have B: "consumes cs rest line col l c"
    if "lex_interp (Suc n) cs line col il ic depth pd toks = Inr (rest, l, c, ts)"
    for cs line col il ic depth pd toks rest l c ts
    using that
    by (auto simp: lex_interp.simps split: list.splits if_splits sum.splits option.splits
        intro: consumes_one consumes_one [simplified] step)
  show ?case by (intro conjI allI impI; (erule A | erule B))
qed

lemma lex_no_fuel:
  "(\<forall>cs line col sl sc depth buf toks interp. length cs < n \<longrightarrow>
      lex_string_loop n cs line col sl sc depth buf toks interp \<noteq> Inl LexFuel) \<and>
   (\<forall>cs line col il ic depth pd toks. length cs < n \<longrightarrow>
      lex_interp n cs line col il ic depth pd toks \<noteq> Inl LexFuel)"
proof (induction n)
  case 0
  show ?case by simp
next
  case (Suc n)
  have S: "lex_string_loop n cs line col sl sc depth buf toks interp = Inl LexFuel \<Longrightarrow>
      \<not> length cs < n" for cs line col sl sc depth buf toks interp
    using Suc.IH by blast
  have I: "lex_interp n cs line col il ic depth pd toks = Inl LexFuel \<Longrightarrow>
      \<not> length cs < n" for cs line col il ic depth pd toks
    using Suc.IH by blast
  have LS: "lex_string_loop n cs line col sl sc depth buf toks interp = Inr (ts, rest, l, c) \<Longrightarrow>
      length rest < length cs" for cs line col sl sc depth buf toks interp ts rest l c
    by (rule consumes_length, rule lex_consumes [of n, THEN conjunct1, rule_format])
  have LI: "lex_interp n cs line col il ic depth pd toks = Inr (rest, l, c, ts) \<Longrightarrow>
      length rest < length cs" for cs line col il ic depth pd toks rest l c ts
    by (rule consumes_length, rule lex_consumes [of n, THEN conjunct2, rule_format])
  have T: "interp_token k tx line col \<noteq> Inl LexFuel" for k tx line col
    by (cases k) (auto simp: interp_token_def)
  have A: "\<not> length cs < Suc n"
    if "lex_string_loop (Suc n) cs line col sl sc depth buf toks interp = Inl LexFuel"
    for cs line col sl sc depth buf toks interp
    using that
    by (auto simp: lex_string_loop.simps neq_Nil_conv split: list.splits if_splits sum.splits
        dest!: S I LI lex_escape_len)
  have B: "\<not> length cs < Suc n"
    if "lex_interp (Suc n) cs line col il ic depth pd toks = Inl LexFuel"
    for cs line col il ic depth pd toks
    using that T
    by (auto simp: lex_interp.simps split: list.splits if_splits sum.splits option.splits
        dest!: S I LS token_match_len)
  show ?case by (intro conjI allI impI notI; (drule A | drule B); simp)
qed

section \<open>The main loop\<close>

definition main_token ::
  "tkind \<Rightarrow> pystr \<Rightarrow> nat \<Rightarrow> nat \<Rightarrow> nat \<Rightarrow> lex_error + (tok list \<times> nat \<times> nat \<times> nat)" where
  "main_token k text line col open_depth = (case k of
      K_WS \<Rightarrow> Inr ([], line, col + length text, open_depth)
    | K_COMMENT1 \<Rightarrow>
        Inr ([Tok (py ''COMMENT'') text line col], line, col + length text, open_depth)
    | K_COMMENT2 \<Rightarrow>
        Inr ([Tok (py ''COMMENT'') text line col], line, col + length text, open_depth)
    | K_NL \<Rightarrow>
        Inr (if open_depth = 0 then [Tok (py ''SEP'') [LF] line col] else [],
             line + length text, 1, open_depth)
    | K_NUM_INT_BAD \<Rightarrow> Inl (LexError (BadIntSuffix text) line col)
    | K_NUM_INT_DOUBLE \<Rightarrow>
        Inl (LexError (InvalidIntLiteral text (takeWhile is_digit text)) line col)
    | K_NUM_INT \<Rightarrow>
        Inr ([Tok (py ''NUM_INT'') (butlast text) line col], line, col + length text, open_depth)
    | K_NUM \<Rightarrow> Inr ([Tok (py ''NUM'') text line col], line, col + length text, open_depth)
    | K_ID \<Rightarrow> Inr ([word_tok text line col], line, col + length text, open_depth)
    | K_OP \<Rightarrow>
        Inr ([op_tok text line col], line, col + length text,
             if text = py ''('' \<or> text = py ''['' then open_depth + 1
             else if text = py '')'' \<or> text = py '']'' then open_depth - 1
             else open_depth))"

lemma lex_string_consumes:
  assumes "lex_string (QUOTE # cs) line col depth = Inr (ts, rest, l, c)"
  shows "consumes (QUOTE # cs) rest line col l c"
proof -
  from assms have
    "lex_string_loop (Suc (length (QUOTE # cs))) cs line (col + 1) line col depth [] [] False
     = Inr (ts, rest, l, c)"
    by (simp add: lex_string_def split: if_splits)
  then have "consumes cs rest line (col + 1) l c"
    by (rule lex_consumes [THEN conjunct1, rule_format])
  with consumes_one [of QUOTE cs line col] show ?thesis by (auto intro: consumes_trans)
qed

function tokenize_loop :: "pystr \<Rightarrow> nat \<Rightarrow> nat \<Rightarrow> nat \<Rightarrow> tok list \<Rightarrow> lex_error + tok list" where
  "tokenize_loop cs line col open_depth out = (case cs of
      [] \<Rightarrow> Inr (out @ [Tok (py ''EOF'') [] line col])
    | ch # _ \<Rightarrow>
        (if ch = QUOTE then
           (case lex_string cs line col 0 of
              Inl e \<Rightarrow> Inl e
            | Inr (new_tokens, rest, line', col') \<Rightarrow>
                tokenize_loop rest line' col' open_depth (out @ new_tokens))
         else (case token_match cs of
             None \<Rightarrow>
               (if is_alpha ch \<and> ch > 127 then Inl (LexError (NonAsciiIdentifier ch) line col)
                else Inl (LexError (UnexpectedCharacter ch) line col))
           | Some (k, n) \<Rightarrow>
               (case main_token k (take n cs) line col open_depth of
                  Inl e \<Rightarrow> Inl e
                | Inr (ts, line', col', open_depth') \<Rightarrow>
                    tokenize_loop (drop n cs) line' col' open_depth' (out @ ts)))))"
  by pat_completeness auto
termination
  by (relation "measure (\<lambda>(cs, line, col, open_depth, out). length cs)")
    (auto dest!: lex_string_consumes token_match_len dest: consumes_length)

declare tokenize_loop.simps [simp del]

fun replace_crlf :: "pystr \<Rightarrow> pystr" where
  "replace_crlf [] = []"
| "replace_crlf [c] = [c]"
| "replace_crlf (c # d # cs) =
     (if c = CR \<and> d = LF then LF # replace_crlf cs else c # replace_crlf (d # cs))"

definition normalize_source :: "pystr \<Rightarrow> pystr" where
  "normalize_source src =
     replace_char CR [LF] (replace_crlf (if take 1 src = [65279] then drop 1 src else src))"

definition tokenize :: "pystr \<Rightarrow> lex_error + tok list" where
  "tokenize src = tokenize_loop (normalize_source src) 1 1 0 []"

lemma consumes_main_token:
  assumes m: "token_match cs = Some (k, n)"
    and t: "main_token k (take n cs) line col od = Inr (ts, l, c, od')"
  shows "consumes cs (drop n cs) line col l c"
proof -
  have len: "0 < n" "n \<le> length cs" using token_match_len[OF m] by auto
  show ?thesis
  proof (cases "k = K_NL")
    case True
    with token_match_LF[OF m] have nl: "take n cs = replicate n LF" by simp
    from t True len have "l = line + n" "c = 1" by (auto simp: main_token_def)
    with consumes_NL[OF nl len(1), of line col] show ?thesis by simp
  next
    case False
    with token_match_LF[OF m] have "LF \<notin> set (take n cs)" by simp
    with len have "consumes cs (drop n cs) line col line (col + n)"
      by (intro consumes_take) auto
    moreover have "l = line \<and> c = col + n"
      using t False len by (cases k) (auto simp: main_token_def)
    ultimately show ?thesis by simp
  qed
qed

section \<open>Token kinds\<close>

abbreviation no_eof :: "tok list \<Rightarrow> bool" where
  "no_eof ts \<equiv> list_all (\<lambda>t. tok_kind t \<noteq> py ''EOF'') ts"

lemma upper_keyword_not_eof: "w \<in> set KEYWORDS \<Longrightarrow> upper w \<noteq> py ''EOF''"
  by (auto simp: KEYWORDS_def upper_def pystr_simps)

lemma word_tok_kind: "tok_kind (word_tok w line col) \<noteq> py ''EOF''"
  by (auto simp: word_tok_def dest: upper_keyword_not_eof)

lemma token_match_op:
  assumes "token_match cs = Some (K_OP, n)"
  shows "take n cs \<noteq> py ''EOF''"
proof -
  have n: "n = op_len cs"
    using assms
    by (auto simp: token_match_def Let_def num_match_def split: list.splits if_splits option.splits)
  have "length (take (op_len cs) cs) \<le> 2"
    by (auto simp: op_len_def split: list.splits)
  then have "length (take n cs) \<noteq> length (py ''EOF'')" by (simp add: n)
  then show ?thesis by metis
qed

lemma singleton_not_eof [simp]: "[x] \<noteq> py ''EOF''"
  by (simp add: pystr_simps)

lemma op_tok_kind: "tx \<noteq> py ''EOF'' \<Longrightarrow> tok_kind (op_tok tx line col) \<noteq> py ''EOF''"
  by (simp add: op_tok_def)

lemma newline_seps_kinds: "no_eof (fst (newline_seps tx line col))"
  by (induction tx arbitrary: line col) (auto simp: case_prod_beta)

lemma interp_token_kinds:
  assumes "token_match cs = Some (k, n)"
    and "interp_token k (take n cs) line col = Inr (ts, l, c)"
  shows "no_eof ts"
  using assms token_match_op[of cs n] newline_seps_kinds[of "take n cs" line col]
  by (cases k) (auto simp: interp_token_def word_tok_kind op_tok_kind)

lemma main_token_kinds:
  assumes "token_match cs = Some (k, n)"
    and "main_token k (take n cs) line col od = Inr (ts, l, c, od')"
  shows "no_eof ts"
  using assms token_match_op[of cs n]
  by (cases k) (auto simp: main_token_def word_tok_kind op_tok_kind)

lemma flush_literal_kinds: "no_eof (flush_literal buf line col toks) = no_eof toks"
  by (simp add: flush_literal_def)

lemma lex_kinds:
  "(\<forall>cs line col sl sc depth buf toks interp ts rest l c. no_eof toks \<longrightarrow>
      lex_string_loop n cs line col sl sc depth buf toks interp = Inr (ts, rest, l, c) \<longrightarrow>
      no_eof ts) \<and>
   (\<forall>cs line col il ic depth pd toks ts rest l c. no_eof toks \<longrightarrow>
      lex_interp n cs line col il ic depth pd toks = Inr (rest, l, c, ts) \<longrightarrow> no_eof ts)"
proof (induction n)
  case 0
  show ?case by (simp add: lex_string_loop.simps lex_interp.simps)
next
  case (Suc n)
  have S: "lex_string_loop n cs line col sl sc depth buf toks interp = Inr (ts, rest, l, c) \<Longrightarrow>
      no_eof toks \<Longrightarrow> no_eof ts" for cs line col sl sc depth buf toks interp ts rest l c
    by (rule Suc.IH [THEN conjunct1, rule_format])
  have I: "lex_interp n cs line col il ic depth pd toks = Inr (rest, l, c, ts) \<Longrightarrow>
      no_eof toks \<Longrightarrow> no_eof ts" for cs line col il ic depth pd toks rest l c ts
    by (rule Suc.IH [THEN conjunct2, rule_format])
  have A: "no_eof ts"
    if "lex_string_loop (Suc n) cs line col sl sc depth buf toks interp = Inr (ts, rest, l, c)"
      "no_eof toks"
    for cs line col sl sc depth buf toks interp ts rest l c
    using that
    by (auto simp: lex_string_loop.simps flush_literal_kinds
        split: list.splits if_splits sum.splits dest!: S dest: I)
  have B: "no_eof ts"
    if "lex_interp (Suc n) cs line col il ic depth pd toks = Inr (rest, l, c, ts)" "no_eof toks"
    for cs line col il ic depth pd toks rest l c ts
    using that
    by (auto simp: lex_interp.simps split: list.splits if_splits sum.splits option.splits
        dest!: I dest: S) (blast intro: interp_token_kinds)+
  show ?case by (intro conjI allI impI; (erule A | erule B); assumption)
qed

lemma lex_string_kinds:
  "lex_string cs line col depth = Inr (ts, rest, l, c) \<Longrightarrow> no_eof ts"
  using lex_kinds [of "Suc (length cs)", THEN conjunct1, rule_format, of "[]"]
  by (auto simp: lex_string_def split: if_splits)

lemma tokenize_loop_shape:
  assumes "tokenize_loop cs line col od out = Inr ts" and "no_eof out"
  shows "\<exists>us l c. ts = us @ [Tok (py ''EOF'') [] l c] \<and> no_eof us \<and>
     (esc_ok cs \<longrightarrow> (l, c) = loc_after cs (line, col))"
  using assms
proof (induction cs line col od out rule: tokenize_loop.induct)
  case (1 cs line col od out)
  show ?case
  proof (cases cs)
    case Nil
    with "1.prems" show ?thesis by (auto simp: tokenize_loop.simps)
  next
    case (Cons ch r)
    have comb: "\<exists>us l c. ts = us @ [Tok (py ''EOF'') [] l c] \<and> no_eof us \<and>
        (esc_ok cs \<longrightarrow> (l, c) = loc_after cs (line, col))"
      if "consumes cs rest line col l1 c1"
        and "\<exists>us l c. ts = us @ [Tok (py ''EOF'') [] l c] \<and> no_eof us \<and>
          (esc_ok rest \<longrightarrow> (l, c) = loc_after rest (l1, c1))" for rest l1 c1
      using that esc_ok_append by (fastforce simp: consumes_def loc_after_append)
    show ?thesis
    proof (cases "ch = QUOTE")
      case True
      with "1.prems"(1) Cons obtain nt rest l1 c1 where
        s: "lex_string cs line col 0 = Inr (nt, rest, l1, c1)"
        and t: "tokenize_loop rest l1 c1 od (out @ nt) = Inr ts"
        by (auto simp: tokenize_loop.simps [of "QUOTE # r"] split: sum.splits)
      show ?thesis
        using "1.IH"(1)[OF Cons True s _ _ _ t] "1.prems"(2) lex_string_kinds[OF s] True Cons s
        by (intro comb[of rest l1 c1]) (auto dest: lex_string_consumes)
    next
      case False
      with "1.prems"(1) Cons obtain k n ts1 l1 c1 od1 where
        m: "token_match cs = Some (k, n)"
        and mt: "main_token k (take n cs) line col od = Inr (ts1, l1, c1, od1)"
        and t: "tokenize_loop (drop n cs) l1 c1 od1 (out @ ts1) = Inr ts"
        by (auto simp: tokenize_loop.simps [of "ch # r"] split: sum.splits option.splits if_splits)
      show ?thesis
        using "1.IH"(2)[OF Cons False m _ mt _ _ _ t] "1.prems"(2) main_token_kinds[OF m mt]
        by (intro comb[of "drop n cs" l1 c1] consumes_main_token[OF m mt]) auto
    qed
  qed
qed

lemma tokenize_loop_no_fuel: "tokenize_loop cs line col od out \<noteq> Inl LexFuel"
proof (induction cs line col od out rule: tokenize_loop.induct)
  case (1 cs line col od out)
  have s: "lex_string cs line col 0 \<noteq> Inl LexFuel"
    using lex_no_fuel [of "Suc (length cs)", THEN conjunct1, rule_format, of "tl cs"]
    by (auto simp: lex_string_def)
  have m: "main_token k tx line col od \<noteq> Inl LexFuel" for k tx
    by (cases k) (auto simp: main_token_def)
  show ?case
    using 1 s m
    by (subst tokenize_loop.simps) (auto split: list.splits sum.splits option.splits)
qed

end
