(* ===== verification/Lexer_Props.thy ===== *)
theory Lexer_Props
  imports Lexer
begin

text \<open>
  Properties of the tokenizer: escaping a string and lexing it back is the identity, the two
  decoders of string literals agree, identifiers lex to one token, the stream ends in one EOF
  token whose location is the end of the source, the scanners always stop, and which characters an
  \<^verbatim>\<open>\x\<close> escape accepts.
\<close>

definition escape_string :: "pystr \<Rightarrow> pystr" where
  "escape_string s =
     replace_char TAB [BSLASH, 116]
       (replace_char LF [BSLASH, 110]
         (replace_char QUOTE [BSLASH, QUOTE]
           (replace_char BSLASH [BSLASH, BSLASH] s)))"

definition esc_char :: "nat \<Rightarrow> pystr" where
  "esc_char c =
     (if c = BSLASH then [BSLASH, BSLASH] else if c = QUOTE then [BSLASH, QUOTE]
      else if c = LF then [BSLASH, 110] else if c = TAB then [BSLASH, 116] else [c])"

lemma escape_string_pointwise: "escape_string s = concat (map esc_char s)"
  by (induction s) (auto simp: escape_string_def esc_char_def replace_char_Cons replace_char_append)

lemma escape_string_Cons: "escape_string (c # s) = esc_char c @ escape_string s"
  by (simp add: escape_string_pointwise)

lemma escape_string_Nil [simp]: "escape_string [] = []"
  by (simp add: escape_string_pointwise)

lemma lex_string_loop_escaped:
  "length s < n \<Longrightarrow>
   lex_string_loop n (escape_string s @ QUOTE # rest) line col sl sc depth buf toks False =
   Inr ([Tok (py ''STR'') (buf @ s) sl sc], rest, line, col + length (escape_string s) + 1)"
proof (induction s arbitrary: n col buf)
  case Nil
  then show ?case by (cases n) (auto simp: lex_string_loop.simps)
next
  case (Cons c s)
  then obtain m where n: "n = Suc m" and m: "length s < m" by (cases n) auto
  note IH = Cons.IH[OF m]
  have "lex_string_loop n (esc_char c @ escape_string s @ QUOTE # rest) line col sl sc depth buf toks False =
        lex_string_loop m (escape_string s @ QUOTE # rest) line (col + length (esc_char c)) sl sc depth
          (buf @ [c]) toks False"
    by (auto simp: n lex_string_loop.simps(2) esc_char_def lex_escape_def)
  then show ?case by (simp add: IH escape_string_Cons)
qed

lemma interp_flag_sticks:
  "lex_string_loop n cs line col sl sc depth buf toks True \<noteq>
   Inr ([Tok (py ''STR'') v sl' sc'], rest, l, c)"
proof (induction n arbitrary: cs line col buf toks)
  case 0
  then show ?case by (simp add: lex_string_loop.simps)
next
  case (Suc n)
  then show ?case
    by (auto simp: lex_string_loop.simps split: list.splits if_splits sum.splits)
qed

lemma take_butlast_drop: "drop k xs \<noteq> [] \<Longrightarrow> take k (butlast xs) = take k xs"
  by (simp add: take_butlast)

lemma decode_loop_of_lex:
  "lex_string_loop n cs line col sl sc depth buf toks False = Inr ([Tok (py ''STR'') v l1 c1], [], l, c) \<Longrightarrow>
   decode_loop (butlast cs) buf = Inr v \<and> cs \<noteq> []"
proof (induction n arbitrary: cs line col buf)
  case 0
  then show ?case by (simp add: lex_string_loop.simps)
next
  case (Suc n)
  show ?case
  proof (cases cs)
    case Nil
    with Suc.prems show ?thesis by (simp add: lex_string_loop.simps)
  next
    case (Cons ch r)
    consider "ch = QUOTE" | "ch \<noteq> QUOTE" "ch = BSLASH" "r \<noteq> []" "hd r = LPAR"
      | "ch \<noteq> QUOTE" "ch = BSLASH" "r \<noteq> []" "hd r \<noteq> LPAR"
      | "ch \<noteq> QUOTE" "\<not> (ch = BSLASH \<and> r \<noteq> [])" by blast
    then show ?thesis
    proof cases
      case 1
      with Suc.prems Cons show ?thesis by (auto simp: lex_string_loop.simps decode_loop.simps)
    next
      case 2
      with Suc.prems Cons show ?thesis
        by (auto simp: lex_string_loop.simps interp_flag_sticks split: sum.splits)
    next
      case 4
      with Suc.prems Cons have "lex_string_loop n r line (col + 1) sl sc depth (buf @ [ch]) toks False
          = Inr ([Tok (py ''STR'') v l1 c1], [], l, c)"
        by (auto simp: lex_string_loop.simps split: if_splits)
      from Suc.IH[OF this] have "decode_loop (butlast r) (buf @ [ch]) = Inr v" "r \<noteq> []" by auto
      with 4 Cons show ?thesis by (simp add: decode_loop.simps [of "ch # butlast r"])
    next
      case 3
      then obtain e r' where r: "r = e # r'" by (cases r) auto
      from 3 Suc.prems Cons r obtain x k where
        e: "lex_escape e r' = Inr (x, k)" and
        s: "lex_string_loop n (drop k cs) line (col + k) sl sc depth (buf @ [x]) toks False
          = Inr ([Tok (py ''STR'') v l1 c1], [], l, c)"
        by (auto simp: lex_string_loop.simps split: sum.splits)
      from Suc.IH[OF s] have d: "decode_loop (butlast (drop k cs)) (buf @ [x]) = Inr v"
        and ne: "drop k cs \<noteq> []" by auto
      have k: "2 \<le> k" using lex_escape_len[OF e] by simp
      then have dk: "drop k cs = drop (k - 2) r'" using Cons r
        by (metis add_2_eq_Suc drop_Suc_Cons le_add_diff_inverse)
      have bl: "butlast (drop (k - 2) r') = drop (k - 2) (butlast r')"
        by (simp add: butlast_drop)
      have ne': "drop (k - 2) r' \<noteq> []" "r' \<noteq> []" using ne dk by auto
      have cs: "butlast cs = BSLASH # e # butlast r'" using Cons r 3 ne' by simp
      have tk: "take (k - 2) (butlast r') = take (k - 2) r'" "length r' > k - 2"
        using take_butlast_drop[OF ne'(1)] ne' by auto
      show ?thesis
        using e d tk cs Cons unfolding dk bl
        by (auto simp: decode_loop.simps [of "BSLASH # e # butlast r'"] lex_escape_def
            decode_hex_escape_def Let_def ESCAPE_MAP_def split: if_splits option.splits)
    qed
  qed
qed

lemma normalize_source_plain:
  assumes "CR \<notin> set s" and "take 1 s \<noteq> [65279]"
  shows "normalize_source s = s"
proof -
  have "replace_crlf s = s" using assms(1) by (induction s rule: replace_crlf.induct) auto
  moreover have "replace_char CR [LF] s = s" using assms(1)
    by (induction s) (auto simp: replace_char_Cons)
  ultimately show ?thesis using assms(2) by (simp add: normalize_source_def)
qed

lemma tokenize_quoted:
  assumes "CR \<notin> set s"
  shows "tokenize (QUOTE # escape_string s @ [QUOTE]) =
     Inr [Tok (py ''STR'') s 1 1, Tok (py ''EOF'') [] 1 (length (escape_string s) + 3)]"
proof -
  have len: "length s \<le> length (escape_string s)"
    by (induction s) (auto simp: escape_string_Cons esc_char_def)
  have "CR \<notin> set (escape_string s)" using assms
    by (induction s) (auto simp: escape_string_Cons esc_char_def)
  then have n: "normalize_source (QUOTE # escape_string s @ [QUOTE]) = QUOTE # escape_string s @ [QUOTE]"
    by (intro normalize_source_plain) auto
  have "lex_string (QUOTE # escape_string s @ [QUOTE]) 1 1 0 =
      Inr ([Tok (py ''STR'') s 1 1], [], 1, length (escape_string s) + 3)"
    using lex_string_loop_escaped[of s "Suc (length (QUOTE # escape_string s @ [QUOTE]))" "[]" 1
        "1 + 1" 1 1 0 "[]" "[]"] len
    by (simp add: lex_string_def MAX_INTERP_DEPTH_def)
  then show ?thesis
    by (simp add: tokenize_def n tokenize_loop.simps [of "QUOTE # _"] tokenize_loop.simps [of "[]"])
qed

lemma is_decimal_ascii: "c < 128 \<Longrightarrow> is_decimal c \<longleftrightarrow> 48 \<le> c \<and> c \<le> 57"
  by (auto simp: is_decimal_def in_ranges_def decimal_ranges_def)

lemma tokenize_word:
  assumes "w \<noteq> []" and "is_id_start (hd w)" and "list_all is_id_char w"
  shows "tokenize w = Inr [word_tok w 1 1, Tok (py ''EOF'') [] 1 (length w + 1)]"
proof -
  obtain c r where w: "w = c # r" using assms(1) by (cases w) auto
  have c: "is_id_start c" using assms(2) w by simp
  have bounds: "c < 128" "c \<noteq> SPACE" "c \<noteq> TAB" "c \<noteq> 35" "c \<noteq> 47" "c \<noteq> LF" "c \<noteq> QUOTE"
    "c \<noteq> 65279" "\<not> (48 \<le> c \<and> c \<le> 57)"
    using c by (auto simp: is_id_start_def)
  have "CR \<notin> set w" using assms(3) by (auto simp: list_all_iff is_id_char_def is_id_start_def)
  then have n: "normalize_source w = w" using bounds w by (intro normalize_source_plain) auto
  have tw: "takeWhile is_id_char w = w" using assms(3) by (simp add: list_all_iff takeWhile_eq_all_conv)
  have "\<not> is_decimal c" using bounds by (simp add: is_decimal_ascii)
  then have "num_match w = None" using w by (simp add: num_match_def)
  then have "token_match w = Some (K_ID, length w)"
    using bounds c tw w by (simp add: token_match_def)
  then show ?thesis
    using bounds n[unfolded w] by (simp add: tokenize_def w tokenize_loop.simps [of "c # r"]
        tokenize_loop.simps [of "[]"] main_token_def)
qed

text \<open>
  C26: A quoted string produced by the runtime's \<^verbatim>\<open>escape_string\<close> lexes back to exactly
  the original string, as a single STR token followed by EOF at the right column, for every
  string without a carriage return (which the lexer normalises to a newline).
\<close>

theorem lexer_escape_roundtrip:
  assumes "CR \<notin> set s"
  shows "tokenize (QUOTE # escape_string s @ [QUOTE]) =
     Inr [Tok (py ''STR'') s 1 1, Tok (py ''EOF'') [] 1 (length (escape_string s) + 3)]"
  using assms by (rule tokenize_quoted)

theorem lexer_escape_roundtrip_witness:
  "CR \<notin> set [LF, QUOTE, BSLASH, 40, 120] \<and>
   tokenize (QUOTE # escape_string [LF, QUOTE, BSLASH, 40, 120] @ [QUOTE]) =
     Inr [Tok (py ''STR'') [LF, QUOTE, BSLASH, 40, 120] 1 1, Tok (py ''EOF'') [] 1 11]"
proof -
  have "CR \<notin> set [LF, QUOTE, BSLASH, 40, 120]" by simp
  moreover have "length (escape_string [LF, QUOTE, BSLASH, 40, 120]) = 8"
    by (simp add: escape_string_pointwise esc_char_def)
  ultimately show ?thesis using lexer_escape_roundtrip [of "[LF, QUOTE, BSLASH, 40, 120]"] by simp
qed

text \<open>
  C27: Whenever \<^verbatim>\<open>_lex_string\<close> reads a whole text as one plain string token, the separate
  decoder \<^verbatim>\<open>decode_string_literal\<close> accepts the same text and returns the same value.
\<close>

theorem decode_agrees_with_lexer:
  assumes "lex_string t line col 0 = Inr ([Tok (py ''STR'') v l1 c1], [], l, c)"
  shows "decode_string_literal t = Inr v"
  using assms decode_loop_of_lex [of "Suc (length t)" "tl t" line "col + 1"]
  by (auto simp: lex_string_def decode_string_literal_def MAX_INTERP_DEPTH_def)

theorem decode_agrees_with_lexer_witness:
  "decode_string_literal (QUOTE # py ''a'' @ [BSLASH, 110, QUOTE]) = Inr (py ''a'' @ [LF])"
proof (rule decode_agrees_with_lexer [of _ 1 1 _ 1 1 1 6])
  show "lex_string (QUOTE # py ''a'' @ [BSLASH, 110, QUOTE]) 1 1 0 =
    Inr ([Tok (py ''STR'') (py ''a'' @ [LF]) 1 1], [], 1, 6)"
    by (simp add: lex_string_def MAX_INTERP_DEPTH_def lex_string_loop.simps lex_escape_def
        pystr_simps)
qed

text \<open>
  C29: A word made of ASCII letters, digits and underscores that does not start with a digit lexes
  to exactly one token: the upper-cased keyword when it is reserved, an ID otherwise.
\<close>

theorem lexer_single_word:
  assumes "w \<noteq> []" and "is_id_start (hd w)" and "list_all is_id_char w"
  shows "tokenize w = Inr [word_tok w 1 1, Tok (py ''EOF'') [] 1 (length w + 1)]"
  using assms by (rule tokenize_word)

theorem lexer_single_word_witness:
  "tokenize (py ''while'') = Inr [Tok (py ''WHILE'') (py ''while'') 1 1, Tok (py ''EOF'') [] 1 6]"
  using lexer_single_word [of "py ''while''"]
  by (simp add: pystr_simps is_id_start_def is_id_char_def word_tok_def KEYWORDS_def upper_def)

text \<open>
  C28: A successful tokenization ends with an EOF token and has no other; and unless a newline
  stands inside the digits of a hexadecimal escape, EOF carries the line and column reached by
  counting the characters of the normalised source.
\<close>

theorem lexer_eof_location:
  assumes "tokenize src = Inr ts"
  shows "\<exists>us l c. ts = us @ [Tok (py ''EOF'') [] l c] \<and> no_eof us \<and>
     (esc_ok (normalize_source src) \<longrightarrow> (l, c) = loc_after (normalize_source src) (1, 1))"
  using tokenize_loop_shape [of "normalize_source src" 1 1 0 "[]" ts] assms
  by (simp add: tokenize_def)

theorem lexer_eof_location_witness:
  "\<exists>us l c. [word_tok (py ''abc'') 1 1, Tok (py ''EOF'') [] 1 4] =
       us @ [Tok (py ''EOF'') [] l c] \<and> no_eof us \<and>
     (esc_ok (normalize_source (py ''abc'')) \<longrightarrow>
       (l, c) = loc_after (normalize_source (py ''abc'')) (1, 1))"
proof (rule lexer_eof_location)
  show "tokenize (py ''abc'') = Inr [word_tok (py ''abc'') 1 1, Tok (py ''EOF'') [] 1 4]"
    using tokenize_word [of "py ''abc''"]
    by (simp add: pystr_simps is_id_start_def is_id_char_def)
qed

text \<open>
  C30: The bound on the scanners' recursion is never reached: string literals and interpolations
  nested to any depth the lexer admits are scanned to the end or refused with a syntax error.
\<close>

theorem lexer_terminates: "tokenize src \<noteq> Inl LexFuel"
  by (simp add: tokenize_def tokenize_loop_no_fuel)

section \<open>Hex escapes\<close>

text \<open>A character of the digits as \<^verbatim>\<open>int\<close> sees it.\<close>

definition plain_char :: "nat \<Rightarrow> nat" where
  "plain_char c = (if c < 128 then c else if is_space c then SPACE
     else case decimal_value c of Some d \<Rightarrow> 48 + d | None \<Rightarrow> 63)"

text \<open>The value of two characters after \<^verbatim>\<open>\x\<close>: two digits, or one digit with white space before or after it or a
  plus before it, or a minus and the digit zero.\<close>

definition two_digit_value :: "nat \<Rightarrow> nat \<Rightarrow> nat option" where
  "two_digit_value x y = (case (hex_value x, hex_value y) of
      (Some m, Some n) \<Rightarrow> Some (16 * m + n)
    | (Some m, None) \<Rightarrow> (if c_space y then Some m else None)
    | (None, Some n) \<Rightarrow> (if c_space x \<or> x = 43 \<or> x = 45 \<and> n = 0 then Some n else None)
    | (None, None) \<Rightarrow> None)"

lemma decimal_value_less: "decimal_value c = Some d \<Longrightarrow> d < 10"
proof -
  have "decimal_value_in rs c = Some d \<Longrightarrow> d < 10" for rs
    by (induction rs) (auto split: if_splits)
  then show "decimal_value c = Some d \<Longrightarrow> d < 10" by (simp add: decimal_value_def)
qed

lemma hex_value_less: "hex_value c = Some d \<Longrightarrow> d < 16"
  by (auto simp: hex_value_def split: if_splits)

lemma hex_value_other: "hex_value c = Some d \<Longrightarrow> \<not> c_space c \<and> c \<noteq> 45 \<and> c \<noteq> 43 \<and> c \<noteq> 95"
  by (auto simp: hex_value_def c_space_def split: if_splits)

lemma skip_prefix_two: "skip_hex_prefix [x, y] = (if x = 48 \<and> (y = 120 \<or> y = 88) then [] else [x, y])" "skip_hex_prefix [x] = [x]" "skip_hex_prefix [] = []"
  by (auto simp: skip_hex_prefix_def py_def Let_def)

lemma hex_value_x: "hex_value 120 = None" "hex_value 88 = None" "hex_value 95 = None" "hex_value 45 = None" "hex_value 43 = None" "\<not> c_space 120"
  "\<not> c_space 88" "\<not> c_space 95" "\<not> c_space 45" "\<not> c_space 43"
  by (simp_all add: hex_value_def c_space_def)

lemma chr_hex_ascii:
  assumes "x < 128" "y < 128"
  shows "chr_hex [x, y] = two_digit_value x y"
proof (cases "hex_value x")
  case (Some m)
  note x = hex_value_other[OF Some] hex_value_less[OF Some]
  show ?thesis
  proof (cases "hex_value y")
    case None
    then show ?thesis using assms x Some
      by (auto simp: chr_hex_def py_int16_def skip_prefix_two two_digit_value_def Let_def hex_value_x)
  next
    case (Some n)
    then show ?thesis using assms x \<open>hex_value x = Some m\<close> hex_value_other[OF Some] hex_value_less[OF Some]
      by (auto simp: chr_hex_def py_int16_def skip_prefix_two two_digit_value_def Let_def hex_value_x nat_add_distrib nat_mult_distrib)
  qed
next
  case None
  show ?thesis
  proof (cases "hex_value y")
    case (Some n)
    then show ?thesis using assms None hex_value_other[OF Some] hex_value_less[OF Some]
      by (auto simp: chr_hex_def py_int16_def skip_prefix_two two_digit_value_def Let_def hex_value_x c_space_def)
  next
    case none: None
    then show ?thesis using assms None
      by (auto simp: chr_hex_def py_int16_def skip_prefix_two two_digit_value_def Let_def hex_value_x)
  qed
qed

lemma to_ascii_small: "list_all (\<lambda>c. c < 128) (to_ascii cs)"
  by (induction cs) (auto split: option.splits dest!: decimal_value_less)

lemma py_int16_to_ascii: "\<not> list_all (\<lambda>c. c < 128) cs \<Longrightarrow> py_int16 cs = py_int16 (to_ascii cs)"
  using to_ascii_small[of cs] by (simp only: py_int16_def if_True if_False)

lemma DEL_no_digit: "\<not> is_space 127" "decimal_value 127 = None"
  by (simp_all add: is_space_def in_ranges_def space_ranges_def decimal_value_def decimal_ranges_def)

lemma plain_char_small: "plain_char c < 128"
  by (auto simp: plain_char_def split: option.splits dest!: decimal_value_less)

lemma two_digit_other:
  "two_digit_value x 63 = (case hex_value x of Some m \<Rightarrow> None | None \<Rightarrow> None)" "two_digit_value x 127 = two_digit_value x 63"
  "two_digit_value 63 y = None" "two_digit_value 127 y = None" "chr_hex [63] = None"
  by (simp_all add: two_digit_value_def hex_value_def c_space_def chr_hex_def py_int16_def skip_prefix_two split: option.split)

lemma chr_hex_two: "chr_hex [a, b] = two_digit_value (plain_char a) (plain_char b)"
proof (cases "a < 128 \<and> b < 128")
  case True
  then show ?thesis by (simp add: chr_hex_ascii plain_char_def)
next
  case False
  then have "chr_hex [a, b] = chr_hex (to_ascii [a, b])" by (simp add: chr_hex_def py_int16_to_ascii)
  also have "\<dots> = two_digit_value (plain_char a) (plain_char b)"
  proof (cases "a < 127 \<or> is_space a \<or> decimal_value a \<noteq> None")
    case True
    then have "a \<noteq> 127" using DEL_no_digit by auto
    with True have "to_ascii [a, b] = plain_char a # to_ascii [b]" by (auto simp: plain_char_def split: option.split)
    moreover have "to_ascii [b] = [if b = 127 then 63 else plain_char b]"
      using DEL_no_digit by (auto simp: plain_char_def split: option.split)
    ultimately have "\<exists>y. to_ascii [a, b] = [plain_char a, y] \<and> (y = plain_char b \<or> b = 127 \<and> y = 63)" by simp
    then obtain y where "to_ascii [a, b] = [plain_char a, y]" "y = plain_char b \<or> b = 127 \<and> y = 63" by blast
    then show ?thesis using plain_char_small[of a] plain_char_small[of b] two_digit_other(2)[of "plain_char a"]
      by (auto simp: chr_hex_ascii plain_char_def[of 127])
  next
    case no: False
    then have "to_ascii [a, b] = [63]" "plain_char a = 63 \<or> plain_char a = 127" by (auto simp: plain_char_def)
    then show ?thesis by (auto simp: two_digit_other)
  qed
  finally show ?thesis .
qed

text \<open>C32: The digits of an \<^verbatim>\<open>\x\<close> escape are read by \<^verbatim>\<open>int(text, 16)\<close>, which accepts more than two hex digits: exactly
  two hex digits, one hex digit with white space before or after it or with a plus before it, and minus
  zero, where decimal digits and white space of any script count. All other pairs of characters are refused.\<close>

theorem x_escape_exact:
  "lex_escape 120 (a # b # cs) = (case two_digit_value (plain_char a) (plain_char b) of
      Some v \<Rightarrow> Inr (v, 4)
    | None \<Rightarrow> Inl (InvalidX [a, b]))"
  by (simp add: lex_escape_def decode_hex_escape_def chr_hex_two numeral_2_eq_2 split: option.split)

end
