(* ===== verification/Py_Float.thy ===== *)
theory Py_Float
  imports Nodus_Prelude
begin

text \<open>
  Python's \<^verbatim>\<open>float\<close>: IEEE 754 binary64 with round-half-even, the part of it the runtime
  uses. A finite float is a sign, a significand below \<open>2 ^ 53\<close> and an exponent; every arithmetic
  result is the exact rational result, rounded once by \<open>round_ratio\<close>.
\<close>

datatype pyfloat = FNaN | FInf bool | FFin bool nat int

fun bit_length :: "nat \<Rightarrow> nat" where
  "bit_length n = (if n = 0 then 0 else Suc (bit_length (n div 2)))"

declare bit_length.simps [simp del]

definition div_half_even :: "nat \<Rightarrow> nat \<Rightarrow> nat" where
  "div_half_even a b =
     (let d = a div b; r = a mod b
      in if 2 * r > b \<or> (2 * r = b \<and> odd d) then d + 1 else d)"

text \<open>\<open>pow_pos e\<close> and \<open>pow_neg e\<close> are the numerator and denominator of \<open>2 ^ e\<close>.\<close>

definition pow_pos :: "int \<Rightarrow> nat" where "pow_pos e = 2 ^ nat e"

definition pow_neg :: "int \<Rightarrow> nat" where "pow_neg e = 2 ^ nat (- e)"

definition choose_exp :: "nat \<Rightarrow> nat \<Rightarrow> int" where
  "choose_exp p q =
     (let e0 = int (bit_length p) - int (bit_length q) - 53;
          e1 = (if p * pow_neg (e0 + 53) \<ge> q * pow_pos (e0 + 53) then e0 + 1 else e0)
      in max (- 1074) e1)"

definition make_float :: "bool \<Rightarrow> nat \<Rightarrow> int \<Rightarrow> pyfloat" where
  "make_float s m e =
     (let (m', e') = (if m = 2 ^ 53 then (2 ^ 52, e + 1) else (m, e))
      in if e' > 971 then FInf s else FFin s m' e')"

definition round_ratio :: "bool \<Rightarrow> nat \<Rightarrow> nat \<Rightarrow> pyfloat" where
  "round_ratio s p q =
     (if p = 0 then FFin s 0 (- 1074)
      else let e = choose_exp p q
           in make_float s (div_half_even (p * pow_neg e) (q * pow_pos e)) e)"

definition round_scaled :: "bool \<Rightarrow> nat \<Rightarrow> int \<Rightarrow> pyfloat" where
  "round_scaled s n e = round_ratio s (n * pow_pos e) (pow_neg e)"

definition signed :: "bool \<Rightarrow> nat \<Rightarrow> int" where
  "signed s n = (if s then - int n else int n)"

fun float_neg :: "pyfloat \<Rightarrow> pyfloat" where
  "float_neg FNaN = FNaN"
| "float_neg (FInf s) = FInf (\<not> s)"
| "float_neg (FFin s m e) = FFin (\<not> s) m e"

fun float_add :: "pyfloat \<Rightarrow> pyfloat \<Rightarrow> pyfloat" where
  "float_add FNaN y = FNaN"
| "float_add x FNaN = FNaN"
| "float_add (FInf s) (FInf t) = (if s = t then FInf s else FNaN)"
| "float_add (FInf s) (FFin _ _ _) = FInf s"
| "float_add (FFin _ _ _) (FInf t) = FInf t"
| "float_add (FFin s m e) (FFin t n f) =
     (let g = min e f;
          v = signed s (m * pow_pos (e - g)) + signed t (n * pow_pos (f - g))
      in if v = 0 then FFin (s \<and> t) 0 (- 1074) else round_scaled (v < 0) (nat \<bar>v\<bar>) g)"

definition float_sub :: "pyfloat \<Rightarrow> pyfloat \<Rightarrow> pyfloat" where
  "float_sub x y = float_add x (float_neg y)"

fun float_is_zero :: "pyfloat \<Rightarrow> bool" where
  "float_is_zero (FFin s m e) = (m = 0)"
| "float_is_zero _ = False"

fun float_sign :: "pyfloat \<Rightarrow> bool" where
  "float_sign FNaN = False"
| "float_sign (FInf s) = s"
| "float_sign (FFin s m e) = s"

fun float_mul :: "pyfloat \<Rightarrow> pyfloat \<Rightarrow> pyfloat" where
  "float_mul FNaN y = FNaN"
| "float_mul x FNaN = FNaN"
| "float_mul (FInf s) y = (if float_is_zero y then FNaN else FInf (s \<noteq> float_sign y))"
| "float_mul x (FInf t) = (if float_is_zero x then FNaN else FInf (float_sign x \<noteq> t))"
| "float_mul (FFin s m e) (FFin t n f) = round_scaled (s \<noteq> t) (m * n) (e + f)"

text \<open>Division by a non-zero float (Python raises on zero).\<close>

fun float_div :: "pyfloat \<Rightarrow> pyfloat \<Rightarrow> pyfloat" where
  "float_div FNaN y = FNaN"
| "float_div x FNaN = FNaN"
| "float_div (FInf s) (FInf t) = FNaN"
| "float_div (FInf s) (FFin t n f) = FInf (s \<noteq> t)"
| "float_div (FFin s m e) (FInf t) = FFin (s \<noteq> t) 0 (- 1074)"
| "float_div (FFin s m e) (FFin t n f) =
     round_ratio (s \<noteq> t) (m * pow_pos (e - f)) (n * pow_neg (e - f))"

text \<open>
  \<^verbatim>\<open>x % y\<close> for \<open>y \<noteq> 0\<close>: the C library's \<open>fmod\<close> (exact, with the sign of \<open>x\<close>), then
  \<open>y\<close> is added when the signs differ; a zero remainder takes the sign of \<open>y\<close>.
\<close>

fun float_mod :: "pyfloat \<Rightarrow> pyfloat \<Rightarrow> pyfloat" where
  "float_mod FNaN y = FNaN"
| "float_mod x FNaN = FNaN"
| "float_mod (FInf s) y = FNaN"
| "float_mod (FFin s m e) (FInf t) =
     (if m = 0 then FFin t 0 (- 1074) else if s \<noteq> t then FInf t else FFin s m e)"
| "float_mod (FFin s m e) (FFin t n f) =
     (let g = min e f;
          r = (m * pow_pos (e - g)) mod (n * pow_pos (f - g))
      in if r = 0 then FFin t 0 (- 1074)
         else if s \<noteq> t then float_add (round_scaled s r g) (FFin t n f)
         else round_scaled s r g)"

fun float_cmp :: "pyfloat \<Rightarrow> pyfloat \<Rightarrow> int option" where
  "float_cmp FNaN y = None"
| "float_cmp x FNaN = None"
| "float_cmp (FInf s) (FInf t) = Some (if s = t then 0 else if s then - 1 else 1)"
| "float_cmp (FInf s) (FFin _ _ _) = Some (if s then - 1 else 1)"
| "float_cmp (FFin _ _ _) (FInf t) = Some (if t then 1 else - 1)"
| "float_cmp (FFin s m e) (FFin t n f) =
     (let g = min e f
      in Some (sgn (signed s (m * pow_pos (e - g)) - signed t (n * pow_pos (f - g)))))"

definition float_eq :: "pyfloat \<Rightarrow> pyfloat \<Rightarrow> bool" where
  "float_eq x y \<longleftrightarrow> float_cmp x y = Some 0"

text \<open>\<^verbatim>\<open>float(i)\<close>; \<open>None\<close> is \<^verbatim>\<open>OverflowError\<close>.\<close>

definition float_of_int :: "int \<Rightarrow> pyfloat option" where
  "float_of_int i =
     (if i = 0 then Some (FFin False 0 (- 1074))
      else case round_ratio (i < 0) (nat \<bar>i\<bar>) 1 of
          FFin s m e \<Rightarrow> Some (FFin s m e)
        | _ \<Rightarrow> None)"

text \<open>The exact comparison of an integer with a float, as Python does it.\<close>

fun int_float_cmp :: "int \<Rightarrow> pyfloat \<Rightarrow> int option" where
  "int_float_cmp i FNaN = None"
| "int_float_cmp i (FInf s) = Some (if s then 1 else - 1)"
| "int_float_cmp i (FFin s m e) =
     Some (sgn (i * int (pow_neg e) - signed s (m * pow_pos e)))"

fun float_is_integer :: "pyfloat \<Rightarrow> bool" where
  "float_is_integer (FFin s m e) \<longleftrightarrow> (m * pow_pos e) mod pow_neg e = 0"
| "float_is_integer _ = False"

text \<open>\<^verbatim>\<open>int(x)\<close> for a finite \<open>x\<close>: truncation; infinities and NaN raise (\<open>None\<close>).\<close>

fun int_of_float :: "pyfloat \<Rightarrow> int option" where
  "int_of_float (FFin s m e) = Some (signed s ((m * pow_pos e) div pow_neg e))"
| "int_of_float _ = None"

definition canonical :: "pyfloat \<Rightarrow> bool" where
  "canonical x = (case x of
      FFin s m e \<Rightarrow> m < 2 ^ 53 \<and> - 1074 \<le> e \<and> e \<le> 971 \<and> (2 ^ 52 \<le> m \<or> e = - 1074)
    | _ \<Rightarrow> True)"

section \<open>Rounding\<close>

lemma bit_length_bounds: "0 < n \<Longrightarrow> 2 ^ (bit_length n - 1) \<le> n \<and> n < 2 ^ bit_length n \<and> 0 < bit_length n"
proof (induction n rule: bit_length.induct)
  case (1 n)
  show ?case
  proof (cases "n div 2 = 0")
    case True
    with "1.prems" have "n = 1" by auto
    then show ?thesis by (simp add: bit_length.simps)
  next
    case False
    with "1.IH" "1.prems" have IH: "2 ^ (bit_length (n div 2) - 1) \<le> n div 2"
      "n div 2 < 2 ^ bit_length (n div 2)" "0 < bit_length (n div 2)" by auto
    obtain k where k: "bit_length (n div 2) = Suc k" using IH(3) gr0_implies_Suc by blast
    have "bit_length n = Suc (Suc k)" using "1.prems" k by (simp add: bit_length.simps [of n])
    with IH k show ?thesis by auto
  qed
qed

lemma div_half_even_exact: "0 < b \<Longrightarrow> div_half_even (k * b) b = k"
  by (simp add: div_half_even_def Let_def)

lemma div_half_even_le: "a < k * b \<Longrightarrow> div_half_even a b \<le> k"
proof -
  assume "a < k * b"
  then have "a div b < k" by (simp add: less_mult_imp_div_less)
  then show ?thesis by (auto simp: div_half_even_def Let_def)
qed

lemma div_half_even_ge: "0 < b \<Longrightarrow> k * b \<le> a \<Longrightarrow> k \<le> div_half_even a b"
proof -
  assume "0 < b" "k * b \<le> a"
  then have "k \<le> a div b" by (simp add: less_eq_div_iff_mult_less_eq)
  then show ?thesis by (auto simp: div_half_even_def Let_def)
qed

text \<open>Integers below \<open>2 ^ 53\<close> in magnitude convert without rounding, and back.\<close>

lemma round_ratio_small:
  assumes "0 < p" and "p < 2 ^ 53"
  shows "round_ratio s p 1 =
     FFin s (p * 2 ^ (53 - bit_length p)) (int (bit_length p) - 53) \<and> bit_length p \<le> 53"
proof -
  define b where "b = bit_length p"
  have b: "2 ^ (b - 1) \<le> p" "p < 2 ^ b" "0 < b"
    using bit_length_bounds[OF assms(1)] by (auto simp: b_def)
  have "(2::nat) ^ (b - 1) < 2 ^ 53" using b(1) assms(2) by (rule le_less_trans)
  then have b53: "b \<le> 53" using power_strict_increasing_iff[of "2::nat" "b - 1" 53] b(3) by simp
  have one: "bit_length (Suc 0) = 1" by (simp add: bit_length.simps)
  have "nat (int b - 1) = b - 1" "nat (1 - int b) = 0" using b(3) by auto
  then have e: "choose_exp p 1 = int b - 53"
    using b b53 by (simp add: choose_exp_def Let_def b_def[symmetric] one pow_pos_def pow_neg_def)
  have pn: "pow_neg (int b - 53) = 2 ^ (53 - b)" "pow_pos (int b - 53) = 1"
    using b53 by (simp_all add: pow_neg_def pow_pos_def nat_diff_distrib)
  have "p * 2 ^ (53 - b) < 2 ^ b * 2 ^ (53 - b)" using b(2) by simp
  also have "\<dots> = (2::nat) ^ 53" using b53 by (simp add: power_add[symmetric])
  finally have m: "p * 2 ^ (53 - b) < 2 ^ 53" .
  have "div_half_even (p * 2 ^ (53 - b)) 1 = p * 2 ^ (53 - b)"
    using div_half_even_exact[of 1 "p * 2 ^ (53 - b)"] by simp
  with assms(1) e pn m b53 show ?thesis
    by (simp add: round_ratio_def make_float_def Let_def b_def[symmetric])
qed

lemma float_of_int_exact:
  assumes "\<bar>i\<bar> < 2 ^ 53"
  shows "\<exists>f. float_of_int i = Some f \<and> float_is_integer f \<and> int_of_float f = Some i"
proof (cases "i = 0")
  case True
  then show ?thesis by (simp add: float_of_int_def signed_def)
next
  case False
  define p where "p = nat \<bar>i\<bar>"
  have p: "0 < p" "p < 2 ^ 53" using False assms by (auto simp: p_def)
  define b where "b = bit_length p"
  have r: "round_ratio (i < 0) p 1 = FFin (i < 0) (p * 2 ^ (53 - b)) (int b - 53)" "b \<le> 53"
    using round_ratio_small[OF p, of "i < 0"] by (auto simp: b_def)
  then have pn: "pow_neg (int b - 53) = 2 ^ (53 - b)" "pow_pos (int b - 53) = 1"
    by (simp_all add: pow_neg_def pow_pos_def nat_diff_distrib)
  have "signed (i < 0) p = i" by (auto simp: signed_def p_def)
  with False r pn show ?thesis by (simp add: float_of_int_def p_def[symmetric])
qed

lemma float_of_int_small_finite: "\<bar>i\<bar> < 2 ^ 53 \<Longrightarrow> float_of_int i \<noteq> None"
  using float_of_int_exact by fastforce

end
