(* ===== verification/Py_Num.thy ===== *)
theory Py_Num
  imports Py_Float
begin

text \<open>
  Python's operators on two numbers of type \<^verbatim>\<open>int\<close> or \<^verbatim>\<open>float\<close> (a \<^verbatim>\<open>bool\<close> counts as an
  integer): what the bytecode optimizer folds with and what the virtual machine computes with.
  \<open>None\<close> is a raised \<^verbatim>\<open>ZeroDivisionError\<close> or \<^verbatim>\<open>OverflowError\<close>.
\<close>

datatype pynum = NInt int | NFloat pyfloat

fun as_float :: "pynum \<Rightarrow> pyfloat option" where
  "as_float (NInt i) = float_of_int i"
| "as_float (NFloat f) = Some f"

text \<open>Arithmetic of two numbers: integers stay integers, otherwise both are converted.\<close>

definition arith :: "(int \<Rightarrow> int \<Rightarrow> int) \<Rightarrow> (pyfloat \<Rightarrow> pyfloat \<Rightarrow> pyfloat) \<Rightarrow> pynum \<Rightarrow> pynum \<Rightarrow> pynum option" where
  "arith fi ff a b = (case (a, b) of
      (NInt i, NInt j) \<Rightarrow> Some (NInt (fi i j))
    | _ \<Rightarrow> (case (as_float a, as_float b) of
              (Some x, Some y) \<Rightarrow> Some (NFloat (ff x y))
            | _ \<Rightarrow> None))"

definition num_truediv :: "pynum \<Rightarrow> pynum \<Rightarrow> pynum option" where
  "num_truediv a b = (case (a, b) of
      (NInt i, NInt j) \<Rightarrow>
        (if j = 0 then None
         else case round_ratio ((i < 0) \<noteq> (j < 0)) (nat \<bar>i\<bar>) (nat \<bar>j\<bar>) of
             FInf s \<Rightarrow> None
           | f \<Rightarrow> Some (NFloat f))
    | _ \<Rightarrow> (case (as_float a, as_float b) of
              (Some x, Some y) \<Rightarrow> (if float_is_zero y then None else Some (NFloat (float_div x y)))
            | _ \<Rightarrow> None))"

definition num_cmp :: "pynum \<Rightarrow> pynum \<Rightarrow> int option" where
  "num_cmp a b = (case (a, b) of
      (NInt i, NInt j) \<Rightarrow> Some (sgn (i - j))
    | (NInt i, NFloat g) \<Rightarrow> int_float_cmp i g
    | (NFloat f, NInt j) \<Rightarrow> map_option uminus (int_float_cmp j f)
    | (NFloat f, NFloat g) \<Rightarrow> float_cmp f g)"


end
