(* ===== verification/Symbol_Table.thy ===== *)
theory Symbol_Table
  imports Nodus_Prelude
begin

text \<open>
  Lexical scopes, \<^verbatim>\<open>src/nodus/compiler/symbol_table.py\<close>. The chain of parent pointers from the
  current scope to the module scope is a list, current scope first: a scope that has been left is
  never reached again. Resolution returns the symbol found and the table, because resolving a
  captured variable registers upvalues in the function scopes on the way.
\<close>

datatype sym_kind = Global | Local | UpvalueSym

datatype scope_kind = ModuleScope | FunctionScope | BlockScope

record symbol =
  sym_name :: pystr
  sym_scope :: sym_kind
  sym_index :: "nat option"
  sym_is_function :: bool

record upvalue =
  up_name :: pystr
  up_is_local :: bool
  up_index :: "nat option"

record scope =
  sc_kind :: scope_kind
  sc_symbols :: "pystr \<rightharpoonup> symbol"
  sc_upvalues :: "upvalue list"
  sc_slots :: nat
  sc_all_slots :: "pystr \<rightharpoonup> nat"

record symtab =
  st_scopes :: "scope list"
  st_all :: "pystr set"

definition new_scope :: "scope_kind \<Rightarrow> scope" where
  "new_scope k = \<lparr>sc_kind = k, sc_symbols = Map.empty, sc_upvalues = [], sc_slots = 0,
                  sc_all_slots = Map.empty\<rparr>"

definition new_symtab :: symtab where
  "new_symtab = \<lparr>st_scopes = [new_scope ModuleScope], st_all = {}\<rparr>"

definition scope_define :: "pystr \<Rightarrow> symbol \<Rightarrow> scope \<Rightarrow> scope" where
  "scope_define name sy sc = sc\<lparr>sc_symbols := (sc_symbols sc)(name \<mapsto> sy)\<rparr>"

definition enter_scope :: "scope_kind \<Rightarrow> symtab \<Rightarrow> symtab" where
  "enter_scope k st = st\<lparr>st_scopes := new_scope k # st_scopes st\<rparr>"

definition exit_scope :: "symtab \<Rightarrow> symtab" where
  "exit_scope st = (case st_scopes st of
      sc # p # ps \<Rightarrow> st\<lparr>st_scopes := p # ps\<rparr>
    | _ \<Rightarrow> st)"

text \<open>The innermost function scope: its position in the chain.\<close>

fun func_index :: "scope list \<Rightarrow> nat option" where
  "func_index [] = None"
| "func_index (sc # scs) =
     (if sc_kind sc = FunctionScope then Some 0 else map_option Suc (func_index scs))"

definition current_function_scope :: "symtab \<Rightarrow> scope option" where
  "current_function_scope st =
     (case func_index (st_scopes st) of None \<Rightarrow> None | Some i \<Rightarrow> Some (st_scopes st ! i))"

definition frame_size :: "symtab \<Rightarrow> nat" where
  "frame_size st = (case current_function_scope st of None \<Rightarrow> 0 | Some sc \<Rightarrow> sc_slots sc)"

definition current_function_upvalues :: "symtab \<Rightarrow> upvalue list" where
  "current_function_upvalues st =
     (case current_function_scope st of None \<Rightarrow> [] | Some sc \<Rightarrow> sc_upvalues sc)"

definition take_slot :: "pystr \<Rightarrow> scope \<Rightarrow> scope" where
  "take_slot name sc = sc\<lparr>sc_all_slots := (sc_all_slots sc)(name \<mapsto> sc_slots sc),
                          sc_slots := Suc (sc_slots sc)\<rparr>"

definition define_scopes :: "pystr \<Rightarrow> bool \<Rightarrow> scope list \<Rightarrow> scope list" where
  "define_scopes name is_fn scs = (case scs of
      [] \<Rightarrow> []
    | sc # rest \<Rightarrow>
        (if sc_kind sc = ModuleScope
         then scope_define name \<lparr>sym_name = name, sym_scope = Global, sym_index = None,
                                 sym_is_function = is_fn\<rparr> sc # rest
         else (case func_index scs of
             None \<Rightarrow> scope_define name \<lparr>sym_name = name, sym_scope = Local, sym_index = None,
                                         sym_is_function = is_fn\<rparr> sc # rest
           | Some i \<Rightarrow>
               (let sy = \<lparr>sym_name = name, sym_scope = Local,
                           sym_index = Some (sc_slots (scs ! i)), sym_is_function = is_fn\<rparr>;
                    scs' = scope_define name sy sc # rest
                in scs'[i := take_slot name (scs' ! i)]))))"

definition sym_define :: "pystr \<Rightarrow> bool \<Rightarrow> symtab \<Rightarrow> symtab" where
  "sym_define name is_fn st =
     st\<lparr>st_scopes := define_scopes name is_fn (st_scopes st), st_all := insert name (st_all st)\<rparr>"

definition define_function :: "pystr \<Rightarrow> symtab \<Rightarrow> symtab" where
  "define_function name st = sym_define name True st"

definition is_defined_anywhere :: "pystr \<Rightarrow> symtab \<Rightarrow> bool" where
  "is_defined_anywhere name st \<longleftrightarrow> name \<in> st_all st"

definition is_defined_in_module :: "pystr \<Rightarrow> symtab \<Rightarrow> bool" where
  "is_defined_in_module name st \<longleftrightarrow> sc_symbols (last (st_scopes st)) name \<noteq> None"

fun resolve_local_in :: "pystr \<Rightarrow> scope list \<Rightarrow> symbol option" where
  "resolve_local_in name [] = None"
| "resolve_local_in name (sc # scs) =
     (case sc_symbols sc name of
        Some sy \<Rightarrow> Some sy
      | None \<Rightarrow> (if sc_kind sc = BlockScope then resolve_local_in name scs else None))"

definition resolve_local :: "pystr \<Rightarrow> symtab \<Rightarrow> symbol option" where
  "resolve_local name st = resolve_local_in name (st_scopes st)"

text \<open>\<^verbatim>\<open>_add_upvalue\<close> on a function scope and the set of all symbols: the upvalue symbol, the
  scope and the set.\<close>

definition new_upvalue :: "scope \<Rightarrow> symbol \<Rightarrow> bool \<Rightarrow> symbol \<times> scope" where
  "new_upvalue f sy is_local =
     (let up_symbol = \<lparr>sym_name = sym_name sy, sym_scope = UpvalueSym,
                       sym_index = Some (length (sc_upvalues f)), sym_is_function = False\<rparr>
      in (up_symbol,
          f\<lparr>sc_upvalues := sc_upvalues f @
               [\<lparr>up_name = sym_name sy, up_is_local = is_local, up_index = sym_index sy\<rparr>],
            sc_symbols := (sc_symbols f)(sym_name sy \<mapsto> up_symbol)\<rparr>))"

definition add_upvalue ::
  "scope \<Rightarrow> pystr set \<Rightarrow> symbol \<Rightarrow> bool \<Rightarrow> symbol \<times> scope \<times> pystr set" where
  "add_upvalue f names sy is_local =
     (case sc_symbols f (sym_name sy) of
        Some s \<Rightarrow>
          (if sym_scope s = UpvalueSym then (s, f, names)
           else case new_upvalue f sy is_local of (u, f') \<Rightarrow> (u, f', insert (sym_name sy) names))
      | None \<Rightarrow>
          (case new_upvalue f sy is_local of (u, f') \<Rightarrow> (u, f', insert (sym_name sy) names)))"

text \<open>The first scope of a list that holds the name, and the first one that holds it as a
  global.\<close>

fun find_in :: "pystr \<Rightarrow> scope list \<Rightarrow> (symbol \<times> scope_kind) option" where
  "find_in name [] = None"
| "find_in name (sc # scs) =
     (case sc_symbols sc name of Some sy \<Rightarrow> Some (sy, sc_kind sc) | None \<Rightarrow> find_in name scs)"

fun find_global :: "pystr \<Rightarrow> scope list \<Rightarrow> symbol option" where
  "find_global name [] = None"
| "find_global name (sc # scs) =
     (case sc_symbols sc name of
        Some sy \<Rightarrow> (if sym_scope sy = Global then Some sy else find_global name scs)
      | None \<Rightarrow> find_global name scs)"

abbreviation not_function :: "scope \<Rightarrow> bool" where
  "not_function sc \<equiv> sc_kind sc \<noteq> FunctionScope"

text \<open>
  \<^verbatim>\<open>_resolve_upvalue_in\<close>: the list starts with the function scope the name is resolved for;
  \<open>blocks\<close> are the scopes between it and the enclosing function scope \<open>enc\<close>.
\<close>

function resolve_upvalue_in ::
  "pystr \<Rightarrow> scope list \<Rightarrow> pystr set \<Rightarrow> symbol option \<times> scope list \<times> pystr set" where
  "resolve_upvalue_in name [] names = (None, [], names)"
| "resolve_upvalue_in name (f # rest) names =
     (let blocks = takeWhile not_function rest
      in case dropWhile not_function rest of
          [] \<Rightarrow> (find_global name rest, f # rest, names)
        | enc # outer \<Rightarrow>
            (case find_in name (blocks @ [enc]) of
               Some (sy, k) \<Rightarrow>
                 (if sym_scope sy = Global then (Some sy, f # rest, names)
                  else case add_upvalue f names sy
                             (\<not> (k = FunctionScope \<and> sym_scope sy = UpvalueSym)) of
                      (s, f', names') \<Rightarrow> (Some s, f' # rest, names'))
             | None \<Rightarrow>
                 (case resolve_upvalue_in name (enc # outer) names of
                    (None, scs, names') \<Rightarrow> (None, f # blocks @ scs, names')
                  | (Some sy, scs, names') \<Rightarrow>
                      (if sym_scope sy = Global then (Some sy, f # blocks @ scs, names')
                       else case add_upvalue f names' sy False of
                           (s, f', names'') \<Rightarrow> (Some s, f' # blocks @ scs, names'')))))"
  by pat_completeness auto
termination
proof (relation "measure (\<lambda>(name, scs, names). length scs)")
  fix name f rest names blocks enc outer
  assume "dropWhile not_function rest = enc # outer"
  then have "length (enc # outer) \<le> length rest"
    by (metis length_dropWhile_le)
  then show "((name, enc # outer, names), (name, f # rest, names))
     \<in> measure (\<lambda>(name, scs, names). length scs)" by simp
qed simp

declare resolve_upvalue_in.simps(2) [simp del]

definition resolve_upvalue :: "pystr \<Rightarrow> symtab \<Rightarrow> symbol option \<times> symtab" where
  "resolve_upvalue name st =
     (case dropWhile not_function (st_scopes st) of
        [] \<Rightarrow> (None, st)
      | f # rest \<Rightarrow>
          (case resolve_upvalue_in name (f # rest) (st_all st) of
             (r, scs, names) \<Rightarrow>
               (r, st\<lparr>st_scopes := takeWhile not_function (st_scopes st) @ scs, st_all := names\<rparr>)))"

definition resolve :: "pystr \<Rightarrow> symtab \<Rightarrow> symbol option \<times> symtab" where
  "resolve name st =
     (case resolve_local name st of
        Some sy \<Rightarrow> (Some sy, st)
      | None \<Rightarrow> resolve_upvalue name st)"

text \<open>\<^verbatim>\<open>is_uncapturable_top_level_local\<close>: the scopes outside the outermost function.\<close>

fun after_last_function :: "scope list \<Rightarrow> scope list option" where
  "after_last_function [] = None"
| "after_last_function (sc # scs) =
     (case after_last_function scs of
        Some r \<Rightarrow> Some r
      | None \<Rightarrow> (if sc_kind sc = FunctionScope then Some scs else None))"

definition is_uncapturable_top_level_local :: "pystr \<Rightarrow> symtab \<Rightarrow> bool" where
  "is_uncapturable_top_level_local name st =
     (case after_last_function (st_scopes st) of
        None \<Rightarrow> False
      | Some scs \<Rightarrow>
          list_ex (\<lambda>sc. case sc_symbols sc name of
              Some sy \<Rightarrow> sym_scope sy = Local | None \<Rightarrow> False) scs)"

definition in_function :: "symtab \<Rightarrow> bool" where
  "in_function st \<longleftrightarrow> func_index (st_scopes st) \<noteq> None"

definition in_nested :: "symtab \<Rightarrow> bool" where
  "in_nested st \<longleftrightarrow> list_ex (\<lambda>sc. sc_kind sc = FunctionScope \<or> sc_kind sc = BlockScope) (st_scopes st)"


section \<open>The scope invariant\<close>

definition slot_limit :: "scope list \<Rightarrow> nat option" where
  "slot_limit scs = (case func_index scs of None \<Rightarrow> None | Some i \<Rightarrow> Some (sc_slots (scs ! i)))"

definition symbol_ok :: "nat option \<Rightarrow> scope \<Rightarrow> pystr \<Rightarrow> symbol \<Rightarrow> bool" where
  "symbol_ok lim sc n s \<longleftrightarrow> sym_name s = n \<and>
     (case sym_scope s of
        Global \<Rightarrow> sc_kind sc = ModuleScope
      | Local \<Rightarrow> sc_kind sc \<noteq> ModuleScope \<and>
          (case lim of None \<Rightarrow> sym_index s = None | Some k \<Rightarrow> (\<exists>i<k. sym_index s = Some i))
      | UpvalueSym \<Rightarrow> sc_kind sc = FunctionScope \<and>
          (\<exists>i<length (sc_upvalues sc). sym_index s = Some i \<and> up_name (sc_upvalues sc ! i) = n))"

definition scope_ok :: "nat option \<Rightarrow> scope \<Rightarrow> bool" where
  "scope_ok lim sc \<longleftrightarrow> (\<forall>n s. sc_symbols sc n = Some s \<longrightarrow> symbol_ok lim sc n s)"

text \<open>The upvalue descriptors of a function scope refer to slots or upvalues of the enclosing
  function scope.\<close>

definition upvalue_ok :: "scope list \<Rightarrow> upvalue \<Rightarrow> bool" where
  "upvalue_ok outer up \<longleftrightarrow> (case dropWhile not_function outer of
      [] \<Rightarrow> False
    | enc # _ \<Rightarrow> (\<exists>i. up_index up = Some i \<and>
        (if up_is_local up then i < sc_slots enc else i < length (sc_upvalues enc))))"

fun wf_scopes :: "scope list \<Rightarrow> bool" where
  "wf_scopes [] = False"
| "wf_scopes (sc # scs) \<longleftrightarrow>
     scope_ok (slot_limit (sc # scs)) sc \<and>
     (if scs = [] then sc_kind sc = ModuleScope else sc_kind sc \<noteq> ModuleScope \<and> wf_scopes scs) \<and>
     (if sc_kind sc = FunctionScope then list_all (upvalue_ok scs) (sc_upvalues sc)
      else sc_upvalues sc = [])"

definition wf_symtab :: "symtab \<Rightarrow> bool" where
  "wf_symtab st \<longleftrightarrow> wf_scopes (st_scopes st)"

lemma wf_new_symtab [simp]: "wf_symtab new_symtab"
  by (simp add: wf_symtab_def new_symtab_def new_scope_def scope_ok_def)

lemma wf_scopes_nonempty: "wf_scopes scs \<Longrightarrow> scs \<noteq> []"
  by (cases scs) auto

lemma wf_enter_scope: "wf_symtab st \<Longrightarrow> k \<noteq> ModuleScope \<Longrightarrow> wf_symtab (enter_scope k st)"
  by (cases k)
    (auto simp: wf_symtab_def enter_scope_def new_scope_def scope_ok_def dest: wf_scopes_nonempty)

lemma wf_exit_scope: "wf_symtab st \<Longrightarrow> wf_symtab (exit_scope st)"
  by (auto simp: wf_symtab_def exit_scope_def split: list.splits)

lemma slot_limit_Cons:
  "slot_limit (sc # scs) = (if sc_kind sc = FunctionScope then Some (sc_slots sc) else slot_limit scs)"
  by (auto simp: slot_limit_def split: option.splits)

lemma slot_limit_dropWhile:
  "slot_limit scs = (case dropWhile not_function scs of [] \<Rightarrow> None | f # _ \<Rightarrow> Some (sc_slots f))"
  by (induction scs) (auto simp: slot_limit_Cons, simp add: slot_limit_def)

text \<open>Chains with the same kinds in which every slot counter and upvalue list may have grown.\<close>

definition scope_grows :: "scope \<Rightarrow> scope \<Rightarrow> bool" where
  "scope_grows a b \<longleftrightarrow> sc_kind a = sc_kind b \<and> sc_slots a \<le> sc_slots b \<and>
     length (sc_upvalues a) \<le> length (sc_upvalues b)"

definition chain_grows :: "scope list \<Rightarrow> scope list \<Rightarrow> bool" where
  "chain_grows = list_all2 scope_grows"

lemma scope_grows_refl [simp]: "scope_grows a a"
  by (simp add: scope_grows_def)

lemma chain_grows_refl [simp]: "chain_grows a a"
  by (simp add: chain_grows_def list_all2_refl)

lemma chain_grows_Cons [simp]:
  "chain_grows (a # as) (b # bs) \<longleftrightarrow> scope_grows a b \<and> chain_grows as bs"
  by (simp add: chain_grows_def)

lemma chain_grows_append:
  "chain_grows bs cs \<Longrightarrow> chain_grows (as @ bs) (as @ cs)"
  by (simp add: chain_grows_def list_all2_appendI list_all2_refl)

lemma chain_grows_trans: "chain_grows as bs \<Longrightarrow> chain_grows bs cs \<Longrightarrow> chain_grows as cs"
  unfolding chain_grows_def
  by (rule list_all2_trans [of scope_grows scope_grows]) (auto simp: scope_grows_def)

lemma chain_grows_length: "chain_grows as bs \<Longrightarrow> length as = length bs"
  by (simp add: chain_grows_def list_all2_lengthD)

lemma chain_grows_dropWhile:
  "chain_grows as bs \<Longrightarrow>
   chain_grows (dropWhile not_function as) (dropWhile not_function bs)"
  unfolding chain_grows_def
  by (induction rule: list_all2_induct) (auto simp: scope_grows_def)

lemma slot_limit_grows:
  assumes "chain_grows as bs"
  shows "case slot_limit as of None \<Rightarrow> slot_limit bs = None
     | Some k \<Rightarrow> (\<exists>k'. slot_limit bs = Some k' \<and> k \<le> k')"
  using chain_grows_dropWhile[OF assms]
  by (cases "dropWhile not_function as"; cases "dropWhile not_function bs")
    (auto simp: slot_limit_dropWhile scope_grows_def chain_grows_def simp del: dropWhile_eq_Nil_conv)

lemma upvalue_ok_grows: "chain_grows as bs \<Longrightarrow> upvalue_ok as up \<Longrightarrow> upvalue_ok bs up"
  using chain_grows_dropWhile[of as bs]
  by (cases "dropWhile not_function as"; cases "dropWhile not_function bs")
    (auto simp: upvalue_ok_def scope_grows_def chain_grows_def simp del: dropWhile_eq_Nil_conv
      split: if_splits)

lemma scope_ok_mono:
  assumes "scope_ok l sc"
    and "case l of None \<Rightarrow> l' = None | Some k \<Rightarrow> (\<exists>k'. l' = Some k' \<and> k \<le> k')"
  shows "scope_ok l' sc"
  unfolding scope_ok_def
proof (intro allI impI)
  fix n s
  assume "sc_symbols sc n = Some s"
  with assms(1) have "symbol_ok l sc n s" by (simp add: scope_ok_def)
  with assms(2) show "symbol_ok l' sc n s"
    by (cases l) (auto simp: symbol_ok_def split: sym_kind.splits)
qed

text \<open>Replacing the tail of a chain by one that has grown keeps the invariant.\<close>

lemma wf_scopes_replace_tail:
  assumes "wf_scopes (sc # as)" and "as \<noteq> []" and "chain_grows as bs" and "wf_scopes bs"
  shows "wf_scopes (sc # bs)"
proof -
  have bs: "bs \<noteq> []" using assms(2,3) chain_grows_length by fastforce
  have "case slot_limit (sc # as) of None \<Rightarrow> slot_limit (sc # bs) = None
     | Some k \<Rightarrow> (\<exists>k'. slot_limit (sc # bs) = Some k' \<and> k \<le> k')"
    using assms(3) by (intro slot_limit_grows) simp
  moreover have "scope_ok (slot_limit (sc # as)) sc" using assms(1) by simp
  ultimately have "scope_ok (slot_limit (sc # bs)) sc" by (rule scope_ok_mono [rotated])
  moreover have "list_all (upvalue_ok as) (sc_upvalues sc) \<Longrightarrow> list_all (upvalue_ok bs) (sc_upvalues sc)"
    using upvalue_ok_grows[OF assms(3)] by (simp add: list_all_iff)
  ultimately show ?thesis using assms bs by (simp split: if_splits)
qed

lemma wf_scopes_replace_suffix:
  assumes "wf_scopes (pre @ as)" and "as \<noteq> []" and "chain_grows as bs" and "wf_scopes bs"
  shows "wf_scopes (pre @ bs)"
  using assms
proof (induction pre)
  case Nil
  then show ?case by simp
next
  case (Cons p pre)
  have w: "wf_scopes (pre @ as)" using Cons.prems(1,2) by (simp split: if_splits)
  have 1: "wf_scopes (p # pre @ as)" using Cons.prems(1) by (simp only: append_Cons)
  have 2: "pre @ as \<noteq> []" using Cons.prems(2) by simp
  from Cons.IH[OF w Cons.prems(2-4)] show ?case
    using wf_scopes_replace_tail[OF 1 2 chain_grows_append[OF Cons.prems(3)]]
    by (simp only: append_Cons)
qed

lemma wf_scopes_suffix: "wf_scopes (pre @ as) \<Longrightarrow> as \<noteq> [] \<Longrightarrow> wf_scopes as"
  by (induction pre) (simp_all split: if_splits)

section \<open>Operations keep the invariant\<close>

lemma func_index_split:
  "func_index scs = Some i \<Longrightarrow>
   takeWhile not_function scs = take i scs \<and> dropWhile not_function scs = drop i scs \<and>
   i < length scs \<and> sc_kind (scs ! i) = FunctionScope"
  by (induction scs arbitrary: i) auto

lemma func_index_None: "func_index scs = None \<longleftrightarrow> dropWhile not_function scs = []"
  by (induction scs) auto

lemma func_index_grows: "chain_grows as bs \<Longrightarrow> func_index as = func_index bs"
  unfolding chain_grows_def
  by (induction rule: list_all2_induct) (auto simp: scope_grows_def)

lemma scope_ok_define:
  assumes "scope_ok l sc" and "symbol_ok l' sc n s"
    and "case l of None \<Rightarrow> l' = None | Some k \<Rightarrow> (\<exists>k'. l' = Some k' \<and> k \<le> k')"
  shows "scope_ok l' (scope_define n s sc)"
proof -
  have "scope_ok l' sc" using assms(1,3) by (rule scope_ok_mono)
  then show ?thesis using assms(2)
    by (auto simp: scope_ok_def scope_define_def symbol_ok_def split: sym_kind.splits)
qed

lemma take_slot_fields [simp]:
  "sc_kind (take_slot n sc) = sc_kind sc"
  "sc_symbols (take_slot n sc) = sc_symbols sc"
  "sc_upvalues (take_slot n sc) = sc_upvalues sc"
  "sc_slots (take_slot n sc) = Suc (sc_slots sc)"
  by (simp_all add: take_slot_def)

lemma scope_define_fields [simp]:
  "sc_kind (scope_define n s sc) = sc_kind sc"
  "sc_symbols (scope_define n s sc) = (sc_symbols sc)(n \<mapsto> s)"
  "sc_upvalues (scope_define n s sc) = sc_upvalues sc"
  "sc_slots (scope_define n s sc) = sc_slots sc"
  by (simp_all add: scope_define_def)

lemma symbol_ok_cong:
  "sc_kind a = sc_kind b \<Longrightarrow> sc_upvalues a = sc_upvalues b \<Longrightarrow> symbol_ok l a n s = symbol_ok l b n s"
  by (simp add: symbol_ok_def split: sym_kind.split)

lemma scope_ok_take_slot: "scope_ok l (take_slot n sc) = scope_ok l sc"
  by (simp add: scope_ok_def symbol_ok_cong[of "take_slot n sc" sc])

lemma wf_take_slot:
  assumes "wf_scopes scs" and "func_index scs = Some i"
  shows "wf_scopes (scs[i := take_slot n (scs ! i)]) \<and> chain_grows scs (scs[i := take_slot n (scs ! i)])"
proof -
  define f where "f = scs ! i"
  define rest where "rest = drop (Suc i) scs"
  have i: "i < length scs" "sc_kind f = FunctionScope"
    using func_index_split[OF assms(2)] by (auto simp: f_def)
  have split: "scs = take i scs @ f # rest" using i(1) by (simp add: f_def rest_def id_take_nth_drop)
  have upd: "scs[i := take_slot n f] = take i scs @ take_slot n f # rest"
    using i(1) by (simp add: rest_def upd_conv_take_nth_drop)
  have whole: "wf_scopes (take i scs @ f # rest)" using assms(1) split by simp
  have wf: "wf_scopes (f # rest)" by (rule wf_scopes_suffix[OF whole]) simp
  have l: "slot_limit (f # rest) = Some (sc_slots f)"
    "slot_limit (take_slot n f # rest) = Some (Suc (sc_slots f))"
    using i(2) by (simp_all add: slot_limit_Cons)
  have "scope_ok (Some (sc_slots f)) f" using wf l by simp
  then have "scope_ok (Some (Suc (sc_slots f))) (take_slot n f)"
    unfolding scope_ok_take_slot by (rule scope_ok_mono) simp
  with wf l i(2) have wf': "wf_scopes (take_slot n f # rest)"
    by (simp split: if_splits)
  have g: "chain_grows (f # rest) (take_slot n f # rest)"
    by (simp add: scope_grows_def)
  have "wf_scopes (take i scs @ take_slot n f # rest)"
    by (rule wf_scopes_replace_suffix[OF whole _ g wf']) simp
  moreover have "chain_grows (take i scs @ f # rest) (take i scs @ take_slot n f # rest)"
    by (rule chain_grows_append[OF g])
  ultimately show ?thesis unfolding f_def[symmetric] upd using split by simp
qed

lemma slot_limit_eq_func_index:
  "slot_limit scs = map_option (\<lambda>i. sc_slots (scs ! i)) (func_index scs)"
  by (simp add: slot_limit_def split: option.split)

lemma wf_scope_define:
  assumes wf: "wf_scopes (sc # rest)" and ok: "symbol_ok (slot_limit (sc # rest)) sc n s"
  shows "wf_scopes (scope_define n s sc # rest)"
proof -
  have "slot_limit (scope_define n s sc # rest) = slot_limit (sc # rest)"
    by (simp add: slot_limit_Cons)
  moreover have "scope_ok (slot_limit (sc # rest)) (scope_define n s sc)"
    by (rule scope_ok_define[OF _ ok]) (use wf in \<open>auto split: option.split\<close>)
  ultimately show ?thesis using wf by (simp split: if_splits)
qed

text \<open>Declaring a name: the slot is taken before the symbol is recorded, so that the symbol's
  index is below the counter.\<close>

lemma define_scopes_slot_first:
  assumes "func_index (sc # rest) = Some i" and "sc_kind sc \<noteq> ModuleScope"
  shows "define_scopes n b (sc # rest) =
    (case (sc # rest)[i := take_slot n ((sc # rest) ! i)] of
       [] \<Rightarrow> [] | sc' # rest' \<Rightarrow>
         scope_define n \<lparr>sym_name = n, sym_scope = Local,
            sym_index = Some (sc_slots ((sc # rest) ! i)), sym_is_function = b\<rparr> sc' # rest')"
  using assms
  by (cases i) (auto simp: define_scopes_def Let_def take_slot_def scope_define_def)

lemma wf_define_scopes:
  assumes wf: "wf_scopes scs"
  shows "wf_scopes (define_scopes n b scs)"
proof (cases scs)
  case Nil
  with wf show ?thesis by simp
next
  case (Cons sc rest)
  show ?thesis
  proof (cases "sc_kind sc = ModuleScope \<or> func_index scs = None")
    case True
    have "slot_limit (sc # rest) = None" if "sc_kind sc \<noteq> ModuleScope"
      using True that Cons by (simp add: slot_limit_eq_func_index)
    then show ?thesis using True wf Cons
      by (auto simp: define_scopes_def symbol_ok_def simp del: wf_scopes.simps func_index.simps
          intro!: wf_scope_define)
  next
    case False
    then obtain i where i: "func_index (sc # rest) = Some i" using Cons by auto
    obtain sc' rest' where t: "(sc # rest)[i := take_slot n ((sc # rest) ! i)] = sc' # rest'"
      by (cases i) auto
    have w: "wf_scopes (sc' # rest')" and g: "chain_grows (sc # rest) (sc' # rest')"
      using wf_take_slot[OF wf[unfolded Cons] i, of n] unfolding t by blast+
    have k: "sc_kind sc' \<noteq> ModuleScope"
      using g False by (simp add: scope_grows_def)
    have "func_index (sc' # rest') = Some i"
      using func_index_grows[OF g] i by simp
    moreover have "(sc' # rest') ! i = take_slot n ((sc # rest) ! i)"
      using t i func_index_split[OF i] by (metis nth_list_update_eq)
    ultimately have "slot_limit (sc' # rest') = Some (Suc (sc_slots ((sc # rest) ! i)))"
      by (simp only: slot_limit_eq_func_index) simp
    then have "wf_scopes (scope_define n \<lparr>sym_name = n, sym_scope = Local,
            sym_index = Some (sc_slots ((sc # rest) ! i)), sym_is_function = b\<rparr> sc' # rest')"
      using k by (intro wf_scope_define[OF w]) (simp add: symbol_ok_def)
    then show ?thesis using define_scopes_slot_first[OF i, of n b] False
      unfolding Cons t by (simp del: wf_scopes.simps)
  qed
qed

lemma wf_sym_define: "wf_symtab st \<Longrightarrow> wf_symtab (sym_define n b st)"
  by (simp add: wf_symtab_def sym_define_def wf_define_scopes)

subsection \<open>Upvalues\<close>

lemma wf_new_upvalue:
  assumes wf: "wf_scopes (f # rest)" and kind: "sc_kind f = FunctionScope"
    and up: "upvalue_ok rest \<lparr>up_name = sym_name sy, up_is_local = b, up_index = sym_index sy\<rparr>"
    and eq: "new_upvalue f sy b = (s, f')"
  shows "wf_scopes (f' # rest) \<and> scope_grows f f' \<and> symbol_ok (Some (sc_slots f')) f' (sym_name sy) s
    \<and> sym_scope s = UpvalueSym \<and> sc_symbols f' (sym_name sy) = Some s"
proof -
  have f': "f' = f\<lparr>sc_upvalues := sc_upvalues f @
        [\<lparr>up_name = sym_name sy, up_is_local = b, up_index = sym_index sy\<rparr>],
      sc_symbols := (sc_symbols f)(sym_name sy \<mapsto> s)\<rparr>"
    and s: "s = \<lparr>sym_name = sym_name sy, sym_scope = UpvalueSym,
        sym_index = Some (length (sc_upvalues f)), sym_is_function = False\<rparr>"
    using eq by (auto simp: new_upvalue_def Let_def)
  have ok: "scope_ok (Some (sc_slots f)) f" using wf kind by (simp add: slot_limit_Cons)
  have "scope_ok (Some (sc_slots f)) f'"
    unfolding scope_ok_def
  proof (intro allI impI)
    fix n t
    assume t: "sc_symbols f' n = Some t"
    show "symbol_ok (Some (sc_slots f)) f' n t"
    proof (cases "n = sym_name sy")
      case True
      with t have "t = s" by (simp add: f')
      with True show ?thesis using kind by (simp add: symbol_ok_def f' s)
    next
      case False
      with t ok have "symbol_ok (Some (sc_slots f)) f n t" by (simp add: scope_ok_def f')
      then show ?thesis
        by (auto simp: symbol_ok_def f' nth_append split: sym_kind.splits)
    qed
  qed
  then show ?thesis using wf kind up
    by (auto simp: slot_limit_Cons f' scope_grows_def symbol_ok_def s split: if_splits)
qed

lemma wf_add_upvalue:
  assumes wf: "wf_scopes (f # rest)" and kind: "sc_kind f = FunctionScope"
    and up: "upvalue_ok rest \<lparr>up_name = sym_name sy, up_is_local = b, up_index = sym_index sy\<rparr>"
    and eq: "add_upvalue f names sy b = (s, f', names')"
  shows "wf_scopes (f' # rest) \<and> scope_grows f f' \<and> symbol_ok (Some (sc_slots f')) f' (sym_name sy) s
    \<and> sym_scope s = UpvalueSym \<and> sc_symbols f' (sym_name sy) = Some s"
proof (cases "\<exists>s. sc_symbols f (sym_name sy) = Some s \<and> sym_scope s = UpvalueSym")
  case True
  then obtain t where t: "sc_symbols f (sym_name sy) = Some t" "sym_scope t = UpvalueSym" by blast
  have "scope_ok (Some (sc_slots f)) f" using wf kind by (simp add: slot_limit_Cons)
  with t have "symbol_ok (Some (sc_slots f)) f (sym_name sy) t" by (simp add: scope_ok_def)
  with True t eq wf show ?thesis by (simp add: add_upvalue_def)
next
  case False
  obtain s' f'' where n: "new_upvalue f sy b = (s', f'')" by (cases "new_upvalue f sy b")
  have "add_upvalue f names sy b = (s', f'', insert (sym_name sy) names)"
    using False n by (auto simp: add_upvalue_def split: option.split)
  then have "s' = s" "f'' = f'" using eq by simp_all
  then show ?thesis using wf_new_upvalue[OF wf kind up n] by simp
qed

text \<open>What a symbol found in the scopes of one function says about that function.\<close>

lemma find_in_sound:
  assumes "wf_scopes (blocks @ enc # outer)" and "\<forall>sc\<in>set blocks. not_function sc"
    and "sc_kind enc = FunctionScope" and "find_in n (blocks @ [enc]) = Some (sy, k)"
  shows "\<exists>sc. symbol_ok (Some (sc_slots enc)) sc n sy \<and> sc_kind sc = k \<and>
     (sym_scope sy = UpvalueSym \<longrightarrow> sc = enc) \<and> sym_scope sy \<noteq> Global"
  using assms
proof (induction blocks)
  case Nil
  then have "symbol_ok (Some (sc_slots enc)) enc n sy" "k = FunctionScope"
    by (auto simp: scope_ok_def slot_limit_Cons split: option.splits)
  with Nil.prems(3) show ?case by (intro exI[of _ enc]) (auto simp: symbol_ok_def)
next
  case (Cons sc blocks)
  have lim: "slot_limit ((sc # blocks) @ enc # outer) = Some (sc_slots enc)"
    using Cons.prems(2,3) by (simp add: slot_limit_dropWhile dropWhile_append2)
  show ?case
  proof (cases "sc_symbols sc n")
    case None
    then show ?thesis using Cons by (simp split: if_splits)
  next
    case (Some t)
    then have "symbol_ok (Some (sc_slots enc)) sc n sy" "sc_kind sc = k"
      using Cons.prems(1,4) lim by (auto simp: scope_ok_def)
    moreover have "sc_kind sc \<noteq> ModuleScope" "not_function sc" using Cons.prems(1,2) by auto
    ultimately show ?thesis by (auto simp: symbol_ok_def split: sym_kind.splits)
  qed
qed

lemma upvalue_ok_skip:
  "\<forall>sc\<in>set blocks. not_function sc \<Longrightarrow> sc_kind enc = FunctionScope \<Longrightarrow>
   upvalue_ok (blocks @ enc # outer) up =
     (\<exists>i. up_index up = Some i \<and>
        (if up_is_local up then i < sc_slots enc else i < length (sc_upvalues enc)))"
  by (simp add: upvalue_ok_def dropWhile_append2)


lemma find_global_is_global: "find_global n scs = Some s \<Longrightarrow> sym_scope s = Global"
  by (induction scs) (auto split: option.splits if_splits)

text \<open>Resolving a captured name, the loop over the enclosing functions.\<close>

lemma wf_resolve_upvalue_in:
  assumes "wf_scopes scs" and "case scs of [] \<Rightarrow> True | f # _ \<Rightarrow> sc_kind f = FunctionScope"
    and "resolve_upvalue_in n scs names = (r, scs', names')"
  shows "wf_scopes scs' \<and> chain_grows scs scs' \<and>
    (\<forall>s. r = Some s \<longrightarrow> sym_scope s = Global \<or>
       (sym_scope s = UpvalueSym \<and> symbol_ok (Some (sc_slots (hd scs'))) (hd scs') n s \<and>
        sc_symbols (hd scs') n = Some s)) \<and>
    ((\<forall>s. r = Some s \<longrightarrow> sym_scope s = Global) \<longrightarrow> scs' = scs \<and> names' = names)"
  using assms
proof (induction n scs names arbitrary: r scs' names' rule: resolve_upvalue_in.induct)
  case (1 name names)
  then show ?case by simp
next
  case (2 n f rest names)
  define blocks where "blocks = takeWhile not_function rest"
  note step = resolve_upvalue_in.simps(2)[of n f rest names, unfolded Let_def]
  have kf: "sc_kind f = FunctionScope" using "2.prems"(2) by simp
  have blk: "\<forall>sc\<in>set blocks. not_function sc"
    by (auto simp: blocks_def dest: set_takeWhileD)
  show ?case
  proof (cases "dropWhile not_function rest")
    case Nil
    have "resolve_upvalue_in n (f # rest) names = (find_global n rest, f # rest, names)"
      unfolding step Nil by simp
    then have "r = find_global n rest" "scs' = f # rest" "names' = names" using "2.prems"(3) by simp_all
    then show ?thesis using "2.prems"(1) find_global_is_global[of n rest]
      by (simp del: wf_scopes.simps)
  next
    case (Cons enc outer)
    have rest: "rest = blocks @ enc # outer"
      using Cons by (metis blocks_def takeWhile_dropWhile_id)
    have ke: "sc_kind enc = FunctionScope"
      using hd_dropWhile[of not_function rest] Cons by simp
    have wr: "wf_scopes rest" using "2.prems"(1) rest by (simp split: if_splits)
    have add: "wf_scopes (f' # rest2) \<and> chain_grows (f # rest) (f' # rest2) \<and> sym_scope s = UpvalueSym \<and>
        symbol_ok (Some (sc_slots f')) f' n s \<and> sc_symbols f' n = Some s"
      if "add_upvalue f nm sy b = (s, f', nm')" "sym_name sy = n" "chain_grows rest rest2"
        "wf_scopes rest2"
        "upvalue_ok rest2 \<lparr>up_name = sym_name sy, up_is_local = b, up_index = sym_index sy\<rparr>"
      for nm sy b s f' nm' rest2
    proof -
      have "wf_scopes (f # rest2)"
        by (rule wf_scopes_replace_tail[OF "2.prems"(1) _ that(3,4)]) (simp add: rest)
      from wf_add_upvalue[OF this kf that(5,1)] that(2,3) show ?thesis by simp
    qed
    show ?thesis
    proof (cases "find_in n (blocks @ [enc])")
      case (Some p)
      obtain sy k where p: "p = (sy, k)" by (cases p)
      from find_in_sound[OF wr[unfolded rest] blk ke Some[unfolded p]] obtain sc where
        sc: "symbol_ok (Some (sc_slots enc)) sc n sy" "sc_kind sc = k"
          "sym_scope sy = UpvalueSym \<Longrightarrow> sc = enc" "sym_scope sy \<noteq> Global" by blast
      define b where "b = (\<not> (k = FunctionScope \<and> sym_scope sy = UpvalueSym))"
      obtain s f' nm where a: "add_upvalue f names sy b = (s, f', nm)" by (metis prod_cases3)
      have "resolve_upvalue_in n (f # rest) names = (Some s, f' # rest, nm)"
        unfolding step Cons list.case blocks_def[symmetric] Some p
        using a sc(4) by (simp add: b_def)
      moreover have "sym_name sy = n" using sc(1) by (simp add: symbol_ok_def)
      moreover have "upvalue_ok rest \<lparr>up_name = sym_name sy, up_is_local = b, up_index = sym_index sy\<rparr>"
        unfolding rest upvalue_ok_skip[OF blk ke] using sc ke
        by (cases "sym_scope sy") (auto simp: symbol_ok_def b_def)
      ultimately show ?thesis using add[OF a _ chain_grows_refl wr] "2.prems"(3) by auto
    next
      case None
      obtain r1 scs1 nm1 where r1: "resolve_upvalue_in n (enc # outer) names = (r1, scs1, nm1)"
        by (metis prod_cases3)
      have we: "wf_scopes (enc # outer)" using wr unfolding rest by (rule wf_scopes_suffix) simp
      have IH: "wf_scopes scs1 \<and> chain_grows (enc # outer) scs1 \<and>
         (\<forall>s. r1 = Some s \<longrightarrow> sym_scope s = Global \<or>
            (sym_scope s = UpvalueSym \<and> symbol_ok (Some (sc_slots (hd scs1))) (hd scs1) n s \<and>
             sc_symbols (hd scs1) n = Some s)) \<and>
         ((\<forall>s. r1 = Some s \<longrightarrow> sym_scope s = Global) \<longrightarrow> scs1 = enc # outer \<and> nm1 = names)"
        by (rule "2.IH"[OF blocks_def Cons None we _ r1]) (simp add: ke)
      obtain enc1 outer1 where scs1: "scs1 = enc1 # outer1" and ke1: "sc_kind enc1 = FunctionScope"
        using IH ke by (cases scs1) (auto simp: scope_grows_def chain_grows_def)
      have g: "chain_grows rest (blocks @ scs1)" unfolding rest using IH by (intro chain_grows_append) simp
      have w1: "wf_scopes (blocks @ scs1)"
        by (rule wf_scopes_replace_suffix[OF wr[unfolded rest]]) (use IH in simp_all)
      have eq: "resolve_upvalue_in n (f # rest) names =
          (case r1 of None \<Rightarrow> (None, f # blocks @ scs1, nm1)
           | Some sy \<Rightarrow> if sym_scope sy = Global then (Some sy, f # blocks @ scs1, nm1)
              else case add_upvalue f nm1 sy False of (s, f', nm2) \<Rightarrow> (Some s, f' # blocks @ scs1, nm2))"
        unfolding step Cons list.case blocks_def[symmetric] None r1
        by (simp split: option.split)
      have plain: "wf_scopes (f # blocks @ scs1)"
        by (rule wf_scopes_replace_tail[OF "2.prems"(1) _ g w1]) (simp add: rest)
      show ?thesis
      proof (cases "\<exists>sy. r1 = Some sy \<and> sym_scope sy \<noteq> Global")
        case False
        with IH have "scs1 = enc # outer" "nm1 = names" by blast+
        with False show ?thesis using eq "2.prems"(3) plain g rest
          by (cases r1) (auto simp del: wf_scopes.simps)
      next
        case True
        then obtain sy where sy: "r1 = Some sy" "sym_scope sy \<noteq> Global" by blast
        with IH scs1 have ok: "sym_scope sy = UpvalueSym" "symbol_ok (Some (sc_slots enc1)) enc1 n sy"
          by auto
        obtain s f' nm where a: "add_upvalue f nm1 sy False = (s, f', nm)" by (metis prod_cases3)
        have "upvalue_ok (blocks @ scs1)
            \<lparr>up_name = sym_name sy, up_is_local = False, up_index = sym_index sy\<rparr>"
          unfolding scs1 upvalue_ok_skip[OF blk ke1] using ok by (auto simp: symbol_ok_def)
        then show ?thesis using add[OF a _ g w1] ok eq sy a "2.prems"(3)
          by (auto simp: symbol_ok_def simp del: wf_scopes.simps)
      qed
    qed
  qed
qed

subsection \<open>Resolution and declaration\<close>

lemma resolve_local_blocks:
  "\<forall>sc\<in>set bs. sc_kind sc = BlockScope \<Longrightarrow>
   resolve_local_in n (bs @ scs) =
     (case find_in n bs of Some (s, _) \<Rightarrow> Some s | None \<Rightarrow> resolve_local_in n scs)"
  by (induction bs) (auto split: option.split)

lemma wf_scopes_kinds:
  "wf_scopes (pre @ post) \<Longrightarrow> post \<noteq> [] \<Longrightarrow> sc \<in> set pre \<Longrightarrow> sc_kind sc \<noteq> ModuleScope"
  by (induction pre) (auto split: if_splits)

lemma current_function_scope_dropWhile:
  "current_function_scope st =
     (case dropWhile not_function (st_scopes st) of [] \<Rightarrow> None | f # _ \<Rightarrow> Some f)"
proof (cases "func_index (st_scopes st)")
  case None
  then have "dropWhile not_function (st_scopes st) = []" by (simp only: func_index_None)
  then show ?thesis unfolding current_function_scope_def None by (simp only: option.case list.case)
next
  case (Some i)
  from func_index_split[OF this] have "dropWhile not_function (st_scopes st) = st_scopes st ! i # drop (Suc i) (st_scopes st)"
    by (simp add: Cons_nth_drop_Suc)
  then show ?thesis unfolding current_function_scope_def Some by simp
qed

text \<open>Inside a function the chain is: blocks of the function, its scope, the scopes outside.\<close>

lemma wf_in_function_split:
  assumes "wf_symtab st" and "in_function st"
  obtains bs f rest where "st_scopes st = bs @ f # rest" "sc_kind f = FunctionScope"
    "\<forall>sc\<in>set bs. sc_kind sc = BlockScope" "takeWhile not_function (st_scopes st) = bs"
    "dropWhile not_function (st_scopes st) = f # rest" "rest \<noteq> []"
proof -
  have "dropWhile not_function (st_scopes st) \<noteq> []"
    using assms(2) unfolding in_function_def by (simp only: func_index_None not_False_eq_True)
  then obtain f rest where d: "dropWhile not_function (st_scopes st) = f # rest"
    by (meson neq_Nil_conv)
  define bs where "bs = takeWhile not_function (st_scopes st)"
  have e: "st_scopes st = bs @ f # rest" using d by (metis bs_def takeWhile_dropWhile_id)
  have k: "sc_kind f = FunctionScope" using hd_dropWhile[of not_function "st_scopes st"] d by simp
  have w: "wf_scopes (bs @ f # rest)" using assms(1) e by (simp add: wf_symtab_def)
  have "sc_kind sc = BlockScope" if "sc \<in> set bs" for sc
    using wf_scopes_kinds[OF w _ that] that
    by (cases "sc_kind sc") (auto simp: bs_def dest: set_takeWhileD)
  moreover have "rest \<noteq> []" using wf_scopes_suffix[OF w] k by auto
  ultimately show ?thesis using that e k d bs_def by blast
qed

lemma resolve_local_ok:
  assumes "wf_scopes scs" and "resolve_local_in n scs = Some s"
  shows "\<exists>sc\<in>set scs. symbol_ok (slot_limit scs) sc n s \<and>
    (sc_kind sc = FunctionScope \<longrightarrow> Some sc = (case dropWhile not_function scs of [] \<Rightarrow> None | f # _ \<Rightarrow> Some f))"
  using assms
proof (induction scs)
  case Nil
  then show ?case by simp
next
  case (Cons sc scs)
  show ?case
  proof (cases "sc_symbols sc n")
    case (Some t)
    then have "symbol_ok (slot_limit (sc # scs)) sc n s" using Cons.prems by (simp add: scope_ok_def)
    then show ?thesis by (intro bexI[of _ sc]) simp_all
  next
    case None
    then have "sc_kind sc = BlockScope" "resolve_local_in n scs = Some s" "wf_scopes scs"
      using Cons.prems by (auto split: if_splits)
    then show ?thesis using Cons.IH by (auto simp: slot_limit_Cons)
  qed
qed

definition resolved_ok :: "pystr \<Rightarrow> symbol \<Rightarrow> symtab \<Rightarrow> bool" where
  "resolved_ok n s st \<longleftrightarrow> (case sym_scope s of
      Global \<Rightarrow> True
    | Local \<Rightarrow> (if in_function st then (\<exists>i < frame_size st. sym_index s = Some i) else sym_index s = None)
    | UpvalueSym \<Rightarrow> in_function st \<and> (\<exists>i < length (current_function_upvalues st). sym_index s = Some i \<and>
         up_name (current_function_upvalues st ! i) = n))"

lemma slot_limit_frame:
  "slot_limit (st_scopes st) = (if in_function st then Some (frame_size st) else None)"
  by (auto simp: slot_limit_def in_function_def frame_size_def current_function_scope_def
      split: option.split)

lemma symbol_ok_resolved:
  assumes "symbol_ok (slot_limit (st_scopes st)) sc n s"
    and "sc_kind sc = FunctionScope \<longrightarrow> Some sc = current_function_scope st"
  shows "resolved_ok n s st"
proof (cases "sym_scope s")
  case Local
  then show ?thesis using assms(1) by (auto simp: symbol_ok_def resolved_ok_def slot_limit_frame)
next
  case UpvalueSym
  then have "current_function_scope st = Some sc" using assms by (simp add: symbol_ok_def)
  then show ?thesis using UpvalueSym assms(1)
    by (auto simp: symbol_ok_def resolved_ok_def current_function_upvalues_def in_function_def
        current_function_scope_def split: option.splits)
qed (use assms in \<open>auto simp: symbol_ok_def resolved_ok_def\<close>)

lemma chain_grows_function:
  assumes "chain_grows (st_scopes st) (st_scopes st')"
  shows "in_function st' = in_function st" "frame_size st \<le> frame_size st'"
    "length (current_function_upvalues st) \<le> length (current_function_upvalues st')"
proof -
  have f: "func_index (st_scopes st') = func_index (st_scopes st)"
    using func_index_grows[OF assms] by simp
  then show "in_function st' = in_function st" by (simp add: in_function_def)
  have "scope_grows (st_scopes st ! i) (st_scopes st' ! i)" if "func_index (st_scopes st) = Some i" for i
    using assms func_index_split[OF that] by (simp add: chain_grows_def list_all2_nthD)
  then show "frame_size st \<le> frame_size st'"
    "length (current_function_upvalues st) \<le> length (current_function_upvalues st')"
    using f by (auto simp: frame_size_def current_function_upvalues_def current_function_scope_def
        scope_grows_def split: option.split)
qed

lemma resolve_upvalue_ok:
  assumes wf: "wf_symtab st" and eq: "resolve_upvalue n st = (r, st')"
  shows "wf_symtab st' \<and> chain_grows (st_scopes st) (st_scopes st') \<and>
    (\<forall>s. r = Some s \<longrightarrow> resolved_ok n s st' \<and> sym_scope s \<noteq> Local) \<and>
    (resolve_local n st = None \<longrightarrow> resolve n st' = (r, st'))"
proof (cases "in_function st")
  case False
  then have "dropWhile not_function (st_scopes st) = []"
    unfolding in_function_def func_index_None by simp
  then have "resolve_upvalue n st = (None, st)" unfolding resolve_upvalue_def by (simp only: list.case)
  then show ?thesis using wf eq by (auto simp: resolve_def)
next
  case True
  obtain bs f rest where sp: "st_scopes st = bs @ f # rest" "sc_kind f = FunctionScope"
    "\<forall>sc\<in>set bs. sc_kind sc = BlockScope" "takeWhile not_function (st_scopes st) = bs"
    "dropWhile not_function (st_scopes st) = f # rest" "rest \<noteq> []"
    by (rule wf_in_function_split[OF wf True])
  have w: "wf_scopes (bs @ f # rest)" using wf sp(1) by (simp add: wf_symtab_def)
  obtain r1 scs1 nm1 where r1: "resolve_upvalue_in n (f # rest) (st_all st) = (r1, scs1, nm1)"
    by (metis prod_cases3)
  have k: "case f # rest of [] \<Rightarrow> True | g # _ \<Rightarrow> sc_kind g = FunctionScope" using sp(2) by simp
  note in_ok = wf_resolve_upvalue_in[OF wf_scopes_suffix[OF w list.discI[OF refl]] k r1]
  have st': "st' = st\<lparr>st_scopes := bs @ scs1, st_all := nm1\<rparr>" "r = r1"
    using eq unfolding resolve_upvalue_def sp(4,5) by (simp_all add: r1)
  have g: "chain_grows (f # rest) scs1" and ws: "wf_scopes scs1" using in_ok by blast+
  obtain f1 rest1 where scs1: "scs1 = f1 # rest1" "sc_kind f1 = FunctionScope"
    using g sp(2) by (cases scs1) (auto simp: scope_grows_def chain_grows_def)
  have wf': "wf_symtab st'"
    unfolding wf_symtab_def using wf_scopes_replace_suffix[OF w _ g ws] by (simp add: st')
  have nf: "\<forall>sc\<in>set bs. not_function sc" using sp(3) by auto
  have cur: "current_function_scope st' = Some f1"
    unfolding current_function_scope_dropWhile using nf scs1
    by (simp add: st' dropWhile_append2)
  have lim: "slot_limit (st_scopes st') = Some (sc_slots f1)"
    using nf scs1 by (simp add: st' slot_limit_dropWhile dropWhile_append2)
  have res: "resolved_ok n s st' \<and> sym_scope s \<noteq> Local" if "r = Some s" for s
  proof (cases "sym_scope s = Global")
    case True
    then show ?thesis by (simp add: resolved_ok_def)
  next
    case False
    then have "symbol_ok (Some (sc_slots f1)) f1 n s" "sym_scope s = UpvalueSym"
      using in_ok that st'(2) scs1 by auto
    then show ?thesis using symbol_ok_resolved[of st' f1 n s] lim cur by simp
  qed
  have again: "resolve n st' = (r, st')" if none: "resolve_local n st = None"
  proof (cases "\<forall>s. r = Some s \<longrightarrow> sym_scope s = Global")
    case True
    then have "st' = st" using in_ok st' sp(1) by simp
    then show ?thesis using eq none by (simp add: resolve_def)
  next
    case False
    then obtain s where s: "r = Some s" "sc_symbols f1 n = Some s"
      using in_ok st'(2) scs1 by auto
    have "find_in n bs = None" using none sp(1,3)
      by (auto simp: resolve_local_def resolve_local_blocks split: option.splits prod.splits)
    then have "resolve_local n st' = Some s"
      using s(2) sp(3) by (simp add: resolve_local_def resolve_local_blocks st' scs1)
    then show ?thesis using s(1) by (simp add: resolve_def)
  qed
  have "chain_grows (st_scopes st) (st_scopes st')"
    unfolding sp(1) st' using chain_grows_append[OF g] by simp
  then show ?thesis using wf' res again by blast
qed

lemma resolve_ok:
  assumes wf: "wf_symtab st" and eq: "resolve n st = (r, st')"
  shows "wf_symtab st' \<and> chain_grows (st_scopes st) (st_scopes st') \<and>
    (\<forall>s. r = Some s \<longrightarrow> resolved_ok n s st') \<and> resolve n st' = (r, st')"
proof (cases "resolve_local n st")
  case None
  then show ?thesis using resolve_upvalue_ok[OF wf, of n r st'] eq by (simp add: resolve_def)
next
  case (Some s)
  then have "r = Some s" "st' = st" using eq by (simp_all add: resolve_def)
  moreover obtain sc where "symbol_ok (slot_limit (st_scopes st)) sc n s"
    "sc_kind sc = FunctionScope \<longrightarrow> Some sc = current_function_scope st"
    using resolve_local_ok[of "st_scopes st" n s] wf Some
    unfolding current_function_scope_dropWhile resolve_local_def wf_symtab_def by blast
  ultimately show ?thesis using wf Some symbol_ok_resolved[of st sc n s] by (simp add: resolve_def)
qed

lemma define_scopes_resolve:
  assumes wf: "wf_symtab st" and fn: "in_function st"
  shows "resolve_local n (sym_define n b st) =
      Some \<lparr>sym_name = n, sym_scope = Local, sym_index = Some (frame_size st), sym_is_function = b\<rparr>"
    and "m \<noteq> n \<Longrightarrow> resolve_local m (sym_define n b st) = resolve_local m st"
    and "frame_size (sym_define n b st) = Suc (frame_size st)"
proof -
  obtain bs f rest where sp: "st_scopes st = bs @ f # rest" "sc_kind f = FunctionScope"
    "\<forall>sc\<in>set bs. sc_kind sc = BlockScope" "takeWhile not_function (st_scopes st) = bs"
    "dropWhile not_function (st_scopes st) = f # rest" "rest \<noteq> []"
    by (rule wf_in_function_split[OF wf fn])
  obtain i where fi: "func_index (st_scopes st) = Some i" using fn by (auto simp: in_function_def)
  have len: "i = length bs" using func_index_split[OF fi] sp(4) by (metis length_take min.absorb4)
  define sy where "sy = \<lparr>sym_name = n, sym_scope = Local, sym_index = Some (sc_slots f), sym_is_function = b\<rparr>"
  have fs: "frame_size st = sc_slots f"
    unfolding frame_size_def current_function_scope_dropWhile sp(5) by simp
  have d: "define_scopes n b (st_scopes st) =
     (case bs of [] \<Rightarrow> take_slot n (scope_define n sy f) # rest
      | sc # bs' \<Rightarrow> scope_define n sy sc # bs' @ take_slot n f # rest)"
    using sp(1,2,3) len fi
    by (cases bs) (auto simp: define_scopes_def sy_def Let_def nth_append simp del: func_index.simps)
  have s1: "st_scopes (sym_define n b st) = define_scopes n b (st_scopes st)" by (simp add: sym_define_def)
  show "resolve_local n (sym_define n b st) =
      Some \<lparr>sym_name = n, sym_scope = Local, sym_index = Some (frame_size st), sym_is_function = b\<rparr>"
    unfolding resolve_local_def s1 d fs by (cases bs) (simp_all add: sy_def)
  show "resolve_local m (sym_define n b st) = resolve_local m st" if "m \<noteq> n"
    unfolding resolve_local_def s1[unfolded d] sp(1) using that sp(2,3)
    by (cases bs) (auto simp: resolve_local_blocks split: option.split)
  have "dropWhile not_function (define_scopes n b (st_scopes st)) \<noteq> [] \<and>
     sc_slots (hd (dropWhile not_function (define_scopes n b (st_scopes st)))) = Suc (sc_slots f)"
    unfolding d using sp(2,3) by (cases bs) (simp_all add: dropWhile_append2)
  then show "frame_size (sym_define n b st) = Suc (frame_size st)"
    unfolding frame_size_def current_function_scope_dropWhile s1
    using fs[unfolded frame_size_def current_function_scope_dropWhile]
    by (cases "dropWhile not_function (define_scopes n b (st_scopes st))") simp_all
qed

section \<open>The interface the compiler uses\<close>

text \<open>A table of lexical scopes: what the compiler relies on when it declares and looks up names
  inside a function. \<open>frame\<close> is the number of slots of the innermost function.\<close>

locale scope_table =
  fixes inv :: "'t \<Rightarrow> bool" and inside :: "'t \<Rightarrow> bool" and frame :: "'t \<Rightarrow> nat"
    and declare_name :: "pystr \<Rightarrow> bool \<Rightarrow> 't \<Rightarrow> 't"
    and lookup :: "pystr \<Rightarrow> 't \<Rightarrow> symbol option \<times> 't"
  assumes declare_inv: "inv t \<Longrightarrow> inv (declare_name n b t)"
    and declare_inside: "inside (declare_name n b t) = inside t"
    and declare_frame: "inv t \<Longrightarrow> inside t \<Longrightarrow> frame (declare_name n b t) = Suc (frame t)"
    and lookup_inv: "inv t \<Longrightarrow> lookup n t = (r, t') \<Longrightarrow> inv t' \<and> inside t' = inside t \<and> frame t \<le> frame t'"
    and lookup_again: "inv t \<Longrightarrow> lookup n t = (r, t') \<Longrightarrow> lookup n t' = (r, t')"
    and lookup_declared: "inv t \<Longrightarrow> inside t \<Longrightarrow>
      \<exists>s. lookup n (declare_name n b t) = (Some s, declare_name n b t) \<and>
          sym_scope s = Local \<and> sym_index s = Some (frame t)"
    and lookup_other: "inv t \<Longrightarrow> inside t \<Longrightarrow> m \<noteq> n \<Longrightarrow> lookup m t = (Some s, t) \<Longrightarrow> sym_scope s = Local \<Longrightarrow>
      lookup m (declare_name n b t) = (Some s, declare_name n b t)"
begin

abbreviation declare_all :: "pystr list \<Rightarrow> 't \<Rightarrow> 't" where
  "declare_all ns t \<equiv> fold (\<lambda>n. declare_name n False) ns t"

lemma declare_all_state:
  "inv t \<Longrightarrow> inside t \<Longrightarrow>
   inv (declare_all ns t) \<and> inside (declare_all ns t) \<and> frame (declare_all ns t) = frame t + length ns"
  by (induction ns arbitrary: t) (simp_all add: declare_inv declare_inside declare_frame)

lemma declare_all_keeps:
  "inv t \<Longrightarrow> inside t \<Longrightarrow> m \<notin> set ns \<Longrightarrow> lookup m t = (Some s, t) \<Longrightarrow> sym_scope s = Local \<Longrightarrow>
   lookup m (declare_all ns t) = (Some s, declare_all ns t)"
  by (induction ns arbitrary: t) (simp_all add: declare_inv declare_inside lookup_other)

text \<open>Names declared in sequence get consecutive slots, and keep them.\<close>

lemma declare_all_slots:
  assumes "inv t" and "inside t" and "distinct ns" and "i < length ns"
  shows "\<exists>s. lookup (ns ! i) (declare_all ns t) = (Some s, declare_all ns t) \<and>
    sym_scope s = Local \<and> sym_index s = Some (frame t + i)"
proof -
  have ns: "ns = take i ns @ ns ! i # drop (Suc i) ns" using assms(4) by (simp add: id_take_nth_drop)
  define u where "u = declare_all (take i ns) t"
  have u: "inv u" "inside u" "frame u = frame t + i"
    using declare_all_state[OF assms(1,2), of "take i ns"] assms(4) by (simp_all add: u_def)
  obtain s where s: "lookup (ns ! i) (declare_name (ns ! i) False u) = (Some s, declare_name (ns ! i) False u)"
    "sym_scope s = Local" "sym_index s = Some (frame u)"
    using lookup_declared[OF u(1,2)] by blast
  have d: "declare_all ns t = declare_all (drop (Suc i) ns) (declare_name (ns ! i) False u)"
    by (subst ns) (simp add: u_def)
  have "ns ! i \<notin> set (drop (Suc i) ns)" using assms(3) ns
    by (metis distinct.simps(2) distinct_append)
  from declare_all_keeps[OF declare_inv[OF u(1)] _ this s(1,2)] show ?thesis
    using s u(2,3) d by (auto simp: declare_inside)
qed

end

lemma sym_define_in_function: "in_function (sym_define n b st) = in_function st"
proof -
  have kinds: "map sc_kind (define_scopes n b scs) = map sc_kind scs" for scs
    by (cases scs) (auto simp: define_scopes_def Let_def map_update nth_Cons' list_update_same_conv
        split: option.splits nat.splits dest: func_index_split)
  have idx: "map sc_kind as = map sc_kind bs \<Longrightarrow> func_index as = func_index bs" for as bs
    by (induction as bs rule: list_induct2') simp_all
  show ?thesis using idx[OF kinds[of "st_scopes st"]] by (simp add: in_function_def sym_define_def)
qed

interpretation nodus_scopes: scope_table wf_symtab in_function frame_size sym_define resolve
proof
  fix st st' :: symtab and n m :: pystr and b r s
  assume wf: "wf_symtab st"
  show "wf_symtab (sym_define n b st)" using wf by (rule wf_sym_define)
  show "resolve n st' = (r, st')" if "resolve n st = (r, st')"
    using resolve_ok[OF wf that] by blast
  show "wf_symtab st' \<and> in_function st' = in_function st \<and> frame_size st \<le> frame_size st'"
    if "resolve n st = (r, st')"
    using resolve_ok[OF wf that] chain_grows_function by blast
  assume fn: "in_function st"
  show "frame_size (sym_define n b st) = Suc (frame_size st)"
    using define_scopes_resolve(3)[OF wf fn] .
  show "\<exists>s. resolve n (sym_define n b st) = (Some s, sym_define n b st) \<and>
      sym_scope s = Local \<and> sym_index s = Some (frame_size st)"
    using define_scopes_resolve(1)[OF wf fn] by (simp add: resolve_def)
  show "resolve m (sym_define n b st) = (Some s, sym_define n b st)"
    if "m \<noteq> n" "resolve m st = (Some s, st)" "sym_scope s = Local"
  proof -
    have "resolve_local m st = Some s"
    proof (cases "resolve_local m st")
      case None
      then have "resolve_upvalue m st = (Some s, st)" using that(2) by (simp add: resolve_def)
      then show ?thesis using resolve_upvalue_ok[OF wf] that(3) by blast
    qed (use that(2) in \<open>simp add: resolve_def\<close>)
    then show ?thesis using define_scopes_resolve(2)[OF wf fn that(1)] by (simp add: resolve_def)
  qed
qed (rule sym_define_in_function)

section \<open>Reachable tables\<close>

inductive symtab_reach :: "symtab \<Rightarrow> bool" where
  start: "symtab_reach new_symtab"
| enter: "symtab_reach st \<Longrightarrow> k \<noteq> ModuleScope \<Longrightarrow> symtab_reach (enter_scope k st)"
| exit: "symtab_reach st \<Longrightarrow> symtab_reach (exit_scope st)"
| decl: "symtab_reach st \<Longrightarrow> symtab_reach (sym_define n b st)"
| res: "symtab_reach st \<Longrightarrow> resolve n st = (r, st') \<Longrightarrow> symtab_reach st'"

lemma symtab_reach_wf: "symtab_reach st \<Longrightarrow> wf_symtab st"
proof (induction rule: symtab_reach.induct)
  case (res st n r st')
  then show ?case using resolve_ok by blast
qed (simp_all add: wf_enter_scope wf_exit_scope wf_sym_define)

section \<open>Properties\<close>

text \<open>
  C23: for every table the compiler can build by entering and leaving scopes, declaring and
  resolving names, a name that resolves to a local inside a function has a slot of that function's
  frame, and a name that resolves to an upvalue has an index into the function's upvalue list whose
  entry is for that name. These are the assertions the compiler guards with its internal errors.
\<close>

theorem symtab_resolve_in_range:
  assumes "symtab_reach st" and "resolve n st = (Some s, st')"
  shows "(sym_scope s = Local \<and> in_function st' \<longrightarrow> (\<exists>i < frame_size st'. sym_index s = Some i)) \<and>
    (sym_scope s = UpvalueSym \<longrightarrow> in_function st' \<and>
       (\<exists>i < length (current_function_upvalues st').
          sym_index s = Some i \<and> up_name (current_function_upvalues st' ! i) = n))"
  using resolve_ok[OF symtab_reach_wf[OF assms(1)] assms(2)]
  by (auto simp: resolved_ok_def split: sym_kind.splits)

text \<open>The table inside \<^verbatim>\<open>fn f(x) { fn g() { x } }\<close>, where \<open>x\<close> is captured.\<close>

definition nested_example :: symtab where
  "nested_example = enter_scope FunctionScope (sym_define (py ''x'') False
     (enter_scope FunctionScope (sym_define (py ''f'') True new_symtab)))"

lemma nested_example_reach: "symtab_reach nested_example"
  unfolding nested_example_def by (intro symtab_reach.intros) simp_all

lemma nested_example_resolve:
  "fst (resolve (py ''x'') nested_example) =
     Some \<lparr>sym_name = py ''x'', sym_scope = UpvalueSym, sym_index = Some 0, sym_is_function = False\<rparr>"
  by (simp add: nested_example_def resolve_def resolve_local_def resolve_upvalue_def enter_scope_def
      sym_define_def new_symtab_def new_scope_def define_scopes_def scope_define_def take_slot_def
      resolve_upvalue_in.simps add_upvalue_def new_upvalue_def Let_def)

definition nested_resolved :: symtab where
  "nested_resolved = snd (resolve (py ''x'') nested_example)"

lemma nested_resolved_reach: "symtab_reach nested_resolved"
  unfolding nested_resolved_def
  by (rule symtab_reach.res[OF nested_example_reach]) (rule surjective_pairing)

lemma nested_resolved_upvalues:
  "in_function nested_resolved \<and> current_function_upvalues nested_resolved =
     [\<lparr>up_name = py ''x'', up_is_local = True, up_index = Some 0\<rparr>]"
  by (simp add: nested_resolved_def nested_example_def resolve_def resolve_local_def resolve_upvalue_def
      enter_scope_def sym_define_def new_symtab_def new_scope_def define_scopes_def scope_define_def
      take_slot_def resolve_upvalue_in.simps add_upvalue_def new_upvalue_def Let_def in_function_def
      current_function_upvalues_def current_function_scope_def)

theorem symtab_resolve_in_range_witness:
  "length (current_function_upvalues (snd (resolve (py ''x'') nested_example))) > 0"
  using symtab_resolve_in_range[OF nested_example_reach, of "py ''x''"] nested_example_resolve
  by (cases "resolve (py ''x'') nested_example") fastforce

text \<open>
  Resolving a name is idempotent: doing it again in the resulting table gives the same symbol
  and changes nothing, so a captured variable is registered as an upvalue once.
\<close>

theorem symtab_resolve_idempotent:
  assumes "symtab_reach st" and "resolve n st = (r, st')"
  shows "resolve n st' = (r, st')"
  by (rule nodus_scopes.lookup_again[OF symtab_reach_wf[OF assms(1)] assms(2)])

text \<open>
  C24: every capture descriptor of the innermost function refers to the enclosing function: a
  captured local is a slot of its frame, a captured upvalue an entry of its upvalue list. This is
  what lets \<^verbatim>\<open>MAKE_CLOSURE\<close> build the cells of a closure from the running frame.
\<close>

theorem symtab_upvalues_of_encloser:
  assumes "symtab_reach st" and "in_function st" and "u \<in> set (current_function_upvalues st)"
  shows "\<exists>inner f outer enc i. st_scopes st = inner @ f # outer \<and> current_function_scope st = Some f \<and>
     current_function_scope (st\<lparr>st_scopes := outer\<rparr>) = Some enc \<and> up_index u = Some i \<and>
     (if up_is_local u then i < sc_slots enc else i < length (sc_upvalues enc))"
proof -
  have wf: "wf_symtab st" using assms(1) by (rule symtab_reach_wf)
  obtain bs f rest where sp: "st_scopes st = bs @ f # rest" "sc_kind f = FunctionScope"
    "\<forall>sc\<in>set bs. sc_kind sc = BlockScope" "takeWhile not_function (st_scopes st) = bs"
    "dropWhile not_function (st_scopes st) = f # rest" "rest \<noteq> []"
    by (rule wf_in_function_split[OF wf assms(2)])
  have cur: "current_function_scope st = Some f" unfolding current_function_scope_dropWhile sp(5) by simp
  have "wf_scopes (f # rest)" using wf_scopes_suffix[of bs "f # rest"] wf sp(1) by (simp add: wf_symtab_def)
  then have "upvalue_ok rest u" using sp(2) assms(3) cur
    by (simp add: current_function_upvalues_def list_all_iff)
  then obtain enc os i where e: "dropWhile not_function rest = enc # os" and u: "up_index u = Some i"
      "if up_is_local u then i < sc_slots enc else i < length (sc_upvalues enc)"
    by (auto simp: upvalue_ok_def simp del: dropWhile_eq_Nil_conv split: list.splits)
  have "current_function_scope (st\<lparr>st_scopes := rest\<rparr>) = Some enc"
    by (simp add: current_function_scope_dropWhile e)
  with sp(1) cur u show ?thesis by blast
qed

theorem symtab_upvalues_of_encloser_witness:
  "\<exists>u. u \<in> set (current_function_upvalues nested_resolved) \<and> up_index u \<noteq> None"
  using symtab_upvalues_of_encloser[OF nested_resolved_reach] nested_resolved_upvalues
  by fastforce

text \<open>
  C25: parameters declared one after the other in a fresh function scope get the slots 0, 1, 2, ...
  in order, and keep them: this is how the caller's argument order and the frame agree.
\<close>

theorem symtab_parameter_slots:
  assumes "symtab_reach st" and "distinct ps" and "i < length ps"
    and "st' = fold (\<lambda>p. sym_define p False) ps (enter_scope FunctionScope st)"
  shows "frame_size st' = length ps \<and>
    (\<exists>s. resolve (ps ! i) st' = (Some s, st') \<and> sym_scope s = Local \<and> sym_index s = Some i)"
proof -
  let ?t = "enter_scope FunctionScope st"
  have t: "wf_symtab ?t" "in_function ?t" "frame_size ?t = 0"
    using wf_enter_scope[OF symtab_reach_wf[OF assms(1)], of FunctionScope]
    by (simp_all add: enter_scope_def in_function_def frame_size_def current_function_scope_def new_scope_def)
  show ?thesis
    using nodus_scopes.declare_all_state[OF t(1,2), of ps] nodus_scopes.declare_all_slots[OF t(1,2) assms(2,3)]
      t(3) assms(4) by simp
qed

theorem symtab_parameter_slots_witness:
  "frame_size (fold (\<lambda>p. sym_define p False) [py ''a'', py ''b''] (enter_scope FunctionScope new_symtab)) = 2"
  using symtab_parameter_slots[OF start, of "[py ''a'', py ''b'']" 0] by (simp add: pystr_simps)

end
