(* ===== verification/Bytecode.thy ===== *)
theory Bytecode
  imports Py_Float Symbol_Table
begin

text \<open>
  Instructions, function descriptors and the bytecode envelope of
  \<^verbatim>\<open>src/nodus/compiler/compiler.py\<close>. An instruction tuple is a constructor named like its
  opcode; a jump operand is an option because the compiler emits \<^verbatim>\<open>None\<close> and patches it later.
  \<^verbatim>\<open>SETUP_TRY\<close> has one operand or two: the second is \<open>None\<close> when the tuple has only the
  handler address.
\<close>

datatype const = CNil | CBool bool | CInt int | CFloat pyfloat | CStr pystr

datatype instr =
    PUSH_CONST const | FRAME_SIZE nat | LOAD pystr | LOAD_LOCAL_IDX nat | LOAD_UPVALUE "nat option"
  | STORE pystr | STORE_LOCAL_IDX nat | RESET_LOCAL_IDX nat | STORE_UPVALUE "nat option"
  | STORE_ARG pystr | POP | ADD | SUB | MUL | DIV | MOD | EQ | NE | LT | GT | LE | GE
  | JUMP "nat option" | JUMP_IF_FALSE "nat option" | JUMP_IF_TRUE "nat option"
  | GET_ITER | ITER_NEXT "nat option" | SETUP_TRY "nat option" "nat option option" | POP_TRY
  | FINALLY_END | TO_BOOL | NOT | NEG | BUILD_LIST nat | BUILD_MAP nat | BUILD_RECORD nat
  | BUILD_MODULE nat | INDEX | INDEX_SET | LOAD_FIELD pystr | STORE_FIELD pystr
  | CALL pystr nat | CALL_VALUE nat | MAKE_CLOSURE pystr | CALL_METHOD pystr nat
  | THROW | YIELD | RETURN | HALT

type_synonym loc = "pystr option \<times> (nat \<times> nat) option"

record function_info =
  fi_name :: pystr
  fi_params :: "pystr list"
  fi_addr :: nat
  fi_upvalues :: "upvalue list"
  fi_display_name :: pystr
  fi_local_slots :: "pystr \<rightharpoonup> nat"
  fi_step_owner :: "pystr option"
  fi_param_types :: "pystr option list"
  fi_return_type :: "pystr option"

section \<open>The envelope\<close>

definition BYTECODE_VERSION :: int where
  "BYTECODE_VERSION = 4"

text \<open>The dict that wraps a unit of bytecode; the version and the instructions of a dict read from
  elsewhere may be missing. \<open>'o\<close> stands for the Python objects the wrapper only carries along.\<close>

record 'o bc_dict =
  bc_version :: "int option"
  bc_module_name :: "pystr option"
  bc_instructions :: "instr list option"
  bc_constants :: "'o list"
  bc_exports :: "pystr list"
  bc_metadata :: "(pystr \<times> 'o) list"

datatype 'o bytecode_object = BcDict "'o bc_dict" | BcList "instr list" | BcOther

datatype version_error = UnsupportedVersion "int option" | MissingInstructions | ExpectedListOrDict

definition wrap_bytecode :: "instr list \<Rightarrow> pystr option \<Rightarrow> pystr list option \<Rightarrow> 'o list option \<Rightarrow>
    (pystr \<times> 'o) list option \<Rightarrow> 'o bc_dict" where
  "wrap_bytecode instructions module_name exports constants metadata =
     \<lparr>bc_version = Some BYTECODE_VERSION, bc_module_name = module_name,
      bc_instructions = Some instructions,
      bc_constants = (case constants of None \<Rightarrow> [] | Some c \<Rightarrow> c),
      bc_exports = (case exports of None \<Rightarrow> [] | Some e \<Rightarrow> e),
      bc_metadata = (case metadata of None \<Rightarrow> [] | Some d \<Rightarrow> d)\<rparr>"

fun normalize_bytecode :: "'o bytecode_object \<Rightarrow> version_error + int \<times> instr list" where
  "normalize_bytecode (BcDict d) =
     (if bc_version d \<noteq> Some BYTECODE_VERSION then Inl (UnsupportedVersion (bc_version d))
      else case bc_instructions d of
          None \<Rightarrow> Inl MissingInstructions
        | Some is \<Rightarrow> Inr (BYTECODE_VERSION, is))"
| "normalize_bytecode (BcList is) = Inr (BYTECODE_VERSION, is)"
| "normalize_bytecode BcOther = Inl ExpectedListOrDict"

lemma normalize_wrap_bytecode:
  "normalize_bytecode (BcDict (wrap_bytecode is mn ex co md)) = Inr (BYTECODE_VERSION, is)"
  by (simp add: wrap_bytecode_def)

section \<open>Jump operands\<close>

text \<open>The addresses an instruction may transfer control to besides the next one.\<close>

fun targets :: "instr \<Rightarrow> nat option list" where
  "targets (JUMP t) = [t]"
| "targets (JUMP_IF_FALSE t) = [t]"
| "targets (JUMP_IF_TRUE t) = [t]"
| "targets (ITER_NEXT t) = [t]"
| "targets (SETUP_TRY h f) = h # (case f of None \<Rightarrow> [] | Some x \<Rightarrow> [x])"
| "targets _ = []"

definition unpatched :: "instr \<Rightarrow> bool" where
  "unpatched i \<longleftrightarrow> None \<in> set (targets i)"

definition targets_below :: "nat \<Rightarrow> instr \<Rightarrow> bool" where
  "targets_below n i \<longleftrightarrow> (\<forall>t. Some t \<in> set (targets i) \<longrightarrow> t \<le> n)"

end
