(* ===== verification/Optimizer.thy ===== *)
theory Optimizer
  imports Py_Num Bytecode "HOL-Library.List_Lexorder"
begin

text \<open>
  The bytecode optimizer, \<^verbatim>\<open>src/nodus/compiler/optimizer.py\<close>: constant folding, removal of useless
  pushes, jump threading and removal of unreachable code, repeated until nothing changes. A Python
  exception that a pass lets escape is a value of \<open>opt_err\<close>.

  \<^verbatim>\<open>canonicalize_constants\<close> compares objects by identity; equal constants are the same value here,
  so its flag only reports a change of value. An iteration more or less with the same code changes
  nothing, because the other passes are functions of the code.
\<close>

datatype opt_err = KeyErr "nat option" | OptIndexErr | OptTypeErr

type_synonym fn_table = "(pystr \<times> function_info) list"

section \<open>Python's operators on constants\<close>

fun num_of :: "const \<Rightarrow> pynum option" where
  "num_of (CInt i) = Some (NInt i)"
| "num_of (CBool b) = Some (NInt (if b then 1 else 0))"
| "num_of (CFloat f) = Some (NFloat f)"
| "num_of _ = None"

fun const_of_num :: "pynum \<Rightarrow> const" where
  "const_of_num (NInt i) = CInt i"
| "const_of_num (NFloat f) = CFloat f"

text \<open>\<^verbatim>\<open>_to_num\<close> strips booleans before arithmetic.\<close>

fun to_num :: "const \<Rightarrow> const" where
  "to_num (CBool b) = CInt (if b then 1 else 0)"
| "to_num c = c"

definition py_arith :: "(pynum \<Rightarrow> pynum \<Rightarrow> pynum option) \<Rightarrow> const \<Rightarrow> const \<Rightarrow> const option" where
  "py_arith f a b = (case (num_of a, num_of b) of
      (Some x, Some y) \<Rightarrow> map_option const_of_num (f x y)
    | _ \<Rightarrow> None)"

definition repeat_str :: "pystr \<Rightarrow> int \<Rightarrow> pystr" where
  "repeat_str s n = concat (replicate (nat n) s)"

definition py_add :: "const \<Rightarrow> const \<Rightarrow> const option" where
  "py_add a b = (case (a, b) of
      (CStr s, CStr t) \<Rightarrow> Some (CStr (s @ t))
    | _ \<Rightarrow> py_arith (arith (+) float_add) a b)"

definition py_mul :: "const \<Rightarrow> const \<Rightarrow> const option" where
  "py_mul a b = (case (a, b) of
      (CStr s, CInt n) \<Rightarrow> Some (CStr (repeat_str s n))
    | (CInt n, CStr s) \<Rightarrow> Some (CStr (repeat_str s n))
    | _ \<Rightarrow> py_arith (arith (*) float_mul) a b)"

definition py_eq :: "const \<Rightarrow> const \<Rightarrow> bool" where
  "py_eq a b = (case (num_of a, num_of b) of
      (Some x, Some y) \<Rightarrow> num_cmp x y = Some 0
    | (None, None) \<Rightarrow> a = b
    | _ \<Rightarrow> False)"

definition py_order :: "(int \<Rightarrow> bool) \<Rightarrow> const \<Rightarrow> const \<Rightarrow> const option" where
  "py_order test a b = (case (a, b) of
      (CStr s, CStr t) \<Rightarrow> Some (CBool (test (if s < t then - 1 else if s = t then 0 else 1)))
    | _ \<Rightarrow> (case (num_of a, num_of b) of
          (Some x, Some y) \<Rightarrow>
            Some (CBool (case num_cmp x y of None \<Rightarrow> False | Some c \<Rightarrow> test c))
        | _ \<Rightarrow> None))"

fun py_truth :: "const \<Rightarrow> bool" where
  "py_truth CNil = False"
| "py_truth (CBool b) = b"
| "py_truth (CInt i) = (i \<noteq> 0)"
| "py_truth (CFloat f) = (\<not> float_is_zero f)"
| "py_truth (CStr s) = (s \<noteq> [])"

section \<open>Folding tables\<close>

text \<open>\<^verbatim>\<open>PURE_BINARY_OPS\<close> and \<^verbatim>\<open>PURE_UNARY_OPS\<close>: the outer option says whether the opcode is in the
  table, the inner one whether the operation raises.\<close>

definition PURE_BINARY_OPS :: "instr \<Rightarrow> (const \<Rightarrow> const \<Rightarrow> const option) option" where
  "PURE_BINARY_OPS i = (case i of
      ADD \<Rightarrow> Some (\<lambda>a b. py_add (to_num a) (to_num b))
    | SUB \<Rightarrow> Some (\<lambda>a b. py_arith (arith (-) float_sub) (to_num a) (to_num b))
    | MUL \<Rightarrow> Some (\<lambda>a b. py_mul (to_num a) (to_num b))
    | DIV \<Rightarrow> Some (\<lambda>a b. py_arith num_truediv (to_num a) (to_num b))
    | EQ \<Rightarrow> Some (\<lambda>a b. Some (CBool (py_eq a b)))
    | NE \<Rightarrow> Some (\<lambda>a b. Some (CBool (\<not> py_eq a b)))
    | LT \<Rightarrow> Some (py_order (\<lambda>c. c < 0))
    | GT \<Rightarrow> Some (py_order (\<lambda>c. c > 0))
    | LE \<Rightarrow> Some (py_order (\<lambda>c. c \<le> 0))
    | GE \<Rightarrow> Some (py_order (\<lambda>c. c \<ge> 0))
    | _ \<Rightarrow> None)"

definition PURE_UNARY_OPS :: "instr \<Rightarrow> (const \<Rightarrow> const option) option" where
  "PURE_UNARY_OPS i = (case i of
      NEG \<Rightarrow> Some (\<lambda>v. case to_num v of
          CInt n \<Rightarrow> Some (CInt (- n)) | CFloat f \<Rightarrow> Some (CFloat (float_neg f)) | _ \<Rightarrow> None)
    | instr.NOT \<Rightarrow> Some (\<lambda>v. Some (CBool (\<not> py_truth v)))
    | TO_BOOL \<Rightarrow> Some (\<lambda>v. Some (CBool (py_truth v)))
    | _ \<Rightarrow> None)"

text \<open>\<open>instr[1]\<close> of an opcode in \<^verbatim>\<open>TARGETED_OPS\<close>, and the instruction with that operand replaced.\<close>

fun first_target :: "instr \<Rightarrow> nat option option" where
  "first_target (JUMP t) = Some t"
| "first_target (JUMP_IF_FALSE t) = Some t"
| "first_target (JUMP_IF_TRUE t) = Some t"
| "first_target (ITER_NEXT t) = Some t"
| "first_target (SETUP_TRY t f) = Some t"
| "first_target _ = None"

fun with_target :: "instr \<Rightarrow> nat \<Rightarrow> instr" where
  "with_target (JUMP t) a = JUMP (Some a)"
| "with_target (JUMP_IF_FALSE t) a = JUMP_IF_FALSE (Some a)"
| "with_target (JUMP_IF_TRUE t) a = JUMP_IF_TRUE (Some a)"
| "with_target (ITER_NEXT t) a = ITER_NEXT (Some a)"
| "with_target (SETUP_TRY t f) a = SETUP_TRY (Some a) f"
| "with_target i a = i"

definition is_terminator :: "instr \<Rightarrow> bool" where
  "is_terminator i \<longleftrightarrow> i = RETURN \<or> i = THROW \<or> i = HALT"

definition collect_jump_targets :: "instr list \<Rightarrow> nat option set" where
  "collect_jump_targets code = set (List.map_filter first_target code)"

section \<open>Renumbering\<close>

definition remap_instruction :: "(nat \<rightharpoonup> nat) \<Rightarrow> instr \<Rightarrow> opt_err + instr" where
  "remap_instruction mapping i = (case first_target i of
      None \<Rightarrow> Inr i
    | Some None \<Rightarrow> Inl (KeyErr None)
    | Some (Some t) \<Rightarrow> (case mapping t of None \<Rightarrow> Inl (KeyErr (Some t)) | Some a \<Rightarrow> Inr (with_target i a)))"

fun map_err :: "('a \<Rightarrow> 'e + 'b) \<Rightarrow> 'a list \<Rightarrow> 'e + 'b list" where
  "map_err f [] = Inr []"
| "map_err f (x # xs) = bindE (f x) (\<lambda>y. bindE (map_err f xs) (\<lambda>ys. Inr (y # ys)))"

definition rebuild_info :: "function_info \<Rightarrow> nat \<Rightarrow> function_info" where
  "rebuild_info info addr = \<lparr>fi_name = fi_name info, fi_params = fi_params info, fi_addr = addr,
     fi_upvalues = fi_upvalues info, fi_display_name = fi_display_name info,
     fi_local_slots = Map.empty, fi_step_owner = fi_step_owner info, fi_param_types = [],
     fi_return_type = None\<rparr>"

definition remap_functions :: "(nat \<rightharpoonup> nat) \<Rightarrow> fn_table \<Rightarrow> fn_table" where
  "remap_functions mapping fns = List.map_filter (\<lambda>(name, info).
     case mapping (fi_addr info) of None \<Rightarrow> None | Some a \<Rightarrow> Some (name, rebuild_info info a)) fns"

definition remap_compacted :: "instr list \<Rightarrow> fn_table \<Rightarrow> loc list \<Rightarrow> (nat \<rightharpoonup> nat) \<Rightarrow>
    opt_err + instr list \<times> fn_table \<times> loc list" where
  "remap_compacted code fns locs mapping =
     bindE (map_err (remap_instruction mapping) code) (\<lambda>code'. Inr (code', remap_functions mapping fns, locs))"

section \<open>The passes\<close>

text \<open>\<^verbatim>\<open>canonicalize_constants\<close>: equal constants of one type become the first of them. The key of a
  float compares like \<^verbatim>\<open>==\<close>, and a NaN is only equal to itself as an object.\<close>

fun same_key :: "const \<Rightarrow> const \<Rightarrow> bool" where
  "same_key (CFloat f) (CFloat g) = (f = g \<or> float_eq f g)"
| "same_key a b = (a = b)"

fun canonical_loop :: "const list \<Rightarrow> instr list \<Rightarrow> instr list" where
  "canonical_loop cache [] = []"
| "canonical_loop cache (i # is) = (case i of
      PUSH_CONST c \<Rightarrow> (case find (same_key c) cache of
          Some c' \<Rightarrow> PUSH_CONST c' # canonical_loop cache is
        | None \<Rightarrow> PUSH_CONST c # canonical_loop (cache @ [c]) is)
    | _ \<Rightarrow> i # canonical_loop cache is)"

definition canonicalize_constants :: "instr list \<Rightarrow> instr list \<times> bool" where
  "canonicalize_constants code = (let out = canonical_loop [] code in (out, out \<noteq> code))"

record compaction =
  k_code :: "instr list"
  k_locs :: "loc list"
  k_map :: "nat \<rightharpoonup> nat"
  k_changed :: bool

definition keep :: "nat \<Rightarrow> instr \<Rightarrow> loc \<Rightarrow> compaction \<Rightarrow> compaction" where
  "keep i ins l k = k\<lparr>k_map := (k_map k)(i \<mapsto> length (k_code k)), k_code := k_code k @ [ins],
     k_locs := k_locs k @ [l]\<rparr>"

definition loc_at :: "loc list \<Rightarrow> nat \<Rightarrow> opt_err + loc" where
  "loc_at locs i = (if i < length locs then Inr (locs ! i) else Inl OptIndexErr)"

text \<open>The value a fold at index \<open>i\<close> produces and the number of instructions it replaces.\<close>

definition fold_unary :: "instr list \<Rightarrow> nat option set \<Rightarrow> nat \<Rightarrow> const option" where
  "fold_unary code tgts i =
     (if i + 1 < length code \<and> Some (i + 1) \<notin> tgts then
        (case code ! i of
           PUSH_CONST a \<Rightarrow> (case PURE_UNARY_OPS (code ! (i + 1)) of Some f \<Rightarrow> f a | None \<Rightarrow> None)
         | _ \<Rightarrow> None)
      else None)"

definition fold_binary :: "instr list \<Rightarrow> nat option set \<Rightarrow> nat \<Rightarrow> const option" where
  "fold_binary code tgts i =
     (if i + 2 < length code \<and> Some (i + 1) \<notin> tgts \<and> Some (i + 2) \<notin> tgts then
        (case (code ! i, code ! (i + 1)) of
           (PUSH_CONST a, PUSH_CONST b) \<Rightarrow>
             (case PURE_BINARY_OPS (code ! (i + 2)) of Some f \<Rightarrow> f a b | None \<Rightarrow> None)
         | _ \<Rightarrow> None)
      else None)"

function fold_loop :: "instr list \<Rightarrow> loc list \<Rightarrow> nat option set \<Rightarrow> nat \<Rightarrow> compaction \<Rightarrow> opt_err + compaction" where
  "fold_loop code locs tgts i k =
     (if i < length code then
        (case fold_unary code tgts i of
           Some v \<Rightarrow> bindE (loc_at locs (i + 1)) (\<lambda>l.
             fold_loop code locs tgts (i + 2) (keep i (PUSH_CONST v) l k\<lparr>k_changed := True\<rparr>))
         | None \<Rightarrow> (case fold_binary code tgts i of
             Some v \<Rightarrow> bindE (loc_at locs (i + 2)) (\<lambda>l.
               fold_loop code locs tgts (i + 3) (keep i (PUSH_CONST v) l k\<lparr>k_changed := True\<rparr>))
           | None \<Rightarrow> bindE (loc_at locs i) (\<lambda>l.
               fold_loop code locs tgts (i + 1) (keep i (code ! i) l k))))
      else Inr k)"
  by pat_completeness auto
termination
  by (relation "measure (\<lambda>(code, locs, tgts, i, k). length code - i)") auto

declare fold_loop.simps [simp del]

definition empty_compaction :: compaction where
  "empty_compaction = \<lparr>k_code = [], k_locs = [], k_map = Map.empty, k_changed = False\<rparr>"

type_synonym pass_result = "opt_err + instr list \<times> fn_table \<times> loc list \<times> bool"

definition finish_compaction :: "fn_table \<Rightarrow> compaction \<Rightarrow> pass_result" where
  "finish_compaction fns k = bindE (remap_compacted (k_code k) fns (k_locs k) (k_map k))
     (\<lambda>(code, fns', locs). Inr (code, fns', locs, k_changed k))"

definition fold_constants :: "instr list \<Rightarrow> fn_table \<Rightarrow> loc list \<Rightarrow> nat option set \<Rightarrow> pass_result" where
  "fold_constants code fns locs tgts =
     bindE (fold_loop code locs tgts 0 empty_compaction) (finish_compaction fns)"

definition useless_push :: "instr list \<Rightarrow> nat option set \<Rightarrow> nat \<Rightarrow> bool" where
  "useless_push code tgts i \<longleftrightarrow> i + 1 < length code \<and> Some (i + 1) \<notin> tgts \<and>
     (case code ! i of PUSH_CONST c \<Rightarrow> code ! (i + 1) = POP | _ \<Rightarrow> False)"

function useless_loop :: "instr list \<Rightarrow> loc list \<Rightarrow> nat option set \<Rightarrow> nat \<Rightarrow> compaction \<Rightarrow> opt_err + compaction" where
  "useless_loop code locs tgts i k =
     (if i < length code then
        (if useless_push code tgts i
         then useless_loop code locs tgts (i + 2) (k\<lparr>k_changed := True\<rparr>)
         else bindE (loc_at locs i) (\<lambda>l. useless_loop code locs tgts (i + 1) (keep i (code ! i) l k)))
      else Inr k)"
  by pat_completeness auto
termination
  by (relation "measure (\<lambda>(code, locs, tgts, i, k). length code - i)") auto

declare useless_loop.simps [simp del]

definition remove_useless_stack_ops ::
  "instr list \<Rightarrow> fn_table \<Rightarrow> loc list \<Rightarrow> nat option set \<Rightarrow> pass_result" where
  "remove_useless_stack_ops code fns locs tgts =
     bindE (useless_loop code locs tgts 0 empty_compaction) (finish_compaction fns)"

text \<open>\<^verbatim>\<open>resolve_jump_target\<close>: \<open>None\<close> is a jump whose operand is not an address, which Python cannot
  compare.\<close>

function resolve_jump_target :: "instr list \<Rightarrow> nat set \<Rightarrow> nat option \<Rightarrow> opt_err + nat" where
  "resolve_jump_target code seen current = (case current of
      None \<Rightarrow> Inl OptTypeErr
    | Some c \<Rightarrow>
       (if c < length code \<and> c \<notin> seen
        then (case code ! c of
                JUMP t \<Rightarrow> resolve_jump_target code (insert c seen) t
              | _ \<Rightarrow> Inr c)
        else Inr c))"
  by pat_completeness auto
termination
proof (relation "measure (\<lambda>(code, seen, current). card ({..<length code} - seen))", goal_cases)
  case (2 code seen current c t)
  then have "{..<length code} - insert c seen \<subset> {..<length code} - seen" by auto
  then show ?case by (simp add: psubset_card_mono)
qed simp

declare resolve_jump_target.simps [simp del]

function simplify_loop :: "nat \<Rightarrow> instr list \<Rightarrow> bool \<Rightarrow> opt_err + instr list \<times> bool" where
  "simplify_loop i out changed =
     (if i < length out then
        (case first_target (out ! i) of
           None \<Rightarrow> simplify_loop (i + 1) out changed
         | Some t \<Rightarrow> bindE (resolve_jump_target out {} t) (\<lambda>a.
             if Some a = t then simplify_loop (i + 1) out changed
             else simplify_loop (i + 1) (out[i := with_target (out ! i) a]) True))
      else Inr (out, changed))"
  by pat_completeness auto
termination
  by (relation "measure (\<lambda>(i, out, changed). length out - i)") auto

declare simplify_loop.simps [simp del]

definition simplify_jumps :: "instr list \<Rightarrow> opt_err + instr list \<times> bool" where
  "simplify_jumps code = simplify_loop 0 code False"

definition next_ips :: "nat \<Rightarrow> instr \<Rightarrow> nat \<Rightarrow> nat option list" where
  "next_ips ip i code_len = (case i of
      JUMP t \<Rightarrow> [t]
    | _ \<Rightarrow> (case first_target i of
        Some t \<Rightarrow> t # (if ip + 1 < code_len then [Some (ip + 1)] else [])
      | None \<Rightarrow> (if is_terminator i then []
                 else if ip + 1 < code_len then [Some (ip + 1)] else [])))"

text \<open>\<^verbatim>\<open>compute_reachable\<close>: the work list is a stack, its top is the last element; reading outside
  the code raises.\<close>

function reach_loop :: "instr list \<Rightarrow> nat option list \<Rightarrow> nat set \<Rightarrow> opt_err + nat set" where
  "reach_loop code work reachable =
     (if work = [] then Inr reachable
      else case last work of
          None \<Rightarrow> Inl OptTypeErr
        | Some ip \<Rightarrow>
           (if ip \<in> reachable then reach_loop code (butlast work) reachable
            else if ip < length code
            then reach_loop code
                   (butlast work @ filter (\<lambda>t. case t of None \<Rightarrow> True | Some a \<Rightarrow> a \<notin> insert ip reachable)
                      (next_ips ip (code ! ip) (length code)))
                   (insert ip reachable)
            else Inl OptIndexErr))"
  by pat_completeness auto
termination
proof (relation "measures [\<lambda>(code, work, reachable). card ({..<length code} - reachable),
    \<lambda>(code, work, reachable). length work]", goal_cases)
  case (3 code work reachable ip)
  then have "{..<length code} - insert ip reachable \<subset> {..<length code} - reachable" by auto
  then show ?case by (simp add: psubset_card_mono)
qed auto

declare reach_loop.simps [simp del]

definition compute_reachable :: "instr list \<Rightarrow> fn_table \<Rightarrow> opt_err + nat set" where
  "compute_reachable code fns =
     (if code = [] then Inr {}
      else reach_loop code (map Some (filter (\<lambda>r. r < length code)
             (remdups (0 # map (\<lambda>f. fi_addr (snd f)) fns)))) {})"

function filter_loop :: "instr list \<Rightarrow> loc list \<Rightarrow> nat set \<Rightarrow> nat \<Rightarrow> compaction \<Rightarrow> opt_err + compaction" where
  "filter_loop code locs reachable i k =
     (if i < length code then
        (if i \<in> reachable
         then bindE (loc_at locs i) (\<lambda>l. filter_loop code locs reachable (i + 1) (keep i (code ! i) l k))
         else filter_loop code locs reachable (i + 1) k)
      else Inr k)"
  by pat_completeness auto
termination
  by (relation "measure (\<lambda>(code, locs, reachable, i, k). length code - i)") auto

declare filter_loop.simps [simp del]

definition function_addrs :: "fn_table \<Rightarrow> (pystr \<times> nat) list" where
  "function_addrs fns = map (\<lambda>(n, i). (n, fi_addr i)) fns"

definition remove_unreachable :: "instr list \<Rightarrow> fn_table \<Rightarrow> loc list \<Rightarrow> pass_result" where
  "remove_unreachable code fns locs =
     bindE (compute_reachable code fns) (\<lambda>reachable.
     bindE (filter_loop code locs reachable 0 empty_compaction) (\<lambda>k.
     bindE (remap_compacted (k_code k) fns (k_locs k) (k_map k)) (\<lambda>(code', fns', locs').
       Inr (code', fns', locs', code' \<noteq> code \<or> locs' \<noteq> locs \<or> function_addrs fns' \<noteq> function_addrs fns))))"

section \<open>The driver\<close>

definition optimize_once :: "instr list \<Rightarrow> fn_table \<Rightarrow> loc list \<Rightarrow> pass_result" where
  "optimize_once code fns locs =
     (let tgts = collect_jump_targets code;
          (code1, ch1) = canonicalize_constants code
      in bindE (fold_constants code1 fns locs tgts) (\<lambda>(code2, fns2, locs2, ch2).
         let (code3, fns3, locs3) = (if ch2 then (code2, fns2, locs2) else (code1, fns, locs));
             targets3 = (if ch2 then collect_jump_targets code3 else tgts)
         in bindE (remove_useless_stack_ops code3 fns3 locs3 targets3) (\<lambda>(code4, fns4, locs4, ch4).
            let (code5, fns5, locs5) = (if ch4 then (code4, fns4, locs4) else (code3, fns3, locs3))
            in bindE (simplify_jumps code5) (\<lambda>(code6, ch6).
               bindE (remove_unreachable code6 fns5 locs5) (\<lambda>(code7, fns7, locs7, ch7).
                 if ch7 then Inr (code7, fns7, locs7, True)
                 else Inr (code6, fns5, locs5, ch1 \<or> ch2 \<or> ch4 \<or> ch6))))))"

text \<open>The loop, with a bound on its iterations: \<open>None\<close> is running out of it.\<close>

fun optimize_bytecode :: "nat \<Rightarrow> instr list \<Rightarrow> fn_table \<Rightarrow> loc list \<Rightarrow>
    (opt_err + instr list \<times> fn_table \<times> loc list) option" where
  "optimize_bytecode 0 code fns locs = None"
| "optimize_bytecode (Suc n) code fns locs = (case optimize_once code fns locs of
      Inl e \<Rightarrow> Some (Inl e)
    | Inr (code', fns', locs', changed) \<Rightarrow>
        (if changed then optimize_bytecode n code' fns' locs' else Some (Inr (code', fns', locs'))))"

end
