(* ===== verification/Optimizer_Jumps.thy ===== *)
theory Optimizer_Jumps
  imports Optimizer
begin

text \<open>
  The control flow the optimizer works on: chains of unconditional jumps and where
  \<^verbatim>\<open>resolve_jump_target\<close> and \<^verbatim>\<open>simplify_jumps\<close> end them, and the set of reachable addresses that
  \<^verbatim>\<open>compute_reachable\<close> searches.
\<close>

section \<open>Closed code\<close>

definition opt_closed :: "instr list \<Rightarrow> loc list \<Rightarrow> bool" where
  "opt_closed code locs \<longleftrightarrow> length locs = length code \<and>
     (\<forall>i \<in> set code. \<forall>t. first_target i = Some t \<longrightarrow> (\<exists>a < length code. t = Some a))"

lemma opt_closedD:
  "opt_closed code locs \<Longrightarrow> i \<in> set code \<Longrightarrow> first_target i = Some t \<Longrightarrow> \<exists>a < length code. t = Some a"
  by (simp add: opt_closed_def)

lemma opt_closed_target:
  "opt_closed code locs \<Longrightarrow> c < length code \<Longrightarrow> code ! c = JUMP t \<Longrightarrow> \<exists>a < length code. t = Some a"
  by (metis opt_closedD nth_mem first_target.simps(1))

lemma first_target_with_target [simp]:
  "first_target (with_target i a) = (case first_target i of None \<Rightarrow> None | Some t \<Rightarrow> Some (Some a))"
  by (cases i) auto

lemma with_target_same: "first_target i = Some (Some a) \<Longrightarrow> with_target i a = i"
  by (cases i) auto

lemma with_target_twice [simp]: "with_target (with_target i a) b = with_target i b"
  by (cases i) auto

section \<open>Threading jumps\<close>

text \<open>One step of a chain of unconditional jumps.\<close>

definition jump_step :: "instr list \<Rightarrow> nat \<Rightarrow> nat \<Rightarrow> bool" where
  "jump_step code a b \<longleftrightarrow> a < length code \<and> code ! a = JUMP (Some b)"

text \<open>An address jump threading leaves alone: outside the code, not a jump, or on a cycle of jumps.\<close>

definition settled :: "instr list \<Rightarrow> nat \<Rightarrow> bool" where
  "settled code a \<longleftrightarrow> (\<forall>b. jump_step code a b \<longrightarrow> (jump_step code)\<^sup>+\<^sup>+ a a)"

lemma jump_step_det: "jump_step code a b \<Longrightarrow> jump_step code a c \<Longrightarrow> b = c"
  by (simp add: jump_step_def)

lemma resolve_reaches:
  "resolve_jump_target code seen (Some t) = Inr a \<Longrightarrow> (jump_step code)\<^sup>*\<^sup>* t a"
proof (induction code seen "Some t" arbitrary: t rule: resolve_jump_target.induct)
  case (1 code seen)
  show ?case
  proof (cases "t < length code \<and> t \<notin> seen \<and> (\<exists>u. code ! t = JUMP u)")
    case True
    then obtain u where u: "code ! t = JUMP u" by blast
    with True have r: "resolve_jump_target code (insert t seen) u = Inr a"
      using "1.prems" by (simp add: resolve_jump_target.simps[of code seen])
    then obtain b where b: "u = Some b" by (cases u) (simp_all add: resolve_jump_target.simps)
    have "(jump_step code)\<^sup>*\<^sup>* b a" using "1.hyps"[OF refl _ u[unfolded b]] True b r by auto
    moreover have "jump_step code t b" using True u b by (simp add: jump_step_def)
    ultimately show ?thesis by (rule converse_rtranclp_into_rtranclp[rotated])
  next
    case False
    with "1.prems" have "a = t"
      by (auto simp: resolve_jump_target.simps[of code seen] split: if_splits instr.splits)
    then show ?thesis by simp
  qed
qed

text \<open>Every address seen lies on the chain that led to the current one.\<close>

lemma resolve_settled:
  "resolve_jump_target code seen (Some t) = Inr a \<Longrightarrow>
   (\<forall>s \<in> seen. (jump_step code)\<^sup>+\<^sup>+ s t) \<Longrightarrow> settled code a"
proof (induction code seen "Some t" arbitrary: t rule: resolve_jump_target.induct)
  case (1 code seen)
  show ?case
  proof (cases "t < length code \<and> t \<notin> seen \<and> (\<exists>u. code ! t = JUMP u)")
    case True
    then obtain u where u: "code ! t = JUMP u" by blast
    with True have r: "resolve_jump_target code (insert t seen) u = Inr a"
      using "1.prems" by (simp add: resolve_jump_target.simps[of code seen])
    then obtain b where b: "u = Some b" by (cases u) (simp_all add: resolve_jump_target.simps)
    have j: "jump_step code t b" using True u b by (simp add: jump_step_def)
    have "\<forall>s \<in> insert t seen. (jump_step code)\<^sup>+\<^sup>+ s b"
      using "1.prems"(2) j by (auto intro: tranclp.trancl_into_trancl)
    then show ?thesis using "1.hyps"[OF refl _ u[unfolded b]] True b r by auto
  next
    case False
    with "1.prems"(1) have a: "a = t"
      by (auto simp: resolve_jump_target.simps[of code seen] split: if_splits instr.splits)
    with False "1.prems"(2) show ?thesis by (auto simp: settled_def jump_step_def)
  qed
qed

lemma resolve_total:
  "opt_closed code locs \<Longrightarrow> t < length code \<Longrightarrow>
   \<exists>a < length code. resolve_jump_target code seen (Some t) = Inr a"
proof (induction code seen "Some t" arbitrary: t rule: resolve_jump_target.induct)
  case (1 code seen)
  show ?case
  proof (cases "t \<notin> seen \<and> (\<exists>u. code ! t = JUMP u)")
    case True
    then obtain u where u: "code ! t = JUMP u" by blast
    then obtain b where b: "u = Some b" "b < length code"
      using opt_closed_target[OF "1.prems"(1) "1.prems"(2)] by blast
    with "1.hyps"[OF refl _ u[unfolded b(1)]] "1.prems" True u show ?thesis
      by (simp add: resolve_jump_target.simps[of code seen])
  next
    case False
    with "1.prems" show ?thesis
      by (auto simp: resolve_jump_target.simps[of code seen] split: instr.splits)
  qed
qed

text \<open>A settled address is its own end of chain.\<close>

lemma settled_reach_cycle:
  assumes "(jump_step code)\<^sup>+\<^sup>+ a a" and "(jump_step code)\<^sup>*\<^sup>* a b"
  shows "(jump_step code)\<^sup>*\<^sup>* b a"
  using assms(2,1)
proof (induction rule: rtranclp_induct)
  case (step y z)
  then have "(jump_step code)\<^sup>*\<^sup>* y a" by blast
  then show ?case
  proof (cases rule: converse_rtranclpE)
    case base
    with step.prems have "(jump_step code)\<^sup>+\<^sup>+ y a" by simp
    then obtain w where "jump_step code y w" "(jump_step code)\<^sup>*\<^sup>* w a" by (meson tranclpD)
    with step.hyps(2) show ?thesis using jump_step_det by blast
  next
    case (step w)
    with \<open>jump_step code y z\<close> show ?thesis using jump_step_det by blast
  qed
qed simp

definition jump_next :: "instr list \<Rightarrow> nat \<Rightarrow> nat" where
  "jump_next code a = (case code ! a of JUMP (Some b) \<Rightarrow> b | _ \<Rightarrow> a)"

lemma jump_step_next: "jump_step code a b \<Longrightarrow> jump_next code a = b"
  by (simp add: jump_step_def jump_next_def)

lemma relpowp_next: "(jump_step code ^^ n) a b \<Longrightarrow> (jump_next code ^^ n) a = b"
proof (induction n arbitrary: b)
  case (Suc n)
  then obtain c where "(jump_step code ^^ n) a c" "jump_step code c b" by auto
  with Suc.IH show ?case by (auto simp: jump_step_next)
qed simp

lemma cycle_next:
  assumes "(jump_step code)\<^sup>+\<^sup>+ a a"
  shows "jump_step code ((jump_next code ^^ n) a) ((jump_next code ^^ Suc n) a)"
proof -
  have *: "\<exists>c. jump_step code b c" if "(jump_step code)\<^sup>*\<^sup>* a b" for b
    using settled_reach_cycle[OF assms that] assms by (metis converse_rtranclpE tranclpD)
  have "(jump_step code)\<^sup>*\<^sup>* a ((jump_next code ^^ n) a)" for n
  proof (induction n)
    case (Suc n)
    with *[OF Suc] show ?case by (auto simp: jump_step_next intro: rtranclp.rtrancl_into_rtrancl)
  qed simp
  from *[OF this, of n] obtain c where "jump_step code ((jump_next code ^^ n) a) c" by blast
  then show ?thesis by (auto simp: jump_step_next)
qed

lemma resolve_cycle:
  assumes cyc: "(jump_step code)\<^sup>+\<^sup>+ a a"
  shows "resolve_jump_target code {} (Some a) = Inr a"
proof -
  let ?f = "\<lambda>n. (jump_next code ^^ n) a"
  define m where "m = (LEAST m. 0 < m \<and> ?f m = a)"
  have "\<exists>m>0. ?f m = a" using cyc relpowp_next by (auto simp: tranclp_power)
  then have m: "0 < m" "?f m = a" unfolding m_def by (metis (mono_tags, lifting) LeastI_ex)+
  have least: "?f k \<noteq> a" if "0 < k" "k < m" for k
    using that not_less_Least[of k "\<lambda>m. 0 < m \<and> ?f m = a"] unfolding m_def by blast
  have inj: "?f j \<noteq> ?f k" if "j < k" "k < m" for j k
  proof
    assume eq: "?f j = ?f k"
    have "?f (m - k + j) = (jump_next code ^^ (m - k)) (?f k)" by (simp add: funpow_add eq)
    also have "\<dots> = ?f m" using that by (metis add_diff_inverse_nat comp_apply funpow_add less_imp_not_less add.commute)
    finally show False using least[of "m - k + j"] m that by linarith
  qed
  have "resolve_jump_target code (?f ` {..<k}) (Some (?f k)) = Inr a" if "k \<le> m" for k
    using that
  proof (induction "m - k" arbitrary: k)
    case 0
    then have "k = m" by simp
    then have "?f k \<in> ?f ` {..<k}" using m by (auto intro!: image_eqI[of _ _ 0])
    with \<open>k = m\<close> m show ?case by (subst resolve_jump_target.simps) simp
  next
    case (Suc d)
    then have k: "k < m" by simp
    have "?f k \<notin> ?f ` {..<k}"
    proof
      assume "?f k \<in> ?f ` {..<k}"
      then obtain j where "j < k" "?f k = ?f j" by (elim imageE) simp
      with inj[of j k] k show False by simp
    qed
    moreover have "jump_step code (?f k) (?f (Suc k))" by (rule cycle_next[OF cyc])
    moreover have "resolve_jump_target code (?f ` {..<Suc k}) (Some (?f (Suc k))) = Inr a"
      by (rule Suc.hyps(1)) (use Suc k in auto)
    ultimately show ?case
      by (simp add: resolve_jump_target.simps[of code "?f ` {..<k}"] jump_step_def lessThan_Suc)
  qed
  from this[of 0] show ?thesis by simp
qed

text \<open>Redirecting a jump that is not on a cycle leaves the settled addresses settled.\<close>

lemma redirect_settled:
  assumes "settled code x" and closed: "opt_closed code locs" and i: "i < length code" and "\<not> (jump_step code)\<^sup>+\<^sup>+ i i"
  shows "settled (code[i := with_target (code ! i) a]) x"
proof (unfold settled_def, intro allI impI)
  let ?code' = "code[i := with_target (code ! i) a]"
  fix b assume b: "jump_step ?code' x b"
  show "(jump_step ?code')\<^sup>+\<^sup>+ x x"
  proof (cases "\<exists>c. jump_step code x c")
    case True
    with assms(1) have cyc: "(jump_step code)\<^sup>+\<^sup>+ x x" by (auto simp: settled_def)
    have ne: "y \<noteq> i" if "(jump_step code)\<^sup>*\<^sup>* x y" for y
      using settled_reach_cycle[OF cyc that] that cyc assms(4)
      by (metis rtranclp_tranclp_tranclp tranclp_rtranclp_tranclp)
    have keep: "jump_step ?code' y z" if "jump_step code y z" "(jump_step code)\<^sup>*\<^sup>* x y" for y z
      using that ne[OF that(2)] by (simp add: jump_step_def)
    have "(jump_step ?code')\<^sup>+\<^sup>+ x y" if "(jump_step code)\<^sup>+\<^sup>+ x y" for y
      using that
    proof (induction rule: tranclp_induct)
      case (base y) then show ?case using keep by blast
    next
      case (step y z)
      then show ?case using keep by (meson tranclp.trancl_into_trancl tranclp_into_rtranclp)
    qed
    with cyc show ?thesis by blast
  next
    case False
    with opt_closed_target[OF closed] have "x < length code \<Longrightarrow> code ! x \<noteq> JUMP t" for t
      by (fastforce simp: jump_step_def)
    then have "\<not> jump_step ?code' x b" using i
      by (cases "x = i"; cases "code ! x") (auto simp: jump_step_def)
    with b show ?thesis by simp
  qed
qed

lemma resolve_of_settled:
  assumes "opt_closed code locs" and "settled code a"
  shows "resolve_jump_target code {} (Some a) = Inr a"
proof (cases "\<exists>b. jump_step code a b")
  case True
  with assms(2) show ?thesis by (auto simp: settled_def intro: resolve_cycle)
next
  case False
  then show ?thesis using opt_closed_target[OF assms(1), of a]
    by (subst resolve_jump_target.simps) (auto simp: jump_step_def split: instr.splits)
qed


text \<open>The state of \<^verbatim>\<open>simplify_jumps\<close> at index \<open>i\<close>: the code differs from the original in its operands
  only, they are reached from the original ones by jumps of the original code, and those before
  \<open>i\<close> are settled.\<close>

definition threaded_at :: "instr list \<Rightarrow> instr list \<Rightarrow> bool \<Rightarrow> nat \<Rightarrow> bool" where
  "threaded_at code out done j \<longleftrightarrow>
     (first_target (code ! j) = None \<and> out ! j = code ! j) \<or>
     (\<exists>b a. first_target (code ! j) = Some (Some b) \<and> a < length code \<and>
        out ! j = with_target (code ! j) a \<and> (jump_step code)\<^sup>*\<^sup>* b a \<and> (done \<longrightarrow> settled out a))"

definition threaded :: "instr list \<Rightarrow> nat \<Rightarrow> instr list \<Rightarrow> bool" where
  "threaded code i out \<longleftrightarrow>
     length out = length code \<and> (\<forall>j < length code. threaded_at code out (j < i) j)"

lemma threadedD: "threaded code i out \<Longrightarrow> j < length code \<Longrightarrow> threaded_at code out (j < i) j"
  by (simp add: threaded_def)

lemma threaded_length: "threaded code i out \<Longrightarrow> length out = length code"
  by (simp add: threaded_def)

lemma threaded_at_target:
  "threaded_at code out d j \<Longrightarrow> first_target (out ! j) = Some t \<Longrightarrow> \<exists>a < length code. t = Some a"
  by (auto simp: threaded_at_def)

lemma threaded_closed:
  assumes "opt_closed code locs" and "threaded code i out"
  shows "opt_closed out locs"
proof -
  have "\<exists>a < length code. t = Some a" if "j < length code" "first_target (out ! j) = Some t" for j t
    using threaded_at_target[OF threadedD[OF assms(2) that(1)] that(2)] .
  with assms show ?thesis by (auto simp: opt_closed_def threaded_length in_set_conv_nth)
qed

lemma threaded_step:
  assumes "threaded code i out" and "jump_step out a b"
  shows "(jump_step code)\<^sup>+\<^sup>+ a b"
proof -
  have "a < length code" "out ! a = JUMP (Some b)"
    using assms by (auto simp: jump_step_def threaded_length)
  with threadedD[OF assms(1), of a] consider "code ! a = JUMP (Some b)" 
    | c where "code ! a = JUMP (Some c)" "(jump_step code)\<^sup>*\<^sup>* c b"
    by (cases "code ! a") (auto simp: threaded_at_def)
  then show ?thesis
    by cases (use \<open>a < length code\<close> in \<open>auto simp: jump_step_def intro: rtranclp_into_tranclp2\<close>)
qed

lemma threaded_reach:
  assumes "threaded code i out" and "(jump_step out)\<^sup>*\<^sup>* a b"
  shows "(jump_step code)\<^sup>*\<^sup>* a b"
  using assms(2)
proof (induction rule: rtranclp_induct)
  case (step y z)
  with threaded_step[OF assms(1) step(2)] show ?case by (meson rtranclp_trans tranclp_into_rtranclp)
qed simp

lemma threaded_at_done:
  assumes "threaded_at code out d j" and "\<And>a. first_target (out ! j) = Some (Some a) \<Longrightarrow> settled out a"
  shows "threaded_at code out d' j"
  using assms by (auto simp: threaded_at_def)

lemma threaded_next:
  assumes "threaded code i out" and "\<And>a. first_target (out ! i) = Some (Some a) \<Longrightarrow> settled out a"
  shows "threaded code (i + 1) out"
proof -
  have "threaded_at code out (j < i + 1) j" if "j < length code" for j
  proof (cases "j = i")
    case True
    then show ?thesis using threaded_at_done threadedD[OF assms(1) that] assms(2) by blast
  qed (use threadedD[OF assms(1) that] in \<open>simp add: less_Suc_eq\<close>)
  then show ?thesis using assms(1) by (simp add: threaded_def)
qed

lemma threaded_redirect:
  assumes th: "threaded code i out" and oc: "opt_closed out locs" and i: "i < length code"
    and t: "first_target (out ! i) = Some (Some t)"
    and a: "(jump_step out)\<^sup>*\<^sup>* t a" "a < length code" "settled out a"
    and nc: "\<not> (jump_step out)\<^sup>+\<^sup>+ i i"
  shows "threaded code (i + 1) (out[i := with_target (out ! i) a])"
proof -
  let ?out = "out[i := with_target (out ! i) a]"
  have len: "length out = length code" using th by (rule threaded_length)
  have pres: "settled ?out x" if "settled out x" for x
    using redirect_settled[OF that oc _ nc] i len by simp
  have "threaded_at code ?out (j < i + 1) j" if j: "j < length code" for j
  proof (cases "j = i")
    case True
    obtain b where b: "first_target (code ! i) = Some (Some b)" "(jump_step code)\<^sup>*\<^sup>* b t"
      "out ! i = with_target (code ! i) t"
      using threadedD[OF th i] t by (auto simp: threaded_at_def)
    moreover have "(jump_step code)\<^sup>*\<^sup>* b a" using b(2) threaded_reach[OF th a(1)] by (rule rtranclp_trans)
    ultimately show ?thesis using True pres[OF a(3)] a(2) i len by (auto simp: threaded_at_def)
  next
    case False
    with threadedD[OF th j] show ?thesis using pres by (auto simp: threaded_at_def)
  qed
  with len show ?thesis by (simp add: threaded_def)
qed

lemma simplify_loop_threaded:
  assumes "opt_closed code locs"
  shows "threaded code i out \<Longrightarrow> i \<le> length code \<Longrightarrow>
    \<exists>out' ch'. simplify_loop i out ch = Inr (out', ch') \<and> threaded code (length code) out'"
proof (induction i out ch rule: simplify_loop.induct)
  case (1 i out ch)
  note step = simplify_loop.simps[of i out ch]
  have len: "length out = length code" using "1.prems" by (simp add: threaded_def)
  have oc: "opt_closed out locs" using threaded_closed[OF assms "1.prems"(1)] .
  show ?case
  proof (cases "i < length out")
    case False
    with "1.prems" len show ?thesis by (subst step) simp
  next
    case i: True
    show ?thesis
    proof (cases "first_target (out ! i)")
      case None
      then have "threaded code (i + 1) out" using threaded_next[OF "1.prems"(1)] by simp
      with None i "1.IH"(1)[OF i None] len show ?thesis by (subst step) simp
    next
      case (Some u)
      then obtain t where t: "u = Some t" "t < length out" using opt_closedD[OF oc, of "out ! i"] i by auto
      obtain a where a: "a < length out" "resolve_jump_target out {} u = Inr a"
        using resolve_total[OF oc t(2)] t by blast
      have sa: "settled out a" using resolve_settled[of out "{}" t a] a t by auto
      show ?thesis
      proof (cases "Some a = u")
        case True
        have "threaded code (i + 1) out" using threaded_next[OF "1.prems"(1)] Some True sa by auto
        with True i "1.IH"(2)[OF i Some a(2) True] len a Some show ?thesis by (subst step) simp
      next
        case False
        have nc: "\<not> (jump_step out)\<^sup>+\<^sup>+ i i"
        proof
          assume c: "(jump_step out)\<^sup>+\<^sup>+ i i"
          then have s: "jump_step out i t" using Some t by (auto simp: jump_step_def dest!: tranclpD)
          then have "(jump_step out)\<^sup>+\<^sup>+ t t"
            using settled_reach_cycle[OF c, of t] by (meson r_into_rtranclp rtranclp_into_tranclp1)
          with False a t show False using resolve_cycle by fastforce
        qed
        have "threaded code (i + 1) (out[i := with_target (out ! i) a])"
          by (rule threaded_redirect[OF "1.prems"(1) oc _ _ _ _ sa nc])
            (use i len Some t a resolve_reaches in auto)
        with False i "1.IH"(3)[OF i Some a(2) False] len a Some show ?thesis by (subst step) simp
      qed
    qed
  qed
qed

lemma threaded_refl:
  assumes "opt_closed code locs"
  shows "threaded code 0 code"
proof -
  have "threaded_at code code False j" if "j < length code" for j
  proof (cases "first_target (code ! j)")
    case (Some t)
    with opt_closedD[OF assms, of "code ! j"] that obtain a where "t = Some a" "a < length code" by auto
    with Some show ?thesis by (auto simp: threaded_at_def with_target_same)
  qed (simp add: threaded_at_def)
  then show ?thesis by (simp add: threaded_def)
qed

lemma simplify_jumps_threaded:
  assumes "opt_closed code locs"
  shows "\<exists>out ch. simplify_jumps code = Inr (out, ch) \<and> threaded code (length code) out \<and> opt_closed out locs"
  using simplify_loop_threaded[OF assms threaded_refl[OF assms]] threaded_closed[OF assms]
  by (fastforce simp: simplify_jumps_def)

text \<open>A pass over threaded code changes nothing.\<close>

definition all_settled :: "instr list \<Rightarrow> bool" where
  "all_settled code \<longleftrightarrow> (\<forall>i \<in> set code. \<forall>a. first_target i = Some (Some a) \<longrightarrow> settled code a)"

lemma threaded_all_settled: "threaded code (length code) out \<Longrightarrow> all_settled out"
  by (auto simp: threaded_def threaded_at_def all_settled_def in_set_conv_nth)
     (metis first_target_with_target option.simps(5) option.inject option.simps(3))

lemma simplify_loop_settled:
  "opt_closed out locs \<Longrightarrow> all_settled out \<Longrightarrow> simplify_loop i out ch = Inr (out, ch)"
proof (induction i out ch rule: simplify_loop.induct)
  case (1 i out ch)
  note step = simplify_loop.simps[of i out ch]
  show ?case
  proof (cases "i < length out")
    case False
    then show ?thesis by (subst step) simp
  next
    case i: True
    show ?thesis
    proof (cases "first_target (out ! i)")
      case None
      with i "1.IH"(1)[OF i None] "1.prems" show ?thesis by (subst step) simp
    next
      case (Some u)
      with opt_closedD[OF "1.prems"(1)] i obtain t where t: "u = Some t" by (metis nth_mem)
      have "settled out t" using "1.prems"(2) Some t i by (auto simp: all_settled_def)
      then have r: "resolve_jump_target out {} u = Inr t"
        using resolve_of_settled[OF "1.prems"(1)] t by simp
      with i Some t "1.IH"(2)[OF i Some r] "1.prems" show ?thesis by (subst step) simp
    qed
  qed
qed

lemma settled_of_threaded:
  assumes "threaded code i out" and "settled out a" and "opt_closed out locs"
  shows "settled code a"
proof (unfold settled_def, intro allI impI)
  have trancl: "(jump_step out)\<^sup>+\<^sup>+ x y \<Longrightarrow> (jump_step code)\<^sup>+\<^sup>+ x y" for x y
    by (induction rule: tranclp_induct) (use threaded_step[OF assms(1)] in \<open>auto intro: tranclp_trans\<close>)
  fix b assume b: "jump_step code a b"
  then have "\<exists>c. jump_step out a c"
    using threadedD[OF assms(1), of a] threaded_length[OF assms(1)] by (auto simp: threaded_at_def jump_step_def)
  with assms(2) trancl show "(jump_step code)\<^sup>+\<^sup>+ a a" by (auto simp: settled_def)
qed

section \<open>Reachable code\<close>

inductive reachable_ip :: "instr list \<Rightarrow> fn_table \<Rightarrow> nat \<Rightarrow> bool" for code fns where
  start: "code \<noteq> [] \<Longrightarrow> reachable_ip code fns 0"
| entry: "(name, info) \<in> set fns \<Longrightarrow> fi_addr info < length code \<Longrightarrow> reachable_ip code fns (fi_addr info)"
| succ: "reachable_ip code fns ip \<Longrightarrow> Some t \<in> set (next_ips ip (code ! ip) (length code)) \<Longrightarrow>
    reachable_ip code fns t"

lemma next_ips_in_code:
  assumes "opt_closed code locs" and "ip < length code" and "t \<in> set (next_ips ip (code ! ip) (length code))"
  shows "\<exists>a < length code. t = Some a"
  using assms(2,3) opt_closedD[OF assms(1) nth_mem[OF assms(2)]]
  by (cases "code ! ip") (auto simp: next_ips_def split: if_splits)

lemma reachable_in_code:
  assumes "opt_closed code locs" and "reachable_ip code fns ip"
  shows "ip < length code"
  using assms(2)
proof (induction rule: reachable_ip.induct)
  case (succ ip t)
  with next_ips_in_code[OF assms(1) succ.IH succ.hyps(2)] show ?case by auto
qed auto

lemma set_last_butlast: "xs \<noteq> [] \<Longrightarrow> set xs = insert (last xs) (set (butlast xs))"
  by (metis append_butlast_last_id list.simps(15) rotate1.simps(2) set_rotate1)

text \<open>The state of the search: what is marked or waiting is reachable, and the successors of what is
  marked are marked or waiting.\<close>

definition searching :: "instr list \<Rightarrow> fn_table \<Rightarrow> nat option list \<Rightarrow> nat set \<Rightarrow> bool" where
  "searching code fns work R \<longleftrightarrow>
     (\<forall>w \<in> set work. \<exists>a. w = Some a \<and> reachable_ip code fns a) \<and> (\<forall>ip \<in> R. reachable_ip code fns ip) \<and>
     (\<forall>ip \<in> R. \<forall>t. Some t \<in> set (next_ips ip (code ! ip) (length code)) \<longrightarrow> t \<in> R \<or> Some t \<in> set work)"

lemma reach_loop_correct:
  "opt_closed code locs \<Longrightarrow> searching code fns work R \<Longrightarrow>
    \<exists>R'. reach_loop code work R = Inr R' \<and> searching code fns [] R' \<and> R \<subseteq> R' \<and>
      (\<forall>a. Some a \<in> set work \<longrightarrow> a \<in> R')"
proof (induction code work R rule: reach_loop.induct)
  case (1 code work R)
  note step = reach_loop.simps[of code work R]
  show ?case
  proof (cases "work = []")
    case True
    with "1.prems" show ?thesis by (subst step) simp
  next
    case False
    note split = set_last_butlast[OF False]
    from "1.prems"(2) False obtain ip where ip: "last work = Some ip" "reachable_ip code fns ip"
      using last_in_set[OF False] unfolding searching_def by blast
    show ?thesis
    proof (cases "ip \<in> R")
      case True
      have "searching code fns (butlast work) R"
        using "1.prems"(2) True ip(1) unfolding searching_def split by auto
      from "1.IH"(1)[OF False ip(1) True "1.prems"(1) this] show ?thesis
        using False ip(1) True by (subst step) (auto simp: split)
    next
      case nR: False
      have len: "ip < length code" using reachable_in_code[OF "1.prems"(1) ip(2)] .
      let ?next = "next_ips ip (code ! ip) (length code)"
      let ?work = "butlast work @ filter (\<lambda>t. case t of None \<Rightarrow> True | Some a \<Rightarrow> a \<notin> insert ip R) ?next"
      have "\<exists>a. w = Some a \<and> reachable_ip code fns a" if "w \<in> set ?next" for w
        using next_ips_in_code[OF "1.prems"(1) len that] reachable_ip.succ[OF ip(2)] that by blast
      then have "searching code fns ?work (insert ip R)"
        using "1.prems"(2) ip unfolding searching_def split by auto
      from "1.IH"(2)[OF False ip(1) nR len "1.prems"(1) this] show ?thesis
        using False ip(1) nR len by (subst step) (auto simp: split)
    qed
  qed
qed

lemma compute_reachable_correct:
  assumes "opt_closed code locs"
  shows "compute_reachable code fns = Inr {ip. reachable_ip code fns ip}"
proof (cases "code = []")
  case True
  then have "\<not> reachable_ip code fns ip" for ip
    using reachable_in_code[OF assms, of fns ip] by auto
  with True show ?thesis by (simp add: compute_reachable_def)
next
  case False
  let ?work = "map Some (filter (\<lambda>r. r < length code) (remdups (0 # map (\<lambda>f. fi_addr (snd f)) fns)))"
  have w: "\<forall>w \<in> set ?work. \<exists>a. w = Some a \<and> reachable_ip code fns a"
    using False by (auto intro: reachable_ip.intros)
  have s0: "searching code fns ?work {}" using w unfolding searching_def by blast
  obtain R where R0: "reach_loop code ?work {} = Inr R" "\<forall>a. Some a \<in> set ?work \<longrightarrow> a \<in> R"
    "searching code fns [] R"
    using reach_loop_correct[OF assms s0] by blast
  have R: "reach_loop code ?work {} = Inr R" "\<forall>ip \<in> R. reachable_ip code fns ip"
     "\<forall>a. Some a \<in> set ?work \<longrightarrow> a \<in> R"
     "\<forall>ip \<in> R. \<forall>t. Some t \<in> set (next_ips ip (code ! ip) (length code)) \<longrightarrow> t \<in> R"
    using R0 unfolding searching_def by auto
  have "ip \<in> R" if "reachable_ip code fns ip" for ip
    using that
  proof (induction rule: reachable_ip.induct)
    case start
    with R(3) show ?case by (simp add: image_iff)
  next
    case (entry name info)
    then have "fi_addr info \<in> (\<lambda>f. fi_addr (snd f)) ` set fns" by force
    with entry have "Some (fi_addr info) \<in> set ?work" by simp
    then show ?case using R(3) by blast
  next
    case (succ ip t)
    with R(4) show ?case by blast
  qed
  with R(2) have "R = {ip. reachable_ip code fns ip}" by blast
  with R(1) False show ?thesis by (simp only: compute_reachable_def if_False)
qed

end
