(* ===== verification/Optimizer_Passes.thy ===== *)
theory Optimizer_Passes
  imports Optimizer_Jumps
begin

text \<open>
  The passes that drop instructions and renumber the rest, as functions on closed code: what the map
  of old to new addresses covers, when a pass raises, and that it shrinks the code exactly when it
  reports a change; the removal of useless pushes in full.
\<close>

section \<open>Compaction\<close>

text \<open>The output of a compacting pass at index \<open>i\<close>: locations in step with the code, the map into
  the output, an entry for every needed index passed, and the identity as long as nothing was
  dropped.\<close>

definition map_range :: "nat \<Rightarrow> compaction \<Rightarrow> bool" where
  "map_range i k \<longleftrightarrow> (\<forall>j a. k_map k j = Some a \<longrightarrow> j < i \<and> a < length (k_code k))"

definition map_covers :: "nat set \<Rightarrow> nat \<Rightarrow> compaction \<Rightarrow> bool" where
  "map_covers need i k \<longleftrightarrow> (\<forall>j < i. j \<in> need \<longrightarrow> k_map k j \<noteq> None)"

definition from_code :: "instr list \<Rightarrow> compaction \<Rightarrow> bool" where
  "from_code code k \<longleftrightarrow> (\<forall>ins \<in> set (k_code k). first_target ins = None \<or> ins \<in> set code)"

definition same_so_far :: "instr list \<Rightarrow> loc list \<Rightarrow> nat \<Rightarrow> compaction \<Rightarrow> bool" where
  "same_so_far code locs i k \<longleftrightarrow> length (k_code k) = i \<longrightarrow>
     k_code k = take i code \<and> k_locs k = take i locs \<and> (\<forall>j < i. k_map k j = Some j)"

definition compacting :: "instr list \<Rightarrow> loc list \<Rightarrow> nat set \<Rightarrow> nat \<Rightarrow> compaction \<Rightarrow> bool" where
  "compacting code locs need i k \<longleftrightarrow>
     length (k_locs k) = length (k_code k) \<and> length (k_code k) \<le> i \<and> map_range i k \<and>
     map_covers need i k \<and> from_code code k \<and> same_so_far code locs i k"

lemma compacting_empty: "compacting code locs need 0 empty_compaction"
  by (simp add: compacting_def map_range_def map_covers_def from_code_def same_so_far_def empty_compaction_def)

lemma map_range_keep: "map_range i k \<Longrightarrow> 0 < s \<Longrightarrow> map_range (i + s) (keep i ins l k)"
  by (force simp: map_range_def keep_def)

lemma map_covers_keep:
  assumes "map_covers need i k" and "\<forall>j. i < j \<and> j < i + s \<longrightarrow> j \<notin> need"
  shows "map_covers need (i + s) (keep i ins l k)"
  unfolding map_covers_def
proof (intro allI impI)
  fix j assume "j < i + s" "j \<in> need"
  with assms(2) have "j < i \<or> j = i" by (metis linorder_neqE_nat)
  with assms(1) \<open>j \<in> need\<close> show "k_map (keep i ins l k) j \<noteq> None"
    by (auto simp: map_covers_def keep_def)
qed

lemma from_code_keep:
  "from_code code k \<Longrightarrow> first_target ins = None \<or> ins \<in> set code \<Longrightarrow> from_code code (keep i ins l k)"
  by (simp add: from_code_def keep_def)

lemma same_so_far_keep:
  assumes "same_so_far code locs i k" and "i < length code" and "length locs = length code"
  shows "same_so_far code locs (i + 1) (keep i (code ! i) (locs ! i) k)"
  using assms by (auto simp: same_so_far_def keep_def take_Suc_conv_app_nth less_Suc_eq)

lemma keep_lengths [simp]:
  "length (k_code (keep i ins l k)) = Suc (length (k_code k))"
  "length (k_locs (keep i ins l k)) = Suc (length (k_locs k))"
  "k_changed (keep i ins l k) = k_changed k"
  by (simp_all add: keep_def)

lemma compacting_changed [simp]:
  "compacting code locs need i (k\<lparr>k_changed := b\<rparr>) = compacting code locs need i k"
  by (simp add: compacting_def map_range_def map_covers_def from_code_def same_so_far_def)

lemma compacting_keep:
  assumes "compacting code locs need i k" and "i < length code" and "length locs = length code"
  shows "compacting code locs need (i + 1) (keep i (code ! i) (locs ! i) k)"
proof -
  have "map_covers need (i + 1) (keep i (code ! i) (locs ! i) k)"
    by (rule map_covers_keep) (use assms(1) in \<open>auto simp: compacting_def\<close>)
  then show ?thesis using assms map_range_keep[of i k 1] from_code_keep[of code k "code ! i"]
      same_so_far_keep[of code locs i k] by (simp add: compacting_def)
qed

lemma compacting_replace:
  assumes "compacting code locs need i k" and "1 < s" and "\<forall>j. i < j \<and> j < i + s \<longrightarrow> j \<notin> need"
    and "first_target ins = None"
  shows "compacting code locs need (i + s) (keep i ins l k)"
  using assms map_range_keep[of i k s] map_covers_keep[of need i k s] from_code_keep[of code k ins]
  by (auto simp: compacting_def same_so_far_def)

lemma compacting_skip:
  assumes "compacting code locs need i k" and "0 < s" and "\<forall>j. i \<le> j \<and> j < i + s \<longrightarrow> j \<notin> need"
  shows "compacting code locs need (i + s) k"
proof -
  have "map_range (i + s) k" using assms(1) by (fastforce simp: compacting_def map_range_def)
  moreover have "map_covers need (i + s) k"
    using assms by (auto simp: compacting_def map_covers_def) (metis not_less)
  ultimately show ?thesis using assms(1,2) by (auto simp: compacting_def same_so_far_def)
qed

text \<open>What is left to check at the end of a pass: that every operand of the output is mapped.\<close>

lemma map_err_Inr:
  assumes "\<And>x. x \<in> set xs \<Longrightarrow> f x = Inr (g x)"
  shows "map_err f xs = Inr (map g xs)"
  using assms by (induction xs) (simp_all add: bindE_def)

definition remapped :: "(nat \<rightharpoonup> nat) \<Rightarrow> instr \<Rightarrow> instr" where
  "remapped mapping i = (case first_target i of Some (Some t) \<Rightarrow> with_target i (the (mapping t)) | _ \<Rightarrow> i)"

lemma remap_instruction_ok:
  "(\<And>t. first_target i = Some t \<Longrightarrow> \<exists>a. t = Some a \<and> mapping a \<noteq> None) \<Longrightarrow>
   remap_instruction mapping i = Inr (remapped mapping i)"
  by (fastforce simp: remap_instruction_def remapped_def split: option.splits)


lemma first_target_remapped [simp]:
  "first_target (remapped m i) = (case first_target i of Some (Some t) \<Rightarrow> Some (Some (the (m t))) | x \<Rightarrow> x)"
  by (auto simp: remapped_def split: option.splits)

lemma finish_ok:
  assumes "compacting code locs need (length code) k" and "opt_closed code locs"
    and need: "\<forall>i \<in> set (k_code k). \<forall>a. first_target i = Some (Some a) \<longrightarrow> a \<in> need"
  shows "remap_compacted (k_code k) fns (k_locs k) (k_map k) =
      Inr (map (remapped (k_map k)) (k_code k), remap_functions (k_map k) fns, k_locs k) \<and>
    opt_closed (map (remapped (k_map k)) (k_code k)) (k_locs k)"
proof -
  have m: "\<exists>a b. t = Some a \<and> k_map k a = Some b \<and> b < length (k_code k)"
    if "i \<in> set (k_code k)" "first_target i = Some t" for i t
  proof -
    from assms(1) that have "i \<in> set code" by (auto simp: compacting_def from_code_def)
    with opt_closedD[OF assms(2)] that(2) obtain a where a: "t = Some a" "a < length code" by blast
    with need that have "a \<in> need" by blast
    with a assms(1) show ?thesis by (auto simp: compacting_def map_covers_def map_range_def)
  qed
  have "remap_instruction (k_map k) i = Inr (remapped (k_map k) i)" if "i \<in> set (k_code k)" for i
    by (rule remap_instruction_ok) (use m[OF that] in fastforce)
  then have "map_err (remap_instruction (k_map k)) (k_code k) = Inr (map (remapped (k_map k)) (k_code k))"
    by (rule map_err_Inr)
  moreover have "opt_closed (map (remapped (k_map k)) (k_code k)) (k_locs k)"
    using assms(1) m by (fastforce simp: opt_closed_def compacting_def split: option.splits)
  ultimately show ?thesis by (simp add: remap_compacted_def)
qed

lemma remapped_same: "(\<And>t. first_target i = Some (Some t) \<Longrightarrow> m t = Some t) \<Longrightarrow> remapped m i = i"
  by (auto simp: remapped_def with_target_same split: option.splits)

text \<open>A pass that dropped nothing leaves the code as it was.\<close>

lemma finish_same:
  assumes "compacting code locs need (length code) k" and "opt_closed code locs"
    and "length (k_code k) = length code"
  shows "map (remapped (k_map k)) (k_code k) = code \<and> k_locs k = locs"
proof -
  have k: "k_code k = code" "k_locs k = locs" "\<forall>j < length code. k_map k j = Some j"
    using assms by (auto simp: compacting_def same_so_far_def opt_closed_def)
  have "remapped (k_map k) i = i" if "i \<in> set code" for i
    by (rule remapped_same) (use k(3) opt_closedD[OF assms(2) that] in auto)
  with k show ?thesis by (simp add: map_idI)
qed

section \<open>The compacting passes\<close>

lemma loc_at_ok: "i < length locs \<Longrightarrow> loc_at locs i = Inr (locs ! i)"
  by (simp add: loc_at_def)

lemma fold_unary_skip: "fold_unary code tgts i = Some v \<Longrightarrow> i + 1 < length code \<and> Some (i + 1) \<notin> tgts"
  by (simp add: fold_unary_def split: if_splits)

lemma fold_binary_skip:
  "fold_binary code tgts i = Some v \<Longrightarrow> i + 2 < length code \<and> Some (i + 1) \<notin> tgts \<and> Some (i + 2) \<notin> tgts"
  by (simp add: fold_binary_def split: if_splits)

definition counts :: "nat \<Rightarrow> compaction \<Rightarrow> bool" where
  "counts i k \<longleftrightarrow> (k_changed k \<longleftrightarrow> length (k_code k) < i) \<and> length (k_code k) \<le> i"

lemma fold_loop_compacting:
  "length locs = length code \<Longrightarrow> compacting code locs {a. Some a \<in> tgts} i k \<Longrightarrow> counts i k \<Longrightarrow>
   i \<le> length code \<Longrightarrow>
   \<exists>k'. fold_loop code locs tgts i k = Inr k' \<and>
     compacting code locs {a. Some a \<in> tgts} (length code) k' \<and> counts (length code) k'"
proof (induction code locs tgts i k rule: fold_loop.induct)
  case (1 code locs tgts i k)
  note step = fold_loop.simps[of code locs tgts i k]
  show ?case
  proof (cases "i < length code")
    case False
    with "1.prems" show ?thesis by (subst step) simp
  next
    case i: True
    show ?thesis
    proof (cases "fold_unary code tgts i")
      case (Some v)
      note skip = fold_unary_skip[OF Some]
      then have l: "loc_at locs (i + 1) = Inr (locs ! (i + 1))" using "1.prems"(1) by (simp add: loc_at_ok)
      have "compacting code locs {a. Some a \<in> tgts} (i + 2)
          (keep i (PUSH_CONST v) (locs ! (i + 1)) k\<lparr>k_changed := True\<rparr>)"
        unfolding compacting_changed
        by (rule compacting_replace[OF "1.prems"(2)]) (use skip in \<open>auto simp: less_Suc_eq\<close>)
      with "1.IH"(3)[OF i Some l] "1.prems" Some i l skip show ?thesis
        by (subst step) (simp add: counts_def)
    next
      case None
      show ?thesis
      proof (cases "fold_binary code tgts i")
        case (Some v)
        note skip = fold_binary_skip[OF Some]
        then have l: "loc_at locs (i + 2) = Inr (locs ! (i + 2))" using "1.prems"(1) by (simp add: loc_at_ok)
        have "compacting code locs {a. Some a \<in> tgts} (i + 3)
            (keep i (PUSH_CONST v) (locs ! (i + 2)) k\<lparr>k_changed := True\<rparr>)"
          unfolding compacting_changed
          by (rule compacting_replace[OF "1.prems"(2)])
            (use skip in \<open>auto simp: less_Suc_eq numeral_3_eq_3\<close>)
        with "1.IH"(2)[OF i None Some l] "1.prems" Some i l skip None show ?thesis
          by (subst step) (simp add: counts_def)
      next
        case none2: None
        have l: "loc_at locs i = Inr (locs ! i)" using i "1.prems"(1) by (simp add: loc_at_ok)
        with "1.IH"(1)[OF i None none2 l] "1.prems" i None none2
          compacting_keep[OF "1.prems"(2) i "1.prems"(1)] show ?thesis
          by (subst step) (simp add: counts_def)
      qed
    qed
  qed
qed

lemma useless_loop_compacting:
  "length locs = length code \<Longrightarrow> compacting code locs {} i k \<Longrightarrow> counts i k \<Longrightarrow> i \<le> length code \<Longrightarrow>
   \<exists>k'. useless_loop code locs tgts i k = Inr k' \<and> compacting code locs {} (length code) k' \<and>
     counts (length code) k'"
proof (induction code locs tgts i k rule: useless_loop.induct)
  case (1 code locs tgts i k)
  note step = useless_loop.simps[of code locs tgts i k]
  show ?case
  proof (cases "i < length code")
    case False
    with "1.prems" show ?thesis by (subst step) simp
  next
    case i: True
    show ?thesis
    proof (cases "useless_push code tgts i")
      case True
      have "compacting code locs {} (i + 2) (k\<lparr>k_changed := True\<rparr>)"
        unfolding compacting_changed by (rule compacting_skip[OF "1.prems"(2)]) auto
      with "1.IH"(1)[OF i True] "1.prems" True i show ?thesis
        by (subst step) (simp add: counts_def useless_push_def)
    next
      case False
      have l: "loc_at locs i = Inr (locs ! i)" using i "1.prems"(1) by (simp add: loc_at_ok)
      with "1.IH"(2)[OF i False l] "1.prems" i False
        compacting_keep[OF "1.prems"(2) i "1.prems"(1)] show ?thesis
        by (subst step) (simp add: counts_def)
    qed
  qed
qed

lemma filter_loop_compacting:
  "length locs = length code \<Longrightarrow> compacting code locs R i k \<Longrightarrow> i \<le> length code \<Longrightarrow>
   \<exists>k'. filter_loop code locs R i k = Inr k' \<and> compacting code locs R (length code) k' \<and>
     set (k_code k') = set (k_code k) \<union> (\<lambda>j. code ! j) ` {j \<in> R. i \<le> j \<and> j < length code}"
proof (induction code locs R i k rule: filter_loop.induct)
  case (1 code locs R i k)
  note step = filter_loop.simps[of code locs R i k]
  show ?case
  proof (cases "i < length code")
    case False
    with "1.prems" show ?thesis by (subst step) auto
  next
    case i: True
    show ?thesis
    proof (cases "i \<in> R")
      case True
      then have *: "{j \<in> R. i \<le> j \<and> j < length code} = insert i {j \<in> R. i + 1 \<le> j \<and> j < length code}"
        using i by auto
      have l: "loc_at locs i = Inr (locs ! i)" using i "1.prems"(1) by (simp add: loc_at_ok)
      from "1.IH"(1)[OF i True l "1.prems"(1) compacting_keep[OF "1.prems"(2) i "1.prems"(1)]] i True l
      show ?thesis unfolding * by (subst step) (auto simp: keep_def)
    next
      case False
      then have *: "{j \<in> R. i \<le> j \<and> j < length code} = {j \<in> R. i + 1 \<le> j \<and> j < length code}"
        by (auto simp: le_less Suc_le_eq)
      have "compacting code locs R (i + 1) k"
        by (rule compacting_skip[OF "1.prems"(2)]) (use False in \<open>auto simp: less_Suc_eq_le\<close>)
      from "1.IH"(2)[OF i False "1.prems"(1) this] i False show ?thesis
        unfolding * by (subst step) simp
    qed
  qed
qed

section \<open>Canonical constants\<close>

lemma same_key_refl [simp]: "same_key c c"
  by (cases c) auto

lemma canonical_first_target:
  "map first_target (canonical_loop cache code) = map first_target code"
  by (induction cache code rule: canonical_loop.induct) (auto split: instr.splits option.splits)

lemma canonical_length [simp]: "length (canonical_loop cache code) = length code"
  by (metis canonical_first_target length_map)

definition canonical_consts :: "instr list \<Rightarrow> bool" where
  "canonical_consts code \<longleftrightarrow> canonical_loop [] code = code"

lemma find_append:
  "find P (xs @ ys) = (case find P xs of None \<Rightarrow> find P ys | Some x \<Rightarrow> Some x)"
  by (induction xs) auto

lemma canonical_loop_idem:
  "(\<forall>c \<in> set cache. find (same_key c) cache = Some c) \<Longrightarrow>
   canonical_loop cache (canonical_loop cache code) = canonical_loop cache code"
proof (induction cache code rule: canonical_loop.induct)
  case (2 cache i "is")
  show ?case
  proof (cases "\<exists>c. i = PUSH_CONST c")
    case True
    then obtain c where i: "i = PUSH_CONST c" by blast
    show ?thesis
    proof (cases "find (same_key c) cache")
      case None
      have "\<forall>c' \<in> set (cache @ [c]). find (same_key c') (cache @ [c]) = Some c'"
        using None "2.prems" by (auto simp: find_append split: option.splits)
      with "2.IH"(1)[OF i None] i None show ?thesis by simp
    next
      case (Some c')
      then have "find (same_key c') cache = Some c'" using "2.prems" by (auto simp: find_Some_iff)
      with "2.IH"(2)[OF i Some "2.prems"] i Some show ?thesis by simp
    qed
  next
    case False
    then show ?thesis using 2 by (cases i) auto
  qed
qed simp

lemma canonical_canonical_loop: "canonical_consts (canonical_loop [] code)"
  by (simp add: canonical_consts_def canonical_loop_idem)

lemma canonical_loop_target: "first_target i \<noteq> None \<Longrightarrow> canonical_loop cache (i # xs) = i # canonical_loop cache xs"
  by (cases i) auto

text \<open>Code with the same constants is canonical_consts too.\<close>

lemma canonical_loop_congr:
  "list_all2 (\<lambda>i j. i = j \<or> first_target i \<noteq> None \<and> first_target j \<noteq> None) xs ys \<Longrightarrow>
   canonical_loop cache xs = xs \<Longrightarrow> canonical_loop cache ys = ys"
proof (induction xs arbitrary: ys cache)
  case (Cons i xs)
  then obtain j zs where ys: "ys = j # zs" "i = j \<or> first_target i \<noteq> None \<and> first_target j \<noteq> None"
    "list_all2 (\<lambda>i j. i = j \<or> first_target i \<noteq> None \<and> first_target j \<noteq> None) xs zs"
    by (auto simp: list_all2_Cons1)
  note IH = Cons.IH[OF ys(3)]
  from ys(2) show ?case
  proof
    assume "i = j"
    then show ?thesis using Cons.prems(2) IH unfolding ys(1) by (cases i) (auto split: option.splits)
  next
    assume t: "first_target i \<noteq> None \<and> first_target j \<noteq> None"
    then have "canonical_loop cache xs = xs" using Cons.prems(2) by (metis canonical_loop_target list.inject)
    with t IH ys(1) show ?thesis by (metis canonical_loop_target)
  qed
qed simp

lemma collect_jump_targets_eq: "collect_jump_targets code = {t. Some t \<in> set (map first_target code)}"
proof -
  have "t \<in> (\<lambda>x. the (first_target x)) ` {x \<in> set code. first_target x \<noteq> None} \<longleftrightarrow>
      Some t \<in> first_target ` set code" for t
    by (auto simp: image_iff) (metis option.sel option.inject)+
  then show ?thesis by (auto simp: collect_jump_targets_def map_filter_def)
qed

lemma opt_closed_eq: "opt_closed code locs \<longleftrightarrow> length locs = length code \<and>
   (\<forall>t. Some t \<in> set (map first_target code) \<longrightarrow> (\<exists>a < length code. t = Some a))"
  by (auto simp: opt_closed_def image_iff) metis+

lemma opt_closed_first_target:
  "map first_target code' = map first_target code \<Longrightarrow> opt_closed code' locs = opt_closed code locs"
  by (metis opt_closed_eq length_map)

lemma collect_first_target:
  "map first_target code' = map first_target code \<Longrightarrow> collect_jump_targets code' = collect_jump_targets code"
  by (simp add: collect_jump_targets_eq del: set_map)

section \<open>One iteration\<close>

text \<open>The addresses of functions lie inside the code; remapping keeps only those that do.\<close>

definition fns_inside :: "instr list \<Rightarrow> fn_table \<Rightarrow> bool" where
  "fns_inside code fns \<longleftrightarrow> (\<forall>f \<in> set fns. fi_addr (snd f) < length code)"

lemma fns_inside_length: "length code' = length code \<Longrightarrow> fns_inside code' fns = fns_inside code fns"
  by (simp add: fns_inside_def)

lemma remap_functions_inside:
  assumes "compacting code locs need n k" and "length code' = length (k_code k)"
  shows "fns_inside code' (remap_functions (k_map k) fns)"
proof -
  have "k_map k j = Some a \<Longrightarrow> a < length code'" for j a
    using assms by (auto simp: compacting_def map_range_def)
  then show ?thesis
    by (auto simp: fns_inside_def remap_functions_def map_filter_def rebuild_info_def split: option.splits prod.splits)
qed

text \<open>What a pass does to closed code.\<close>

definition shrinks :: "instr list \<Rightarrow> fn_table \<Rightarrow> loc list \<Rightarrow> instr list \<times> fn_table \<times> loc list \<times> bool \<Rightarrow> bool" where
  "shrinks code fns locs r = (case r of (code', fns', locs', changed) \<Rightarrow>
     opt_closed code' locs' \<and> fns_inside code' fns' \<and> length code' \<le> length code \<and> length fns' \<le> length fns \<and>
     (if changed then length code' + length fns' < length code + length fns
      else code' = code \<and> locs' = locs))"

lemma remap_functions_length: "length (remap_functions m fns) \<le> length fns"
  by (induction fns) (auto simp: remap_functions_def map_filter_simps split: option.splits prod.splits)

lemma map_err_elem: "map_err f xs = Inr ys \<Longrightarrow> x \<in> set xs \<Longrightarrow> \<exists>y. f x = Inr y"
  by (induction xs arbitrary: ys) (auto simp: bindE_Inr_iff)

lemma map_err_error: "map_err f xs = Inl e \<Longrightarrow> \<exists>x \<in> set xs. f x = Inl e"
  by (induction xs) (auto simp: bindE_Inl_iff)

lemma remap_compacted_Inr:
  assumes "remap_compacted code fns locs m = Inr r" and "i \<in> set code" and "first_target i = Some t"
  shows "\<exists>a. t = Some a \<and> m a \<noteq> None"
proof -
  obtain j where "remap_instruction m i = Inr j"
    using assms(1,2) map_err_elem by (fastforce simp: remap_compacted_def bindE_Inr_iff)
  with assms(3) show ?thesis by (auto simp: remap_instruction_def split: option.splits)
qed

lemma fold_constants_shrinks:
  assumes "opt_closed code locs"
  shows "\<exists>r. fold_constants code fns locs (collect_jump_targets code) = Inr r \<and> shrinks code fns locs r"
proof -
  let ?t = "collect_jump_targets code"
  have len: "length locs = length code" using assms by (simp add: opt_closed_def)
  obtain k where k: "fold_loop code locs ?t 0 empty_compaction = Inr k"
    "compacting code locs {a. Some a \<in> ?t} (length code) k" "counts (length code) k"
    using fold_loop_compacting[OF len compacting_empty, of ?t] by (auto simp: counts_def empty_compaction_def)
  have need: "a \<in> {a. Some a \<in> ?t}" if "i \<in> set (k_code k)" "first_target i = Some (Some a)" for i a
  proof -
    have "i \<in> set code" using k(2) that by (auto simp: compacting_def from_code_def)
    with that(2) show ?thesis by (force simp: collect_jump_targets_eq image_iff)
  qed
  from need have needs: "\<forall>i \<in> set (k_code k). \<forall>a. first_target i = Some (Some a) \<longrightarrow> a \<in> {a. Some a \<in> ?t}" by blast
  note ok = finish_ok[OF k(2) assms needs, where fns = fns]
  show ?thesis
    using ok k(1,3) finish_same[OF k(2) assms] remap_functions_length[of "k_map k" fns]
      remap_functions_inside[OF k(2), of "map (remapped (k_map k)) (k_code k)" fns]
    by (auto simp: fold_constants_def finish_compaction_def shrinks_def counts_def)
qed

lemma useless_shrinks:
  assumes "opt_closed code locs" and "remove_useless_stack_ops code fns locs tgts = Inr r"
  shows "shrinks code fns locs r"
proof -
  have len: "length locs = length code" using assms by (simp add: opt_closed_def)
  obtain k where k: "useless_loop code locs tgts 0 empty_compaction = Inr k"
    "compacting code locs {} (length code) k" "counts (length code) k"
    using useless_loop_compacting[OF len compacting_empty, of tgts] by (auto simp: counts_def empty_compaction_def)
  let ?need = "{a. k_map k a \<noteq> None}"
  have c: "compacting code locs ?need (length code) k"
    using k(2) by (simp add: compacting_def map_covers_def)
  have "\<exists>r. remap_compacted (k_code k) fns (k_locs k) (k_map k) = Inr r"
    using assms(2) k(1) by (auto simp: remove_useless_stack_ops_def finish_compaction_def bindE_Inr_iff)
  then have need: "a \<in> ?need" if "i \<in> set (k_code k)" "first_target i = Some (Some a)" for i a
    using remap_compacted_Inr that by fastforce
  from need have needs: "\<forall>i \<in> set (k_code k). \<forall>a. first_target i = Some (Some a) \<longrightarrow> a \<in> ?need" by blast
  note ok = finish_ok[OF c assms(1) needs, where fns = fns]
  show ?thesis
    using assms(2) ok k(1,3) finish_same[OF c assms(1)] remap_functions_length[of "k_map k" fns]
      remap_functions_inside[OF k(2), of "map (remapped (k_map k)) (k_code k)" fns]
    by (auto simp: remove_useless_stack_ops_def finish_compaction_def shrinks_def counts_def)
qed

text \<open>The only exception of this pass is the lookup of a removed address.\<close>

lemma useless_error:
  assumes "opt_closed code locs" and "remove_useless_stack_ops code fns locs tgts = Inl e"
  shows "\<exists>a. e = KeyErr (Some a)"
proof -
  have len: "length locs = length code" using assms by (simp add: opt_closed_def)
  obtain k where k: "useless_loop code locs tgts 0 empty_compaction = Inr k"
    "compacting code locs {} (length code) k"
    using useless_loop_compacting[OF len compacting_empty, of tgts] by (auto simp: counts_def empty_compaction_def)
  have "map_err (remap_instruction (k_map k)) (k_code k) = Inl e"
    using assms(2) k(1)
    by (simp add: remove_useless_stack_ops_def finish_compaction_def remap_compacted_def bindE_def
        split: sum.splits prod.splits)
  from map_err_error[OF this] obtain i
    where i: "i \<in> set (k_code k)" "remap_instruction (k_map k) i = Inl e" by blast
  then obtain t where t: "first_target i = Some t" by (auto simp: remap_instruction_def split: option.splits)
  with k(2) i(1) have "i \<in> set code" by (auto simp: compacting_def from_code_def)
  from opt_closedD[OF assms(1) this t] obtain a where "t = Some a" by blast
  with i(2) t show ?thesis by (auto simp: remap_instruction_def split: option.splits)
qed


lemma remap_functions_same:
  assumes "length (remap_functions m fns) = length fns" and "\<And>a b. m a = Some b \<Longrightarrow> b = a"
  shows "function_addrs (remap_functions m fns) = function_addrs fns"
  using assms(1)
proof (induction fns)
  case (Cons f fns)
  obtain n i where f: "f = (n, i)" by force
  show ?case
  proof (cases "m (fi_addr i)")
    case None
    with Cons.prems f remap_functions_length[of m fns] show ?thesis
      by (simp add: remap_functions_def map_filter_simps)
  next
    case (Some b)
    with assms(2) have "b = fi_addr i" by blast
    with Cons Some f show ?thesis
      by (simp add: remap_functions_def map_filter_simps function_addrs_def rebuild_info_def)
  qed
qed (simp add: remap_functions_def map_filter_simps function_addrs_def)

lemma unreachable_shrinks:
  assumes "opt_closed code locs"
  shows "\<exists>r. remove_unreachable code fns locs = Inr r \<and> shrinks code fns locs r"
proof -
  let ?R = "{ip. reachable_ip code fns ip}"
  have len: "length locs = length code" using assms by (simp add: opt_closed_def)
  obtain k where k: "filter_loop code locs ?R 0 empty_compaction = Inr k"
    "compacting code locs ?R (length code) k" "set (k_code k) = (\<lambda>j. code ! j) ` {j \<in> ?R. j < length code}"
    using filter_loop_compacting[OF len compacting_empty, of ?R] by (auto simp: empty_compaction_def)
  have need: "a \<in> ?R" if "i \<in> set (k_code k)" "first_target i = Some (Some a)" for i a
  proof -
    from that(1) k(3) obtain j where j: "i = code ! j" "reachable_ip code fns j" by auto
    with that(2) have "Some a \<in> set (next_ips j (code ! j) (length code))"
      by (cases "code ! j") (auto simp: next_ips_def)
    with j(2) show ?thesis by (auto intro: reachable_ip.succ)
  qed
  let ?code = "map (remapped (k_map k)) (k_code k)"
  let ?fns = "remap_functions (k_map k) fns"
  from need have needs: "\<forall>i \<in> set (k_code k). \<forall>a. first_target i = Some (Some a) \<longrightarrow> a \<in> ?R" by blast
  note ok = finish_ok[OF k(2) assms needs, where fns = fns]
  have r: "remove_unreachable code fns locs = Inr (?code, ?fns, k_locs k,
      ?code \<noteq> code \<or> k_locs k \<noteq> locs \<or> function_addrs ?fns \<noteq> function_addrs fns)"
    using compute_reachable_correct[OF assms] k(1) ok by (simp add: remove_unreachable_def)
  have le: "length (k_code k) \<le> length code" using k(2) by (simp add: compacting_def)
  have same: "function_addrs ?fns = function_addrs fns \<and> ?code = code \<and> k_locs k = locs"
    if eq: "length (k_code k) = length code" "length ?fns = length fns"
  proof -
    have "\<forall>j < length code. k_map k j = Some j" "map_range (length code) k"
      using k(2) eq(1) by (simp_all add: compacting_def same_so_far_def)
    then have id: "k_map k j = Some b \<Longrightarrow> b = j" for j b
      unfolding map_range_def by (metis option.inject)
    show ?thesis using finish_same[OF k(2) assms eq(1)] remap_functions_same[OF eq(2) id] by auto
  qed
  have "length (k_code k) + length ?fns < length code + length fns"
    if "?code \<noteq> code \<or> k_locs k \<noteq> locs \<or> function_addrs ?fns \<noteq> function_addrs fns"
    using that same le remap_functions_length[of "k_map k" fns] by (metis add_less_le_mono add_le_less_mono le_neq_implies_less)
  with r ok le remap_functions_length[of "k_map k" fns] remap_functions_inside[OF k(2), of ?code fns] show ?thesis
    by (simp add: shrinks_def)
qed

section \<open>Useless pushes\<close>

text \<open>The indexes that \<^verbatim>\<open>remove_useless_stack_ops\<close> keeps, and the new address of an index: the number of kept
  indexes before it.\<close>

definition stays :: "instr list \<Rightarrow> nat option set \<Rightarrow> nat \<Rightarrow> bool" where
  "stays code tgts j \<longleftrightarrow> \<not> useless_push code tgts j \<and> \<not> (0 < j \<and> useless_push code tgts (j - 1))"

definition kept_before :: "instr list \<Rightarrow> nat option set \<Rightarrow> nat \<Rightarrow> nat list" where
  "kept_before code tgts i = filter (stays code tgts) [0..<i]"

definition moved :: "instr list \<Rightarrow> nat option set \<Rightarrow> nat \<Rightarrow> nat" where
  "moved code tgts j = length (kept_before code tgts j)"

lemma kept_before_Suc:
  "kept_before code tgts (Suc i) = kept_before code tgts i @ (if stays code tgts i then [i] else [])"
  by (simp add: kept_before_def)

lemma kept_before_nth: "stays code tgts j \<Longrightarrow> j < n \<Longrightarrow>
    moved code tgts j < length (kept_before code tgts n) \<and> kept_before code tgts n ! moved code tgts j = j"
proof (induction n)
  case (Suc n)
  show ?case
  proof (cases "j = n")
    case True
    with Suc.prems(1) show ?thesis by (simp add: kept_before_Suc moved_def)
  next
    case False
    with Suc show ?thesis by (simp add: kept_before_Suc nth_append)
  qed
qed simp

lemma useless_push_next: "useless_push code tgts i \<Longrightarrow> \<not> useless_push code tgts (Suc i)"
  by (auto simp: useless_push_def split: instr.splits)

text \<open>Nothing before an index is dropped exactly when the index keeps its address.\<close>

lemma moved_same: "moved code tgts f = f \<longleftrightarrow> (\<forall>i < f. stays code tgts i)"
proof -
  have "moved code tgts f = f \<longleftrightarrow> length (filter (stays code tgts) [0..<f]) = length [0..<f]"
    by (simp add: moved_def kept_before_def)
  also have "\<dots> \<longleftrightarrow> filter (stays code tgts) [0..<f] = [0..<f]" by (metis filter_True length_filter_less linorder_less_linear nless_le filter_id_conv)
  finally show ?thesis by (auto simp: filter_id_conv)
qed

definition dropped_so_far :: "instr list \<Rightarrow> nat option set \<Rightarrow> nat \<Rightarrow> compaction \<Rightarrow> bool" where
  "dropped_so_far code tgts i k \<longleftrightarrow> k_code k = map (nth code) (kept_before code tgts i) \<and>
     (\<forall>j. k_map k j = (if j < i \<and> stays code tgts j then Some (moved code tgts j) else None))"

lemma useless_loop_drops:
  "useless_loop code locs tgts i k = Inr k' \<Longrightarrow> dropped_so_far code tgts i k \<Longrightarrow>
   \<not> (0 < i \<and> useless_push code tgts (i - 1)) \<Longrightarrow> i \<le> length code \<Longrightarrow> dropped_so_far code tgts (length code) k'"
proof (induction code locs tgts i k rule: useless_loop.induct)
  case (1 code locs tgts i k)
  note step = useless_loop.simps[of code locs tgts i k]
  show ?case
  proof (cases "i < length code")
    case False
    with "1.prems" show ?thesis by (subst (asm) (1) step) simp
  next
    case i: True
    show ?thesis
    proof (cases "useless_push code tgts i")
      case True
      then have out: "\<not> stays code tgts i" "\<not> stays code tgts (Suc i)" "i + 2 \<le> length code"
        by (auto simp: stays_def useless_push_def)
      have "dropped_so_far code tgts (i + 2) (k\<lparr>k_changed := True\<rparr>)"
        using "1.prems"(2) out(1,2) by (auto simp: dropped_so_far_def kept_before_Suc numeral_2_eq_2 less_Suc_eq)
      moreover have "useless_loop code locs tgts (i + 2) (k\<lparr>k_changed := True\<rparr>) = Inr k'"
        using "1.prems"(1) i True by (subst (asm) step) simp
      ultimately show ?thesis using "1.IH"(1)[OF i True] out(3) useless_push_next[OF True] by simp
    next
      case False
      with "1.prems"(3) have s: "stays code tgts i" by (simp add: stays_def)
      obtain l where l: "loc_at locs i = Inr l" "useless_loop code locs tgts (i + 1) (keep i (code ! i) l k) = Inr k'"
        using "1.prems"(1) i False by (subst (asm) step) (auto simp: bindE_Inr_iff)
      have "dropped_so_far code tgts (i + 1) (keep i (code ! i) l k)"
        using "1.prems"(2) s by (auto simp: dropped_so_far_def keep_def kept_before_Suc moved_def less_Suc_eq)
      with "1.IH"(2)[OF i False l(1) l(2)] False i show ?thesis by simp
    qed
  qed
qed

text \<open>What the pass does, in full.\<close>

definition useless_result :: "instr list \<Rightarrow> nat option set \<Rightarrow> instr list" where
  "useless_result code tgts =
     map (\<lambda>j. remapped (\<lambda>a. Some (moved code tgts a)) (code ! j)) (kept_before code tgts (length code))"

lemma stays_target: "j < length code \<Longrightarrow> first_target (code ! j) \<noteq> None \<Longrightarrow> stays code tgts j"
  by (cases j) (auto simp: stays_def useless_push_def split: instr.splits)

lemma remapped_cong: "(\<And>t. first_target i = Some (Some t) \<Longrightarrow> m t = m' t) \<Longrightarrow> remapped m i = remapped m' i"
  by (auto simp: remapped_def split: option.splits)

lemma remove_useless_exact:
  fixes code :: "instr list"
  defines "tgts \<equiv> collect_jump_targets code"
  assumes "opt_closed code locs"
  shows "case remove_useless_stack_ops code fns locs tgts of
      Inl e \<Rightarrow> \<exists>i. e = KeyErr (Some i) \<and> useless_push code tgts i \<and> Some i \<in> tgts
    | Inr (code', r) \<Rightarrow> (\<forall>i. useless_push code tgts i \<longrightarrow> Some i \<notin> tgts) \<and> code' = useless_result code tgts"
proof -
  have len: "length locs = length code" using assms(2) by (simp add: opt_closed_def)
  obtain k where k: "useless_loop code locs tgts 0 empty_compaction = Inr k"
    using useless_loop_compacting[OF len compacting_empty, of tgts] by (auto simp: counts_def empty_compaction_def)
  have d: "dropped_so_far code tgts (length code) k"
    by (rule useless_loop_drops[OF k]) (simp_all add: dropped_so_far_def empty_compaction_def kept_before_def)
  have kc: "k_code k = map (nth code) (kept_before code tgts (length code))"
    and km: "k_map k a = (if a < length code \<and> stays code tgts a then Some (moved code tgts a) else None)" for a
    using d by (simp_all add: dropped_so_far_def)
  have r: "remove_useless_stack_ops code fns locs tgts = finish_compaction fns k"
    using k by (simp add: remove_useless_stack_ops_def)
  have target: "\<exists>i \<in> set (k_code k). first_target i = Some (Some a)" if "Some a \<in> tgts" for a
  proof -
    from that obtain j where "j < length code" "first_target (code ! j) = Some (Some a)"
      by (auto simp: tgts_def collect_jump_targets_eq in_set_conv_nth)
    with stays_target[of j code tgts] show ?thesis by (auto simp: kc kept_before_def intro!: bexI[of _ "code ! j"])
  qed
  have in_tgts: "t \<in> tgts \<and> (\<exists>a < length code. t = Some a)" if "i \<in> set (k_code k)" "first_target i = Some t" for i t
  proof -
    from that(1) have "i \<in> set code" by (auto simp: kc kept_before_def)
    with that(2) opt_closedD[OF assms(2) this that(2)] show ?thesis by (force simp: tgts_def collect_jump_targets_eq)
  qed
  have useless: "useless_push code tgts a" if "a < length code" "k_map k a = None" "Some a \<in> tgts" for a
    using that km[of a] by (cases a) (auto simp: stays_def useless_push_def split: if_splits)
  show ?thesis
  proof (cases "remap_compacted (k_code k) fns (k_locs k) (k_map k)")
    case (Inl e)
    then obtain x where x: "x \<in> set (k_code k)" "remap_instruction (k_map k) x = Inl e"
      by (auto simp: remap_compacted_def bindE_Inl_iff dest: map_err_error)
    then obtain t where t: "first_target x = Some t" by (auto simp: remap_instruction_def split: option.splits)
    obtain a where a: "t = Some a" "a < length code" "Some a \<in> tgts" using in_tgts[OF x(1) t] by auto
    with x(2) t have "k_map k a = None" "e = KeyErr (Some a)" by (auto simp: remap_instruction_def split: option.splits)
    with useless[OF a(2)] a(3) Inl show ?thesis by (auto simp: r finish_compaction_def)
  next
    case (Inr q)
    have ok: "\<exists>b. t = Some b \<and> k_map k b \<noteq> None" if "i \<in> set (k_code k)" "first_target i = Some t" for i t
      by (rule remap_compacted_Inr[OF Inr that])
    have "remap_instruction (k_map k) i = Inr (remapped (k_map k) i)" if "i \<in> set (k_code k)" for i
      by (rule remap_instruction_ok) (rule ok[OF that])
    then have m: "map_err (remap_instruction (k_map k)) (k_code k) = Inr (map (remapped (k_map k)) (k_code k))"
      by (rule map_err_Inr)
    have "remapped (k_map k) i = remapped (\<lambda>a. Some (moved code tgts a)) i" if "i \<in> set (k_code k)" for i
      using ok[OF that] by (intro remapped_cong) (auto simp: km split: if_splits)
    then have "map (remapped (k_map k)) (k_code k) = useless_result code tgts"
      by (simp add: useless_result_def kc)
    moreover have "Some i \<notin> tgts" if "useless_push code tgts i" for i
    proof
      assume "Some i \<in> tgts"
      with target ok have "k_map k i \<noteq> None" by blast
      with that show False by (auto simp: km stays_def split: if_splits)
    qed
    ultimately show ?thesis using m by (simp add: r finish_compaction_def remap_compacted_def)
  qed
qed

lemma kept_before_length: "length (useless_result code tgts) = moved code tgts (length code)"
  by (simp add: useless_result_def moved_def)

lemma useless_result_nth:
  assumes "j < length code" and "stays code tgts j"
  shows "moved code tgts j < length (useless_result code tgts) \<and>
    useless_result code tgts ! moved code tgts j = (case first_target (code ! j) of
        Some (Some t) \<Rightarrow> with_target (code ! j) (moved code tgts t)
      | _ \<Rightarrow> code ! j)"
  using kept_before_nth[OF assms(2,1)] by (simp add: useless_result_def remapped_def split: option.split)

lemma moved_le: "moved code tgts f \<le> f"
  using length_filter_le[of "stays code tgts" "[0..<f]"] by (simp add: moved_def kept_before_def)

text \<open>Where no useless push is a target, every target stays: a popping \<^verbatim>\<open>POP\<close> is never one.\<close>

lemma useless_target_stays:
  assumes "\<forall>i. useless_push code (collect_jump_targets code) i \<longrightarrow> Some i \<notin> collect_jump_targets code"
    and "j \<in> set code" and "first_target j = Some (Some t)"
  shows "stays code (collect_jump_targets code) t"
proof -
  have "Some t \<in> collect_jump_targets code" using assms(2,3) by (force simp: collect_jump_targets_eq)
  with assms(1) show ?thesis by (cases t) (auto simp: stays_def useless_push_def)
qed

end
