(* ===== verification/Nodus_Ast.thy ===== *)
theory Nodus_Ast
  imports Py_Float
begin

text \<open>
  The abstract syntax, \<^verbatim>\<open>src/nodus/frontend/ast/ast_nodes.py\<close>. Every node carries the
  metadata of \<^verbatim>\<open>Base\<close>: the line and column of its token and its module, each of which may be
  missing. Names that clash with HOL carry a suffix (\<open>LetS\<close>, \<open>IfS\<close>, \<open>NilE\<close>, \<open>IntE\<close>).
  A workflow or goal declaration enters as \<open>FlowDef\<close>, its name and the map expression the
  workflow lowering makes of it.
\<close>

datatype meta = Meta (m_tok: "(nat \<times> nat) option") (m_module: "pystr option")

definition no_meta :: meta where
  "no_meta = Meta None None"

datatype pattern =
    VarPattern meta pystr
  | ListPattern meta "pattern list"
  | RecordPattern meta "(pystr \<times> pattern) list"

datatype param = Param (param_meta: meta) (param_name: pystr) (type_hint: "pystr option")

datatype expr =
    Num meta pyfloat "pystr option"
  | IntE meta int "pystr option"
  | BoolE meta bool
  | Str meta pystr
  | InterpolatedString meta "interp_part list"
  | NilE meta
  | Var meta pystr
  | Unary meta pystr expr
  | Bin meta pystr expr expr
  | Assign meta pystr expr
  | CompoundAssign meta pystr pystr expr
  | ListLit meta "expr list"
  | MapLit meta "(expr \<times> expr) list"
  | RecordLiteral meta "(pystr \<times> expr) list"
  | Index meta expr expr
  | IndexAssign meta expr expr expr
  | Attr meta expr pystr
  | FieldAssign meta expr pystr expr
  | Call meta expr "expr list"
  | Match meta expr "match_arm list"
  | FnExpr meta "param list" stmt "pystr option" "pystr option"
and interp_part =
    StringLiteralPart pystr
  | InterpolationPart expr
and match_arm = MatchArm "expr option" arm_body
and arm_body = BodyExpr expr | BodyStmt stmt
and stmt =
    LetS meta pystr expr "pystr option" bool
  | DestructureLet meta pattern expr
  | FlowDef meta pystr expr
  | Print meta expr
  | ExprStmt meta expr
  | CheckpointStmt meta expr
  | Block meta "stmt list"
  | IfS meta expr stmt "stmt option"
  | While meta expr stmt
  | For meta "stmt option" "expr option" "expr option" stmt
  | ForEach meta pystr expr stmt
  | Break meta
  | Continue meta
  | Return meta "expr option"
  | Yield meta "expr option"
  | TryCatch meta stmt "pystr option" "stmt option" "stmt option"
  | Throw meta expr
  | Import meta pystr "pystr option" "pystr list option"
  | Comment meta pystr
  | ModuleAlias meta pystr "(pystr \<times> pystr) list"
  | FnDef meta pystr "param list" stmt "pystr option" bool "annotation list" "pystr option"
  | ExportList meta "pystr list"
  | ExportFrom meta "pystr list" pystr
  | ExternDecl meta pystr "param list" "pystr option"
and annotation = Annotation meta pystr "(pystr \<times> expr) list option"

section \<open>Helpers of the syntax module\<close>

definition BUILTIN_CALL_PREFIX :: pystr where
  "BUILTIN_CALL_PREFIX = py ''__nodus_builtin__''"

text \<open>\<^verbatim>\<open>builtin_call\<close>: the call a lowering emits to reach a builtin.\<close>

definition builtin_call :: "pystr \<Rightarrow> expr list \<Rightarrow> expr" where
  "builtin_call name args = Call no_meta (Var no_meta (BUILTIN_CALL_PREFIX @ name)) args"

fun declared_flow_name :: "stmt \<Rightarrow> pystr option" where
  "declared_flow_name (FlowDef m name e) = Some name"
| "declared_flow_name _ = None"

fun pattern_names :: "pattern \<Rightarrow> pystr list" where
  "pattern_names (VarPattern m name) = [name]"
| "pattern_names (ListPattern m elements) = concat (map pattern_names elements)"
| "pattern_names (RecordPattern m fields) = concat (map (\<lambda>kv. pattern_names (snd kv)) fields)"

primrec stmt_meta :: "stmt \<Rightarrow> meta" where
  "stmt_meta (LetS m _ _ _ _) = m"
| "stmt_meta (DestructureLet m _ _) = m"
| "stmt_meta (FlowDef m _ _) = m"
| "stmt_meta (Print m _) = m"
| "stmt_meta (ExprStmt m _) = m"
| "stmt_meta (CheckpointStmt m _) = m"
| "stmt_meta (Block m _) = m"
| "stmt_meta (IfS m _ _ _) = m"
| "stmt_meta (While m _ _) = m"
| "stmt_meta (For m _ _ _ _) = m"
| "stmt_meta (ForEach m _ _ _) = m"
| "stmt_meta (Break m) = m"
| "stmt_meta (Continue m) = m"
| "stmt_meta (Return m _) = m"
| "stmt_meta (Yield m _) = m"
| "stmt_meta (TryCatch m _ _ _ _) = m"
| "stmt_meta (Throw m _) = m"
| "stmt_meta (Import m _ _ _) = m"
| "stmt_meta (Comment m _) = m"
| "stmt_meta (ModuleAlias m _ _) = m"
| "stmt_meta (FnDef m _ _ _ _ _ _ _) = m"
| "stmt_meta (ExportList m _) = m"
| "stmt_meta (ExportFrom m _ _) = m"
| "stmt_meta (ExternDecl m _ _ _) = m"

end
