(* ===== verification/Compiler_State.thy ===== *)
theory Compiler_State
  imports Bytecode Nodus_Ast "HOL-Library.List_Lexorder"
begin

text \<open>
  The state of \<^verbatim>\<open>Compiler\<close> in \<^verbatim>\<open>src/nodus/compiler/compiler.py\<close> and the methods that only read
  or extend it: emitting and patching instructions, locations, temporaries, loop frames and the
  resolution of names. \<^verbatim>\<open>self.symbols\<close> is the key of the current table; the key \<open>None\<close> is the
  table that \<^verbatim>\<open>compile_fn_def\<close> creates when no module is set.
\<close>

section \<open>State\<close>

record module_info =
  mi_path :: pystr
  mi_defs :: "pystr set"
  mi_imports :: "pystr \<rightharpoonup> pystr"
  mi_qualified :: "pystr \<rightharpoonup> pystr"

record loop_frame =
  lf_breaks :: "nat list"
  lf_continues :: "nat list"
  lf_break_pops :: bool
  lf_try_depth :: nat

record comp =
  code :: "instr list"
  code_locs :: "loc list"
  c_functions :: "(pystr \<times> function_info) list"
  current_loc :: loc
  module_aliases :: "pystr \<Rightarrow> pystr \<Rightarrow> (pystr \<rightharpoonup> pystr) option"
  module_infos :: "pystr \<rightharpoonup> module_info"
  module_defs_index :: "pystr \<rightharpoonup> pystr set"
  builtin_names :: "pystr set"
  current_module :: "pystr option"
  symbol_tables :: "pystr option \<rightharpoonup> symtab"
  symbols :: "pystr option option"
  fn_counter :: nat
  temp_counter :: nat
  loop_stack :: "loop_frame list"
  try_depth :: nat

datatype cerr =
    SyntaxErr pystr "(nat \<times> nat) option" "pystr option"
  | AssertionErr pystr
  | ValueErr pystr
  | TypeErr pystr
  | PyIndexErr
  | OverflowErr

type_synonym caction = "(cerr, comp) action"

definition new_compiler ::
  "(pystr \<rightharpoonup> module_info) \<Rightarrow> (pystr \<rightharpoonup> pystr set) \<Rightarrow> pystr set \<Rightarrow> comp" where
  "new_compiler infos defs_index builtins =
     \<lparr>code = [], code_locs = [], c_functions = [], current_loc = (None, None),
      module_aliases = (\<lambda>_ _. None), module_infos = infos, module_defs_index = defs_index,
      builtin_names = builtins, current_module = None, symbol_tables = Map.empty, symbols = None,
      fn_counter = 0, temp_counter = 0, loop_stack = [], try_depth = 0\<rparr>"

section \<open>Emitting and patching\<close>

definition emit :: "instr \<Rightarrow> comp \<Rightarrow> comp" where
  "emit i s = s\<lparr>code := code s @ [i], code_locs := code_locs s @ [current_loc s]\<rparr>"

definition emitA :: "instr \<Rightarrow> caction" where
  "emitA i s = Inr (emit i s)"

text \<open>\<^verbatim>\<open>idx = self.emit(...)\<close> followed by code that uses \<open>idx\<close>, and code that uses
  \<^verbatim>\<open>len(self.code)\<close>.\<close>

definition emit_idx :: "instr \<Rightarrow> (nat \<Rightarrow> caction) \<Rightarrow> caction" where
  "emit_idx i k s = k (length (code s)) (emit i s)"

definition here :: "(nat \<Rightarrow> caction) \<Rightarrow> caction" where
  "here k s = k (length (code s)) s"

definition patchA :: "nat \<Rightarrow> instr \<Rightarrow> caction" where
  "patchA i ins s = (if i < length (code s) then Inr (s\<lparr>code := (code s)[i := ins]\<rparr>) else Inl PyIndexErr)"

section \<open>Modules, locations, errors\<close>

definition cur_table :: "comp \<Rightarrow> symtab option" where
  "cur_table s = (case symbols s of None \<Rightarrow> None | Some k \<Rightarrow> symbol_tables s k)"

definition set_table :: "symtab \<Rightarrow> comp \<Rightarrow> comp" where
  "set_table st s = (case symbols s of None \<Rightarrow> s
     | Some k \<Rightarrow> s\<lparr>symbol_tables := (symbol_tables s)(k \<mapsto> st)\<rparr>)"

text \<open>\<^verbatim>\<open>if self.symbols is not None: self.symbols.f(...)\<close>\<close>

definition on_symbols :: "(symtab \<Rightarrow> symtab) \<Rightarrow> caction" where
  "on_symbols f s = Inr (case cur_table s of None \<Rightarrow> s | Some st \<Rightarrow> set_table (f st) s)"

definition set_current_module :: "meta \<Rightarrow> caction" where
  "set_current_module m s = Inr (case m_module m of
      None \<Rightarrow> s
    | Some md \<Rightarrow> s\<lparr>current_module := Some md,
        symbol_tables := (case symbol_tables s (Some md) of
            None \<Rightarrow> (symbol_tables s)(Some md \<mapsto> new_symtab)
          | Some _ \<Rightarrow> symbol_tables s),
        symbols := Some (Some md)\<rparr>)"

definition set_current_loc :: "meta \<Rightarrow> caction" where
  "set_current_loc m s = Inr (case m_tok m of
      None \<Rightarrow> s
    | Some lc \<Rightarrow> s\<lparr>current_loc := (current_module s, Some lc)\<rparr>)"

definition raise_syntax :: "pystr \<Rightarrow> meta \<Rightarrow> caction" where
  "raise_syntax msg m s =
     Inl (SyntaxErr msg (case m_tok m of None \<Rightarrow> snd (current_loc s) | Some lc \<Rightarrow> Some lc)
            (current_module s))"

definition current_module_info :: "comp \<Rightarrow> module_info option" where
  "current_module_info s = (case current_module s of None \<Rightarrow> None | Some md \<Rightarrow> module_infos s md)"

definition in_function_scope :: "comp \<Rightarrow> bool" where
  "in_function_scope s = (case cur_table s of None \<Rightarrow> False | Some st \<Rightarrow> in_function st)"

definition in_nested_scope :: "comp \<Rightarrow> bool" where
  "in_nested_scope s = (case cur_table s of None \<Rightarrow> False | Some st \<Rightarrow> in_nested st)"

definition module_key :: "comp \<Rightarrow> pystr" where
  "module_key s = (case current_module s of None \<Rightarrow> [] | Some md \<Rightarrow> md)"

section \<open>Names\<close>

definition quote_mark :: pystr where
  "quote_mark = [39]"

definition resolve_symbol :: "pystr \<Rightarrow> comp \<Rightarrow> symbol option \<times> comp" where
  "resolve_symbol name s = (case cur_table s of
      None \<Rightarrow> (None, s)
    | Some st \<Rightarrow> (case resolve name st of (r, st') \<Rightarrow> (r, set_table st' s)))"

text \<open>\<^verbatim>\<open>symbol = self.resolve_symbol(name)\<close> followed by code that uses \<open>symbol\<close>.\<close>

definition resolving :: "pystr \<Rightarrow> (symbol option \<Rightarrow> caction) \<Rightarrow> caction" where
  "resolving name k s = (case resolve_symbol name s of (r, s') \<Rightarrow> k r s')"

definition reject_reserved_name :: "pystr \<Rightarrow> meta \<Rightarrow> caction" where
  "reject_reserved_name name m s =
     (if starts_with name BUILTIN_CALL_PREFIX
      then raise_syntax (quote_mark @ name @ quote_mark @ py '' is reserved: names beginning with '' @
             quote_mark @ BUILTIN_CALL_PREFIX @ quote_mark @
             py '' belong to the compiler and cannot be defined.'') m s
      else Inr s)"

definition resolve_module_name :: "pystr \<Rightarrow> pystr \<Rightarrow> meta \<Rightarrow> (pystr \<Rightarrow> caction) \<Rightarrow> caction" where
  "resolve_module_name al name m k s =
     (case module_aliases s (module_key s) al of
        None \<Rightarrow> raise_syntax (py ''Unknown module alias: '' @ al) m s
      | Some exports \<Rightarrow>
          (case exports name of
             None \<Rightarrow> raise_syntax (py ''Module '' @ quote_mark @ al @ quote_mark @
                       py '' has no member '' @ quote_mark @ name @ quote_mark) m s
           | Some q \<Rightarrow> k q s))"

text \<open>The two last checks of \<^verbatim>\<open>ensure_name_access\<close>: a name that some scope of the module
  declares but that is not visible here.\<close>

definition check_not_hidden :: "pystr \<Rightarrow> meta \<Rightarrow> caction" where
  "check_not_hidden name m s = (case cur_table s of
      None \<Rightarrow> Inr s
    | Some st \<Rightarrow>
        (if \<not> is_defined_anywhere name st then Inr s
         else if is_uncapturable_top_level_local name st
         then raise_syntax (py ''Cannot capture '' @ quote_mark @ name @ quote_mark @
                py '': it is declared inside a top-level loop or block body, which a closure cannot capture from. Move the loop into a function, or declare '' @
                quote_mark @ name @ quote_mark @ py '' at module top level.'') m s
         else raise_syntax (py ''Undefined variable: '' @ name) m s))"

definition ensure_name_access :: "pystr \<Rightarrow> meta \<Rightarrow> caction" where
  "ensure_name_access name m =
     (if starts_with name BUILTIN_CALL_PREFIX then skipE
      else resolving name (\<lambda>symbol s.
        if symbol \<noteq> None then Inr s
        else case current_module_info s of
            None \<Rightarrow> Inr s
          | Some info \<Rightarrow>
             (if current_module s = Some (py ''<repl>'') then Inr s
              else if name \<in> mi_defs info \<and>
                (case cur_table s of None \<Rightarrow> True | Some st \<Rightarrow> is_defined_in_module name st) then Inr s
              else if mi_imports info name \<noteq> None then Inr s
              else if name \<in> builtin_names s then Inr s
              else case module_defs_index s name of
                  None \<Rightarrow> check_not_hidden name m s
                | Some owners \<Rightarrow>
                   (if mi_path info \<notin> owners
                    then raise_syntax (py ''Symbol '' @ quote_mark @ name @ quote_mark @
                           py '' is private to module(s): '' @
                           join_str (py '', '') (sorted_list_of_set owners) @
                           py ''. Import it to use it here.'') m s
                    else check_not_hidden name m s))))"

definition is_slot_symbol :: "symbol option \<Rightarrow> bool" where
  "is_slot_symbol sy \<longleftrightarrow> (case sy of None \<Rightarrow> False
     | Some y \<Rightarrow> sym_scope y = Local \<or> sym_scope y = UpvalueSym)"

definition resolve_name :: "pystr \<Rightarrow> (pystr \<Rightarrow> caction) \<Rightarrow> caction" where
  "resolve_name name k = resolving name (\<lambda>symbol s.
     if is_slot_symbol symbol then k name s
     else case current_module_info s of
         None \<Rightarrow> k name s
       | Some info \<Rightarrow>
           (case mi_imports info name of
              Some q \<Rightarrow> k q s
            | None \<Rightarrow> (case mi_qualified info name of Some q \<Rightarrow> k q s | None \<Rightarrow> k name s)))"

definition resolve_store_name :: "pystr \<Rightarrow> (pystr \<Rightarrow> caction) \<Rightarrow> caction" where
  "resolve_store_name name k = resolving name (\<lambda>symbol s.
     if is_slot_symbol symbol then k name s
     else case current_module_info s of
         None \<Rightarrow> k name s
       | Some info \<Rightarrow> (case mi_qualified info name of Some q \<Rightarrow> k q s | None \<Rightarrow> k name s))"

definition resolve_def_name :: "pystr \<Rightarrow> comp \<Rightarrow> pystr" where
  "resolve_def_name name s = (case current_module_info s of
      None \<Rightarrow> name
    | Some info \<Rightarrow> (case mi_qualified info name of Some q \<Rightarrow> q | None \<Rightarrow> name))"

text \<open>The guard that decides between a slot instruction and a named one: the symbol is a local of
  a function and has an index.\<close>

definition slot_of :: "symbol option \<Rightarrow> comp \<Rightarrow> nat option" where
  "slot_of symbol s = (case symbol of None \<Rightarrow> None
     | Some y \<Rightarrow> (if sym_scope y = Local \<and> in_function_scope s then sym_index y else None))"

definition emit_store :: "symbol option \<Rightarrow> pystr \<Rightarrow> caction" where
  "emit_store symbol name s =
     emitA (case slot_of symbol s of Some i \<Rightarrow> STORE_LOCAL_IDX i | None \<Rightarrow> STORE name) s"

definition emit_load :: "symbol option \<Rightarrow> pystr \<Rightarrow> caction" where
  "emit_load symbol name s =
     emitA (case slot_of symbol s of Some i \<Rightarrow> LOAD_LOCAL_IDX i | None \<Rightarrow> LOAD name) s"

section \<open>Temporaries\<close>

definition new_temp :: "(pystr \<Rightarrow> caction) \<Rightarrow> caction" where
  "new_temp k s = k (py ''__destruct'' @ str_nat (Suc (temp_counter s)))
                    (s\<lparr>temp_counter := Suc (temp_counter s)\<rparr>)"

definition store_temp :: "pystr \<Rightarrow> caction" where
  "store_temp name =
     seqs [on_symbols (sym_define name False), resolving name (\<lambda>symbol. emit_store symbol name)]"

definition load_temp :: "pystr \<Rightarrow> caction" where
  "load_temp name = resolving name (\<lambda>symbol. emit_load symbol name)"

section \<open>Loop frames\<close>

definition push_loop :: "bool \<Rightarrow> caction" where
  "push_loop pops s = Inr (s\<lparr>loop_stack :=
      \<lparr>lf_breaks = [], lf_continues = [], lf_break_pops = pops, lf_try_depth = try_depth s\<rparr> # loop_stack s\<rparr>)"

definition pop_loop :: "(loop_frame \<Rightarrow> caction) \<Rightarrow> caction" where
  "pop_loop k s = (case loop_stack s of
      [] \<Rightarrow> Inl PyIndexErr
    | f # fs \<Rightarrow> k f (s\<lparr>loop_stack := fs\<rparr>))"

definition patch_loop :: "loop_frame \<Rightarrow> nat \<Rightarrow> nat \<Rightarrow> caction" where
  "patch_loop f break_target continue_target =
     seqs (map (\<lambda>i. patchA i (JUMP (Some break_target))) (lf_breaks f) @
           map (\<lambda>i. patchA i (JUMP (Some continue_target))) (lf_continues f))"

definition add_break :: "nat \<Rightarrow> caction" where
  "add_break i s = (case loop_stack s of [] \<Rightarrow> Inl PyIndexErr
     | f # fs \<Rightarrow> Inr (s\<lparr>loop_stack := f\<lparr>lf_breaks := lf_breaks f @ [i]\<rparr> # fs\<rparr>))"

definition add_continue :: "nat \<Rightarrow> caction" where
  "add_continue i s = (case loop_stack s of [] \<Rightarrow> Inl PyIndexErr
     | f # fs \<Rightarrow> Inr (s\<lparr>loop_stack := f\<lparr>lf_continues := lf_continues f @ [i]\<rparr> # fs\<rparr>))"

definition compile_break :: "meta \<Rightarrow> bool \<Rightarrow> caction" where
  "compile_break m is_break s =
     (let kw = (if is_break then py ''break'' else py ''continue'')
      in case loop_stack s of
          [] \<Rightarrow> raise_syntax (quote_mark @ kw @ quote_mark @ py '' outside a loop'') m s
        | frame # _ \<Rightarrow>
            (if try_depth s > lf_try_depth frame
             then raise_syntax (quote_mark @ kw @ quote_mark @
                    py '' cannot cross a try/catch/finally boundary'') m s
             else if is_break
             then seqs [if lf_break_pops frame then emitA POP else skipE,
                        emit_idx (JUMP None) add_break] s
             else emit_idx (JUMP None) add_continue s))"

definition enter_try :: caction where
  "enter_try s = Inr (s\<lparr>try_depth := Suc (try_depth s)\<rparr>)"

definition leave_try :: caction where
  "leave_try s = Inr (s\<lparr>try_depth := try_depth s - 1\<rparr>)"

section \<open>Destructuring\<close>

definition push_index :: "nat \<Rightarrow> caction" where
  "push_index idx = (case float_of_int (int idx) of
      None \<Rightarrow> failE OverflowErr
    | Some f \<Rightarrow> emitA (PUSH_CONST (CFloat f)))"

fun destructure_from_stack :: "pattern \<Rightarrow> caction" where
  "destructure_from_stack (VarPattern m name) =
     resolving name (\<lambda>symbol. emit_store symbol name)"
| "destructure_from_stack (ListPattern m elements) =
     new_temp (\<lambda>temp. seqs [on_symbols (sym_define temp False),
       resolving temp (\<lambda>temp_symbol. seqs (emit_store temp_symbol temp #
         map (\<lambda>(idx, item). seqs [emit_load temp_symbol temp,
                push_index idx, emitA INDEX, item])
           (enumerate 0 (map destructure_from_stack elements))))])"
| "destructure_from_stack (RecordPattern m flds) =
     new_temp (\<lambda>temp. seqs [on_symbols (sym_define temp False),
       resolving temp (\<lambda>temp_symbol. seqs (emit_store temp_symbol temp #
         map (\<lambda>kv. seqs [emit_load temp_symbol temp, emitA (LOAD_FIELD (fst kv)),
                destructure_from_stack (snd kv)]) flds))])"

definition destructure_from_name :: "pattern \<Rightarrow> pystr \<Rightarrow> caction" where
  "destructure_from_name pat temp_name =
     seqs [resolving temp_name (\<lambda>symbol. emit_load symbol temp_name), destructure_from_stack pat]"

end
