(* ===== verification/Lowering.thy ===== *)
theory Lowering
  imports Compiler_State
begin

text \<open>
  The rewriting of annotated functions, \<^verbatim>\<open>_lower_retry\<close>, \<^verbatim>\<open>_lower_exactly_once\<close> and
  \<^verbatim>\<open>_lower_annotations\<close> of \<^verbatim>\<open>src/nodus/compiler/compiler.py\<close>, and the size of a syntax tree by
  which the compiler terminates: a lowered function is smaller than the annotated one it replaces.
\<close>

definition lower_retry :: "stmt \<Rightarrow> (pystr \<times> expr) list option \<Rightarrow> stmt" where
  "lower_retry st args = (case st of
      FnDef m name params body rt ex anns so \<Rightarrow>
        (let policy_items = map (\<lambda>kv. (Str no_meta (fst kv), snd kv)) (case args of None \<Rightarrow> [] | Some a \<Rightarrow> a);
             policy_map = MapLit no_meta policy_items;
             inner = FnExpr no_meta [] body None None;
             new_body = Block no_meta
               [Return no_meta (Some (builtin_call (py ''retry_call'') [inner, policy_map]))]
         in FnDef m name params new_body rt ex [] None)
    | _ \<Rightarrow> st)"

text \<open>The inner body of \<^verbatim>\<open>@exactly_once\<close>: a final expression statement becomes a return.\<close>

fun body_stmts :: "stmt \<Rightarrow> stmt list" where
  "body_stmts (Block m ss) = ss"
| "body_stmts s = [s]"

definition make_returnable :: "stmt list \<Rightarrow> stmt list" where
  "make_returnable ss = (if ss = [] then ss else case last ss of
      ExprStmt m e \<Rightarrow> butlast ss @ [Return no_meta (Some e)]
    | _ \<Rightarrow> ss)"

definition lower_exactly_once :: "stmt \<Rightarrow> stmt" where
  "lower_exactly_once st = (case st of
      FnDef m name params body rt ex anns so \<Rightarrow>
        (let str = Str no_meta; var = Var no_meta; attr = Attr no_meta;
             payload_map = MapLit no_meta (map (\<lambda>p. (str (param_name p), var (param_name p))) params);
             aid_call = builtin_call (py ''effect_action_id'') [str name, payload_map, str (py ''default'')];
             aid = var (py ''__nodus_aid''); st = var (py ''__nodus_st''); res = var (py ''__nodus_res'');
             done_guard = IfS no_meta (attr st (py ''done''))
               (Block no_meta [Return no_meta (Some (attr (attr st (py ''cached'')) (py ''result'')))]) None;
             returnable_body = Block no_meta (make_returnable (body_stmts body));
             inner_call = Call no_meta (FnExpr no_meta [] returnable_body None None) [];
             new_body = Block no_meta
               [LetS no_meta (py ''__nodus_aid'') aid_call None False,
                LetS no_meta (py ''__nodus_st'') (builtin_call (py ''effect_resolve'') [aid]) None False,
                done_guard,
                ExprStmt no_meta (builtin_call (py ''effect_pending'') [aid, str []]),
                LetS no_meta (py ''__nodus_res'') inner_call None False,
                ExprStmt no_meta (builtin_call (py ''effect_complete'')
                  [aid, str (py ''success''), MapLit no_meta [(str (py ''result''), res)]]),
                Return no_meta (Some res)]
         in FnDef m name params new_body rt ex [] None)
    | _ \<Rightarrow> st)"

text \<open>The loop over the annotations: \<open>Inl\<close> the name of an unknown one.\<close>

fun lower_each :: "annotation list \<Rightarrow> stmt \<Rightarrow> pystr + stmt" where
  "lower_each [] st = Inr st"
| "lower_each (Annotation am an args # anns) st =
     (if an = py ''retry'' then lower_each anns (lower_retry st args)
      else if an = py ''exactly_once'' then lower_each anns (lower_exactly_once st)
      else Inl an)"

definition strip_annotations :: "stmt \<Rightarrow> stmt" where
  "strip_annotations st = (case st of
      FnDef m name params body rt ex anns so \<Rightarrow> FnDef m name params body rt ex [] None
    | _ \<Rightarrow> st)"

definition lower_annotations :: "annotation list \<Rightarrow> stmt \<Rightarrow> pystr + stmt" where
  "lower_annotations anns st = (case lower_each anns st of
      Inl an \<Rightarrow> Inl an
    | Inr st' \<Rightarrow> Inr (strip_annotations st'))"

section \<open>Size of a tree\<close>

abbreviation osum :: "nat option \<Rightarrow> nat" where
  "osum x \<equiv> (case x of None \<Rightarrow> 0 | Some n \<Rightarrow> n)"

primrec esz :: "expr \<Rightarrow> nat" and psz :: "interp_part \<Rightarrow> nat" and asz :: "match_arm \<Rightarrow> nat"
  and bsz :: "arm_body \<Rightarrow> nat" and ssz :: "stmt \<Rightarrow> nat" and nsz :: "annotation \<Rightarrow> nat \<Rightarrow> nat" where
  "esz (Num m f u) = 1"
| "esz (IntE m i u) = 1"
| "esz (BoolE m b) = 1"
| "esz (Str m s) = 1"
| "esz (InterpolatedString m ps) = 1 + sum_list (map psz ps)"
| "esz (NilE m) = 1"
| "esz (Var m n) = 1"
| "esz (Unary m op e) = 1 + esz e"
| "esz (Bin m op a b) = 1 + esz a + esz b"
| "esz (Assign m n e) = 1 + esz e"
| "esz (CompoundAssign m n op e) = 5 + esz e"
| "esz (ListLit m es) = 1 + sum_list (map esz es)"
| "esz (MapLit m kvs) = 1 + sum_list (map (\<lambda>p. fst p + snd p) (map (map_prod esz esz) kvs))"
| "esz (RecordLiteral m kvs) = 1 + sum_list (map snd (map (map_prod id esz) kvs))"
| "esz (Index m a i) = 1 + esz a + esz i"
| "esz (IndexAssign m a i v) = 1 + esz a + esz i + esz v"
| "esz (Attr m e n) = 1 + esz e"
| "esz (FieldAssign m e n v) = 1 + esz e + esz v"
| "esz (Call m f es) = 1 + esz f + sum_list (map esz es)"
| "esz (Match m e arms) = 2 + esz e + sum_list (map asz arms)"
| "esz (FnExpr m ps b rt so) = 3 + ssz b"
| "psz (StringLiteralPart s) = 1"
| "psz (InterpolationPart e) = 1 + esz e"
| "asz (MatchArm p b) = 1 + osum (map_option esz p) + bsz b"
| "bsz (BodyExpr e) = 1 + esz e"
| "bsz (BodyStmt s) = 1 + ssz s"
| "ssz (LetS m n e h ex) = 1 + esz e"
| "ssz (DestructureLet m p e) = 1 + esz e"
| "ssz (FlowDef m n e) = 1 + esz e"
| "ssz (Print m e) = 1 + esz e"
| "ssz (ExprStmt m e) = 2 + esz e"
| "ssz (CheckpointStmt m e) = 1 + esz e"
| "ssz (Block m ss) = 1 + sum_list (map ssz ss)"
| "ssz (IfS m c t e) = 1 + esz c + ssz t + osum (map_option ssz e)"
| "ssz (While m c b) = 1 + esz c + ssz b"
| "ssz (For m i c n b) = 2 + osum (map_option ssz i) + osum (map_option esz c) + osum (map_option esz n) + ssz b"
| "ssz (ForEach m n e b) = 1 + esz e + ssz b"
| "ssz (Break m) = 1"
| "ssz (Continue m) = 1"
| "ssz (Return m e) = 1 + osum (map_option esz e)"
| "ssz (Yield m e) = 1 + osum (map_option esz e)"
| "ssz (TryCatch m b v c f) = 9 + ssz b + osum (map_option ssz c) + osum (map_option ssz f)"
| "ssz (Throw m e) = 1 + esz e"
| "ssz (Import m p a n) = 1"
| "ssz (Comment m c) = 1"
| "ssz (ModuleAlias m a ex) = 1"
| "ssz (FnDef m n ps b rt ex anns so) = 2 + ssz b + sum_list (map (\<lambda>f. f (length ps)) (map nsz anns))"
| "ssz (ExportList m ns) = 1"
| "ssz (ExportFrom m ns p) = 1"
| "ssz (ExternDecl m n ps rt) = 1"
| "nsz (Annotation m n args) = (\<lambda>k. 60 + 2 * k + (case map_option (map (map_prod id esz)) args of
     None \<Rightarrow> 0 | Some kvs \<Rightarrow> sum_list (map (\<lambda>p. 1 + snd p) kvs)))"

lemma sum_snd_map_prod: "sum_list (map snd (map (map_prod id f) kvs)) = sum_list (map (\<lambda>kv. f (snd kv)) kvs)"
  by (induction kvs) auto

lemma sum_both_map_prod:
  "sum_list (map (\<lambda>p. fst p + snd p) (map (map_prod f g) kvs)) = sum_list (map (\<lambda>kv. f (fst kv) + g (snd kv)) kvs)"
  by (induction kvs) auto

lemma sum_list_split_last:
  "ss \<noteq> [] \<Longrightarrow> sum_list (map f ss) = sum_list (map f (butlast ss)) + (f (last ss) :: nat)"
  by (induction ss) auto

lemma ssz_make_returnable: "sum_list (map ssz (make_returnable ss)) \<le> sum_list (map ssz ss)"
  by (cases "ss = []")
    (auto simp: make_returnable_def sum_list_split_last[of ss ssz] split: stmt.split)

lemma ssz_body_stmts: "sum_list (map ssz (body_stmts b)) \<le> ssz b"
  by (cases b) simp_all

lemma lower_retry_shape:
  "\<exists>b'. lower_retry (FnDef m n ps b rt ex anns so) args = FnDef m n ps b' rt ex [] None \<and>
     ssz b' \<le> ssz b + nsz (Annotation am an args) (length ps)"
  by (cases args) (auto simp: lower_retry_def Let_def builtin_call_def o_def)

lemma lower_exactly_once_shape:
  "\<exists>b'. lower_exactly_once (FnDef m n ps b rt ex anns so) = FnDef m n ps b' rt ex [] None \<and>
     ssz b' \<le> ssz b + nsz (Annotation am an args) (length ps)"
  using ssz_make_returnable[of "body_stmts b"] ssz_body_stmts[of b]
  by (simp add: lower_exactly_once_def Let_def builtin_call_def o_def sum_list_triv)

lemma lower_each_shape:
  "lower_each anns (FnDef m n ps b rt ex anns' so) = Inr st \<Longrightarrow>
   \<exists>b' anns'' so'. st = FnDef m n ps b' rt ex anns'' so' \<and>
     ssz b' \<le> ssz b + sum_list (map (\<lambda>a. nsz a (length ps)) anns)"
proof (induction anns arbitrary: b anns' so)
  case Nil
  then show ?case by auto
next
  case (Cons a anns)
  obtain am an args where a: "a = Annotation am an args" by (cases a)
  let ?f = "FnDef m n ps b rt ex anns' so"
  have "lower_each anns (if an = py ''retry'' then lower_retry ?f args else lower_exactly_once ?f) = Inr st"
    using Cons.prems by (auto simp: a split: if_splits)
  moreover obtain b' where "(if an = py ''retry'' then lower_retry ?f args else lower_exactly_once ?f) =
      FnDef m n ps b' rt ex [] None" "ssz b' \<le> ssz b + nsz a (length ps)"
    unfolding a using lower_retry_shape[of m n ps b rt ex anns' so args am an]
      lower_exactly_once_shape[of m n ps b rt ex anns' so am an args] by metis
  ultimately show ?case using Cons.IH[of b' "[]" None] by fastforce
qed

lemma lower_annotations_shape:
  assumes "lower_annotations anns (FnDef m n ps b rt ex anns' so) = Inr st"
  shows "\<exists>b'. st = FnDef m n ps b' rt ex [] None \<and>
     ssz b' \<le> ssz b + sum_list (map (\<lambda>a. nsz a (length ps)) anns)"
  using assms lower_each_shape[of anns m n ps b rt ex anns' so]
  by (auto simp: lower_annotations_def strip_annotations_def split: sum.splits)

end
