(* ===== verification/Compiler.thy ===== *)
theory Compiler
  imports Lowering
begin

text \<open>
  Code generation, the rest of \<^verbatim>\<open>src/nodus/compiler/compiler.py\<close>: \<^verbatim>\<open>compile_expr\<close>,
  \<^verbatim>\<open>compile_stmt\<close>, \<^verbatim>\<open>compile_match\<close>, \<^verbatim>\<open>compile_fn_def\<close> and \<^verbatim>\<open>compile_program\<close>. Each is an action on
  the compiler's state; the recursion is on the syntax tree, and a node that the code rewrites
  before compiling it (a compound assignment, a try without catch, an annotated function) is
  rewritten here in the same way.
\<close>

definition visit :: "meta \<Rightarrow> caction" where
  "visit m = seqs [set_current_module m, set_current_loc m]"

definition predeclare_block :: "stmt list \<Rightarrow> caction" where
  "predeclare_block ss = on_symbols (\<lambda>st. fold (\<lambda>s st. case s of
      LetS m n e h x \<Rightarrow> sym_define n False st | _ \<Rightarrow> st) ss st)"

section \<open>Function definitions\<close>

definition update_function :: "pystr \<Rightarrow> (function_info \<Rightarrow> function_info) \<Rightarrow> comp \<Rightarrow> comp" where
  "update_function name f s =
     s\<lparr>c_functions := map (\<lambda>(n, i). (n, if n = name then f i else i)) (c_functions s)\<rparr>"

definition ensure_table :: caction where
  "ensure_table s = Inr (case symbols s of
      None \<Rightarrow> s\<lparr>symbol_tables := (symbol_tables s)(None \<mapsto> new_symtab), symbols := Some None\<rparr>
    | Some _ \<Rightarrow> s)"

text \<open>After the body: record the captured variables and the slots, patch \<^verbatim>\<open>FRAME_SIZE\<close>.\<close>

definition finish_function :: "pystr \<Rightarrow> nat \<Rightarrow> caction" where
  "finish_function fn_name frame_size_idx s = (case cur_table s of
      None \<Rightarrow> Inl (TypeErr (py ''symbols''))
    | Some st \<Rightarrow>
        (let s1 = update_function fn_name (\<lambda>i. i\<lparr>fi_upvalues := current_function_upvalues st\<rparr>) s
         in case current_function_scope st of
             None \<Rightarrow> Inr s1
           | Some sc \<Rightarrow>
               patchA frame_size_idx (FRAME_SIZE (sc_slots sc))
                 (update_function fn_name (\<lambda>i. i\<lparr>fi_local_slots := sc_all_slots sc\<rparr>) s1)))"

text \<open>The function under its final name, and the choice of that name; \<open>k\<close> is what the caller does with
  the name that is returned.\<close>

definition fn_def_named :: "meta \<Rightarrow> pystr \<Rightarrow> param list \<Rightarrow> caction \<Rightarrow> pystr option \<Rightarrow> pystr option \<Rightarrow> pystr \<Rightarrow>
    (pystr \<Rightarrow> caction) \<Rightarrow> caction" where
  "fn_def_named m name params body return_type step_owner fn_name k s =
     (if map_of (c_functions s) fn_name \<noteq> None
      then raise_syntax (py ''Function already defined: '' @ name) m s
      else seqs
        [okE (\<lambda>s. s\<lparr>c_functions := c_functions s @ [(fn_name,
            \<lparr>fi_name = fn_name, fi_params = map param_name params, fi_addr = length (code s),
             fi_upvalues = [], fi_display_name = name, fi_local_slots = Map.empty,
             fi_step_owner = step_owner, fi_param_types = map type_hint params,
             fi_return_type = return_type\<rparr>)]\<rparr>),
         ensure_table,
         on_symbols (enter_scope FunctionScope),
         on_symbols (fold (\<lambda>p. sym_define p False) (map param_name params)),
         emit_idx (FRAME_SIZE 0) (\<lambda>frame_size_idx. seqs
           [seqs (map (\<lambda>p. emitA (STORE_ARG p)) (rev (map param_name params))),
            body,
            finish_function fn_name frame_size_idx,
            on_symbols exit_scope,
            emitA (PUSH_CONST CNil),
            emitA RETURN,
            k fn_name])] s)"

definition fn_def_with :: "meta \<Rightarrow> pystr \<Rightarrow> param list \<Rightarrow> caction \<Rightarrow> pystr option \<Rightarrow> pystr option \<Rightarrow> bool \<Rightarrow>
    (pystr \<Rightarrow> caction) \<Rightarrow> caction" where
  "fn_def_with m name params body return_type step_owner is_nested k = seqs
     [visit m, reject_reserved_name name m,
      seqs (map (\<lambda>p. reject_reserved_name (param_name p) m) params),
      (\<lambda>s. if is_nested
           then fn_def_named m name params body return_type step_owner
             (resolve_def_name name s @ py ''__fn'' @ str_nat (Suc (fn_counter s))) k
             (s\<lparr>fn_counter := Suc (fn_counter s)\<rparr>)
           else fn_def_named m name params body return_type step_owner (resolve_def_name name s) k s)]"

section \<open>Pieces of expressions and statements\<close>

definition op_instr :: "pystr \<Rightarrow> instr option" where
  "op_instr op = map_of
     [(py ''+'', ADD), (py ''-'', SUB), (py ''*'', MUL), (py ''/'', DIV), (py ''%'', MOD),
      (py ''=='', EQ), (py ''!='', NE), (py ''<'', LT), (py ''>'', GT), (py ''<='', LE),
      (py ''>='', GE)] op"

definition no_slot_index :: "pystr \<Rightarrow> pystr \<Rightarrow> cerr" where
  "no_slot_index name rest = AssertionErr (py ''Internal compiler error: local symbol '' @
     quote_mark @ name @ quote_mark @ py '' has no slot index'' @ rest @ py '' Please file a bug.'')"

definition compile_var :: "meta \<Rightarrow> pystr \<Rightarrow> caction" where
  "compile_var m name = resolving name (\<lambda>symbol s.
     case symbol of
       Some y \<Rightarrow>
         (if sym_scope y = UpvalueSym then emitA (LOAD_UPVALUE (sym_index y)) s
          else if sym_scope y = Local \<and> in_function_scope s
          then (case sym_index y of
                  None \<Rightarrow> Inl (no_slot_index name (py ''. This indicates a missing slot assignment in SymbolTable.''))
                | Some i \<Rightarrow> emitA (LOAD_LOCAL_IDX i) s)
          else seqs [ensure_name_access name m, resolve_name name (\<lambda>n. emitA (LOAD n))] s)
     | None \<Rightarrow> seqs [ensure_name_access name m, resolve_name name (\<lambda>n. emitA (LOAD n))] s)"

text \<open>Assignment: \<open>value\<close> compiles the right-hand side.\<close>

definition assign_store :: "pystr \<Rightarrow> symbol option \<Rightarrow> caction" where
  "assign_store name symbol s = (case symbol of
      Some y \<Rightarrow>
        (if sym_scope y = UpvalueSym
         then seqs [emitA (STORE_UPVALUE (sym_index y)), emitA (LOAD_UPVALUE (sym_index y))] s
         else resolve_store_name name (\<lambda>store_name s.
           if sym_scope y = Local \<and> in_function_scope s
           then (case sym_index y of
                   None \<Rightarrow> Inl (no_slot_index name (py '' in Assign expression.''))
                 | Some i \<Rightarrow> seqs [emitA (STORE_LOCAL_IDX i), emitA (LOAD_LOCAL_IDX i)] s)
           else seqs [emitA (STORE store_name), emitA (LOAD store_name)] s) s)
    | None \<Rightarrow> resolve_store_name name (\<lambda>store_name.
        seqs [emitA (STORE store_name), emitA (LOAD store_name)]) s)"

definition assign_with :: "pystr \<Rightarrow> caction \<Rightarrow> caction" where
  "assign_with name value = resolving name (\<lambda>symbol s.
     if symbol = None \<and> cur_table s \<noteq> None
     then seqs [on_symbols (sym_define name False),
                resolving name (\<lambda>symbol. seqs [value, assign_store name symbol])] s
     else seqs [value, assign_store name symbol] s)"

definition bin_with :: "pystr \<Rightarrow> caction \<Rightarrow> caction \<Rightarrow> caction" where
  "bin_with op a b =
     (if op = py ''&&'' then seqs
        [a, emit_idx (JUMP_IF_FALSE None) (\<lambda>jmp_false. seqs
          [b, emitA TO_BOOL, emit_idx (JUMP None) (\<lambda>jmp_end. here (\<lambda>false_addr. seqs
            [emitA (PUSH_CONST (CBool False)), patchA jmp_false (JUMP_IF_FALSE (Some false_addr)),
             here (\<lambda>end_addr. patchA jmp_end (JUMP (Some end_addr)))]))])]
      else if op = py ''||'' then seqs
        [a, emit_idx (JUMP_IF_TRUE None) (\<lambda>jmp_true. seqs
          [b, emitA TO_BOOL, emit_idx (JUMP None) (\<lambda>jmp_end. here (\<lambda>true_addr. seqs
            [emitA (PUSH_CONST (CBool True)), patchA jmp_true (JUMP_IF_TRUE (Some true_addr)),
             here (\<lambda>end_addr. patchA jmp_end (JUMP (Some end_addr)))]))])]
      else seqs [a, b, (case op_instr op of
          None \<Rightarrow> failE (ValueErr (py ''Unknown operator: '' @ op))
        | Some i \<Rightarrow> emitA i)])"

definition unary_with :: "pystr \<Rightarrow> caction \<Rightarrow> caction" where
  "unary_with op e = seqs [e,
     if op = py ''!'' then emitA NOT
     else if op = py ''-'' then emitA NEG
     else failE (ValueErr (py ''Unknown unary operator: '' @ op))]"

text \<open>A call by name: \<open>args\<close> compiles the arguments, \<open>n\<close> is their number.\<close>

definition call_var :: "meta \<Rightarrow> pystr \<Rightarrow> caction \<Rightarrow> nat \<Rightarrow> caction" where
  "call_var m name args n = resolving name (\<lambda>symbol s.
     let direct = seqs [args, ensure_name_access name m, resolve_name name (\<lambda>q. emitA (CALL q n))]
     in case symbol of
         None \<Rightarrow> direct s
       | Some y \<Rightarrow>
          (if is_slot_symbol symbol \<or> (sym_scope y = Global \<and> \<not> sym_is_function y)
           then seqs
             [if sym_scope y = UpvalueSym then emitA (LOAD_UPVALUE (sym_index y))
              else if sym_scope y = Local \<and> in_function_scope s
              then (case sym_index y of
                  None \<Rightarrow> failE (no_slot_index name (py '' in Call expression.''))
                | Some i \<Rightarrow> emitA (LOAD_LOCAL_IDX i))
              else resolve_name name (\<lambda>q. emitA (LOAD q)),
              args, emitA (CALL_VALUE n)] s
           else direct s))"

definition is_alias :: "pystr \<Rightarrow> comp \<Rightarrow> bool" where
  "is_alias name s \<longleftrightarrow> module_aliases s (module_key s) name \<noteq> None"

definition patch_ends :: "nat list \<Rightarrow> caction" where
  "patch_ends js = here (\<lambda>end_addr. seqs (map (\<lambda>j. patchA j (JUMP (Some end_addr))) js))"

definition no_arm_matched :: pystr where
  "no_arm_matched = py ''match: no arm matched the value''"

definition let_with :: "meta \<Rightarrow> pystr \<Rightarrow> caction \<Rightarrow> caction" where
  "let_with m name value = seqs
     [reject_reserved_name name m, on_symbols (sym_define name False), value,
      resolving name (\<lambda>symbol s. case slot_of symbol s of
          Some i \<Rightarrow> seqs [emitA (RESET_LOCAL_IDX i), emitA (STORE_LOCAL_IDX i)] s
        | None \<Rightarrow> resolve_store_name name (\<lambda>n. emitA (STORE n)) s)]"

definition flow_with :: "pystr \<Rightarrow> caction \<Rightarrow> caction" where
  "flow_with name value = seqs
     [on_symbols (sym_define name False), value, resolve_store_name name (\<lambda>n. emitA (STORE n))]"

definition block_with :: "stmt list \<Rightarrow> caction list \<Rightarrow> caction" where
  "block_with ss body = seqs
     [on_symbols (enter_scope BlockScope), predeclare_block ss, seqs body, on_symbols exit_scope]"

definition if_with :: "caction \<Rightarrow> caction \<Rightarrow> caction option \<Rightarrow> caction" where
  "if_with c t e = seqs [c, emit_idx (JUMP_IF_FALSE None) (\<lambda>jmp_false. seqs [t, (case e of
      Some els \<Rightarrow> emit_idx (JUMP None) (\<lambda>jmp_end. seqs
        [here (\<lambda>a. patchA jmp_false (JUMP_IF_FALSE (Some a))), els,
         here (\<lambda>a. patchA jmp_end (JUMP (Some a)))])
    | None \<Rightarrow> here (\<lambda>a. patchA jmp_false (JUMP_IF_FALSE (Some a))))])]"

definition while_with :: "caction \<Rightarrow> caction \<Rightarrow> caction" where
  "while_with c body = here (\<lambda>loop_start. seqs [c, emit_idx (JUMP_IF_FALSE None) (\<lambda>jmp_false. seqs
     [push_loop False, body, pop_loop (\<lambda>frame. seqs
        [emitA (JUMP (Some loop_start)), here (\<lambda>end_addr. seqs
           [patchA jmp_false (JUMP_IF_FALSE (Some end_addr)),
            patch_loop frame end_addr loop_start])])])])"

definition for_with :: "caction \<Rightarrow> caction \<Rightarrow> caction \<Rightarrow> caction \<Rightarrow> caction" where
  "for_with init c inc body = seqs [on_symbols (enter_scope BlockScope), init,
     here (\<lambda>loop_start. seqs [c, emit_idx (JUMP_IF_FALSE None) (\<lambda>jmp_false. seqs
       [push_loop False, body, pop_loop (\<lambda>frame. here (\<lambda>continue_target. seqs
          [inc, emitA (JUMP (Some loop_start)), here (\<lambda>end_addr. seqs
             [patchA jmp_false (JUMP_IF_FALSE (Some end_addr)),
              patch_loop frame end_addr continue_target])]))])]),
     on_symbols exit_scope]"

definition foreach_with :: "pystr \<Rightarrow> caction \<Rightarrow> caction \<Rightarrow> caction" where
  "foreach_with name iterable body = seqs
     [on_symbols (enter_scope BlockScope), on_symbols (sym_define name False), iterable,
      emitA GET_ITER, here (\<lambda>loop_start. emit_idx (ITER_NEXT None) (\<lambda>iter_next. seqs
        [resolving name (\<lambda>symbol s. case slot_of symbol s of
             Some i \<Rightarrow> seqs [emitA (RESET_LOCAL_IDX i), emitA (STORE_LOCAL_IDX i)] s
           | None \<Rightarrow> emitA (STORE name) s),
         push_loop True, body, pop_loop (\<lambda>frame. seqs
           [emitA (JUMP (Some loop_start)), here (\<lambda>end_addr. seqs
             [patchA iter_next (ITER_NEXT (Some end_addr)),
              patch_loop frame end_addr loop_start])])])),
      on_symbols exit_scope]"

definition catch_with :: "pystr \<Rightarrow> caction \<Rightarrow> caction" where
  "catch_with var body = seqs
     [on_symbols (enter_scope BlockScope), on_symbols (sym_define var False),
      resolving var (\<lambda>symbol. emit_store symbol var), body, on_symbols exit_scope]"

definition try_with :: "caction \<Rightarrow> pystr \<Rightarrow> caction \<Rightarrow> caction option \<Rightarrow> caction" where
  "try_with body var catch_body finally_body = seqs [enter_try, (case finally_body of
      Some fin \<Rightarrow> emit_idx (SETUP_TRY None (Some None)) (\<lambda>setup_idx. seqs
        [body, emitA POP_TRY, here (\<lambda>handler_ip. seqs
          [patchA setup_idx (SETUP_TRY (Some handler_ip) (Some None)),
           catch_with var catch_body,
           emit_idx (JUMP None) (\<lambda>jmp_finally. here (\<lambda>finally_ip. seqs
             [patchA setup_idx (SETUP_TRY (Some handler_ip) (Some (Some finally_ip))),
              patchA jmp_finally (JUMP (Some finally_ip)), fin, emitA FINALLY_END]))])])
    | None \<Rightarrow> emit_idx (SETUP_TRY None None) (\<lambda>setup_idx. seqs
        [body, emitA POP_TRY, emit_idx (JUMP None) (\<lambda>jmp_end. here (\<lambda>handler_ip. seqs
          [patchA setup_idx (SETUP_TRY (Some handler_ip) None),
           catch_with var catch_body,
           here (\<lambda>a. patchA jmp_end (JUMP (Some a)))]))])), leave_try]"

definition set_alias :: "pystr \<Rightarrow> (pystr \<times> pystr) list \<Rightarrow> caction" where
  "set_alias al exports s = Inr (s\<lparr>module_aliases := (module_aliases s)
     (module_key s := (module_aliases s (module_key s))(al \<mapsto> map_of exports))\<rparr>)"

definition module_alias_with :: "pystr \<Rightarrow> (pystr \<times> pystr) list \<Rightarrow> caction" where
  "module_alias_with al exports = seqs
     [set_alias al exports,
      seqs (map (\<lambda>nq. seqs [emitA (PUSH_CONST (CStr (fst nq))), emitA (LOAD (snd nq))]) exports),
      emitA (BUILD_MODULE (length exports)), emitA (STORE al)]"

definition rethrow_var :: pystr where
  "rethrow_var = py ''__finally_rethrow''"

section \<open>Termination of the compiler\<close>

lemma sum_list_member_le: "x \<in> set xs \<Longrightarrow> (f x :: nat) \<le> sum_list (map f xs)"
  by (induction xs) auto

lemmas member_sizes = sum_list_member_le[of _ _ esz] sum_list_member_le[of _ _ psz]
  sum_list_member_le[of _ _ ssz] sum_list_member_le[of _ _ "esz \<circ> snd"]
  sum_list_member_le[of _ _ "(\<lambda>p. fst p + snd p) \<circ> map_prod esz esz"]

lemma ssz_butlast_last:
  "x \<in> set (butlast ss) \<Longrightarrow> ssz x \<le> sum_list (map ssz ss)"
  "ss \<noteq> [] \<Longrightarrow> ssz (last ss) \<le> sum_list (map ssz ss)"
  by (auto intro: sum_list_member_le dest: in_set_butlastD)

lemma lowered_smaller:
  assumes "lower_annotations anns (FnDef m n ps b rt ex anns' so) = Inr (FnDef m1 n1 ps1 b1 rt1 ex1 anns1 so1)"
  shows "ssz b1 \<le> ssz b + sum_list (map (\<lambda>a. nsz a (length ps)) anns)"
  using lower_annotations_shape[OF assms] by auto

definition compile_measure :: "(expr + interp_part + pystr \<times> match_arm list \<times> nat list) +
    (arm_body + stmt) + stmt + stmt \<times> bool \<times> (pystr \<Rightarrow> caction) \<Rightarrow> nat" where
  "compile_measure = case_sum
     (case_sum (\<lambda>e. 2 * esz e) (case_sum (\<lambda>p. 2 * psz p) (\<lambda>(t, arms, js). 2 * sum_list (map asz arms))))
     (case_sum (case_sum (\<lambda>b. 2 * bsz b) (\<lambda>s. 2 * ssz s + 1))
        (case_sum (\<lambda>s. 2 * ssz s) (\<lambda>(s, b, k). 2 * ssz s - 1)))"

lemma compile_measure_simps [simp]:
  "compile_measure (Inl (Inl e)) = 2 * esz e"
  "compile_measure (Inl (Inr (Inl p))) = 2 * psz p"
  "compile_measure (Inl (Inr (Inr (t, arms, js)))) = 2 * sum_list (map asz arms)"
  "compile_measure (Inr (Inl (Inl b))) = 2 * bsz b"
  "compile_measure (Inr (Inl (Inr s))) = 2 * ssz s + 1"
  "compile_measure (Inr (Inr (Inl s))) = 2 * ssz s"
  "compile_measure (Inr (Inr (Inr (s, nested, k)))) = 2 * ssz s - 1"
  by (simp_all add: compile_measure_def)

section \<open>The compiler\<close>

function (sequential) compile_expr :: "expr \<Rightarrow> caction"
  and compile_part :: "interp_part \<Rightarrow> caction"
  and compile_arms :: "pystr \<Rightarrow> match_arm list \<Rightarrow> nat list \<Rightarrow> caction"
  and compile_match_body :: "arm_body \<Rightarrow> caction"
  and compile_last :: "stmt \<Rightarrow> caction"
  and compile_stmt :: "stmt \<Rightarrow> caction"
  and compile_fn_def :: "stmt \<Rightarrow> bool \<Rightarrow> (pystr \<Rightarrow> caction) \<Rightarrow> caction" where
  "compile_expr (IntE m v u) = seqs [visit m, emitA (PUSH_CONST (CInt v))]"
| "compile_expr (Num m v u) = seqs [visit m, emitA (PUSH_CONST (CFloat v))]"
| "compile_expr (BoolE m v) = seqs [visit m, emitA (PUSH_CONST (CBool v))]"
| "compile_expr (Str m v) = seqs [visit m, emitA (PUSH_CONST (CStr v))]"
| "compile_expr (InterpolatedString m parts) = seqs
     [visit m, seqs (map compile_part parts), seqs (replicate (length parts - 1) (emitA ADD))]"
| "compile_expr (NilE m) = seqs [visit m, emitA (PUSH_CONST CNil)]"
| "compile_expr (Match m scrutinee arms) = seqs
     [visit m, compile_expr scrutinee,
      new_temp (\<lambda>temp. seqs [store_temp temp, compile_arms temp arms []])]"
| "compile_expr (Var m name) = seqs [visit m, compile_var m name]"
| "compile_expr (Attr m obj name) = seqs [visit m,
     (\<lambda>s. case obj of
         Var vm v \<Rightarrow>
           (if is_alias v s then resolve_module_name v name m (\<lambda>q. emitA (LOAD q)) s
            else seqs [compile_expr obj, emitA (LOAD_FIELD name)] s)
       | _ \<Rightarrow> seqs [compile_expr obj, emitA (LOAD_FIELD name)] s)]"
| "compile_expr (CompoundAssign m name op e) = seqs
     [visit m, compile_expr (Assign no_meta name (Bin no_meta op (Var no_meta name) e))]"
| "compile_expr (Assign m name e) = seqs [visit m, assign_with name (compile_expr e)]"
| "compile_expr (Unary m op e) = seqs [visit m, unary_with op (compile_expr e)]"
| "compile_expr (Bin m op a b) = seqs [visit m, bin_with op (compile_expr a) (compile_expr b)]"
| "compile_expr (ListLit m items) = seqs
     [visit m, seqs (map compile_expr items), emitA (BUILD_LIST (length items))]"
| "compile_expr (MapLit m items) = seqs
     [visit m, seqs (map (\<lambda>kv. seqs [compile_expr (fst kv), compile_expr (snd kv)]) items),
      emitA (BUILD_MAP (length items))]"
| "compile_expr (Index m a i) = seqs [visit m, compile_expr a, compile_expr i, emitA INDEX]"
| "compile_expr (IndexAssign m a i v) = seqs
     [visit m, compile_expr a, compile_expr i, compile_expr v, emitA INDEX_SET]"
| "compile_expr (FieldAssign m obj name v) = seqs
     [visit m, compile_expr obj, compile_expr v, emitA (STORE_FIELD name)]"
| "compile_expr (RecordLiteral m kvs) = seqs
     [visit m, seqs (map (\<lambda>kv. seqs [emitA (PUSH_CONST (CStr (fst kv))), compile_expr (snd kv)]) kvs),
      emitA (BUILD_RECORD (length kvs))]"
| "compile_expr (Call m callee args) = seqs [visit m,
     (case callee of
         Var vm v \<Rightarrow> call_var m v (seqs (map compile_expr args)) (length args)
       | Attr am obj name \<Rightarrow>
          (\<lambda>s. let method = seqs [compile_expr obj, seqs (map compile_expr args),
                       emitA (CALL_METHOD name (length args))]
            in case obj of
                Var vm v \<Rightarrow>
                  (if is_alias v s
                   then seqs [seqs (map compile_expr args),
                          resolve_module_name v name m (\<lambda>q. emitA (CALL q (length args)))] s
                   else method s)
              | _ \<Rightarrow> method s)
       | _ \<Rightarrow> seqs [compile_expr callee, seqs (map compile_expr args),
                  emitA (CALL_VALUE (length args))])]"
| "compile_expr (FnExpr m params body return_type step_owner) = seqs [visit m,
     emit_idx (JUMP None) (\<lambda>jump_over s.
       (let n = Suc (fn_counter s) in
        compile_fn_def (FnDef no_meta (py ''__anon_'' @ str_nat n) params body return_type False []
            step_owner) True
          (\<lambda>internal_name. seqs [here (\<lambda>a. patchA jump_over (JUMP (Some a))),
             emitA (MAKE_CLOSURE internal_name)])
          (s\<lparr>fn_counter := n\<rparr>)))]"
| "compile_part (StringLiteralPart tx) = emitA (PUSH_CONST (CStr tx))"
| "compile_part (InterpolationPart e) = seqs [compile_expr e, emitA (CALL (py ''str'') 1)]"
| "compile_arms temp [] js = seqs
     [emitA (PUSH_CONST (CStr no_arm_matched)), emitA THROW, patch_ends js]"
| "compile_arms temp (MatchArm None body # arms) js = seqs
     [compile_match_body body, emit_idx (JUMP None) (\<lambda>j. patch_ends (js @ [j]))]"
| "compile_arms temp (MatchArm (Some p) body # arms) js = seqs
     [load_temp temp, compile_expr p, emitA EQ, emit_idx (JUMP_IF_FALSE None) (\<lambda>skip. seqs
        [compile_match_body body, emit_idx (JUMP None) (\<lambda>j. seqs
           [here (\<lambda>a. patchA skip (JUMP_IF_FALSE (Some a))), compile_arms temp arms (js @ [j])])])]"
| "compile_match_body (BodyExpr e) = compile_expr e"
| "compile_match_body (BodyStmt st) = (case st of
      Throw m e \<Rightarrow> compile_stmt st
    | Return m e \<Rightarrow> compile_stmt st
    | Block m stmts \<Rightarrow>
        (if stmts = [] then emitA (PUSH_CONST CNil)
         else block_with stmts (map compile_stmt (butlast stmts) @ [compile_last (last stmts)]))
    | _ \<Rightarrow> failE (TypeErr (py ''Unknown expr node'')))"
| "compile_last st = (case st of
      ExprStmt m e \<Rightarrow> compile_expr e
    | Throw m e \<Rightarrow> compile_stmt st
    | Return m e \<Rightarrow> compile_stmt st
    | _ \<Rightarrow> seqs [compile_stmt st, emitA (PUSH_CONST CNil)])"
| "compile_stmt (LetS m name e h ex) = seqs [visit m, let_with m name (compile_expr e)]"
| "compile_stmt (FlowDef m name e) = seqs [visit m, flow_with name (compile_expr e)]"
| "compile_stmt (DestructureLet m pat e) = seqs [visit m,
     on_symbols (fold (\<lambda>n. sym_define n False) (pattern_names pat)),
     new_temp (\<lambda>temp. seqs [on_symbols (sym_define temp False), compile_expr e,
       resolving temp (\<lambda>symbol. emit_store symbol temp), destructure_from_name pat temp])]"
| "compile_stmt (Print m e) = seqs
     [visit m, compile_expr e, emitA (CALL (py ''print'') 1), emitA POP]"
| "compile_stmt (ExprStmt m e) = seqs [visit m, compile_expr e, emitA POP]"
| "compile_stmt (CheckpointStmt m label) = seqs
     [visit m, compile_expr label, emitA (CALL (py ''__workflow_checkpoint'') 1), emitA POP]"
| "compile_stmt (Block m stmts) = seqs [visit m, block_with stmts (map compile_stmt stmts)]"
| "compile_stmt (IfS m c t e) = seqs
     [visit m, if_with (compile_expr c) (compile_stmt t)
        (case e of None \<Rightarrow> None | Some els \<Rightarrow> Some (compile_stmt els))]"
| "compile_stmt (While m c body) = seqs [visit m, while_with (compile_expr c) (compile_stmt body)]"
| "compile_stmt (For m init c inc body) = seqs [visit m, for_with
     (case init of None \<Rightarrow> skipE | Some i \<Rightarrow> compile_stmt i)
     (case c of None \<Rightarrow> compile_expr (BoolE no_meta True) | Some e \<Rightarrow> compile_expr e)
     (case inc of None \<Rightarrow> skipE | Some e \<Rightarrow> seqs [compile_expr e, emitA POP])
     (compile_stmt body)]"
| "compile_stmt (ForEach m name iterable body) = seqs
     [visit m, foreach_with name (compile_expr iterable) (compile_stmt body)]"
| "compile_stmt (Break m) = seqs [visit m, compile_break m True]"
| "compile_stmt (Continue m) = seqs [visit m, compile_break m False]"
| "compile_stmt (Return m e) = seqs
     [visit m, (case e of None \<Rightarrow> emitA (PUSH_CONST CNil) | Some x \<Rightarrow> compile_expr x), emitA RETURN]"
| "compile_stmt (Yield m e) = seqs
     [visit m, (\<lambda>s. if in_function_scope s then Inr s else raise_syntax (py ''yield outside function'') m s),
      (case e of None \<Rightarrow> emitA (PUSH_CONST CNil) | Some x \<Rightarrow> compile_expr x), emitA YIELD]"
| "compile_stmt (TryCatch m body var catch_body finally_body) = seqs [visit m,
     try_with (compile_stmt body)
       (case catch_body of None \<Rightarrow> rethrow_var | Some c \<Rightarrow> (case var of None \<Rightarrow> [] | Some v \<Rightarrow> v))
       (case catch_body of
          None \<Rightarrow> compile_stmt (Block m [Throw m (Var m rethrow_var)])
        | Some c \<Rightarrow> compile_stmt c)
       (case finally_body of None \<Rightarrow> None | Some f \<Rightarrow> Some (compile_stmt f))]"
| "compile_stmt (Throw m e) = seqs [visit m, compile_expr e, emitA THROW]"
| "compile_stmt (Import m p a ns) = seqs [visit m,
     (\<lambda>s. if in_nested_scope s
          then raise_syntax (py ''import statements must be at the top level of a module; move this import to the top of the file'') m s
          else Inr s)]"
| "compile_stmt (Comment m tx) = visit m"
| "compile_stmt (ModuleAlias m al exports) = seqs [visit m, module_alias_with al exports]"
| "compile_stmt (FnDef m name params body rt ex anns so) = seqs
     [visit m, on_symbols (define_function name), emit_idx (JUMP None) (\<lambda>jump_over.
        compile_fn_def (FnDef m name params body rt ex anns so) True (\<lambda>internal_name. seqs
          [here (\<lambda>a. patchA jump_over (JUMP (Some a))), set_current_loc m,
           emitA (MAKE_CLOSURE internal_name),
           resolving name (\<lambda>symbol. emit_store symbol name)]))]"
| "compile_stmt (ExportList m ns) = visit m"
| "compile_stmt (ExportFrom m ns p) = visit m"
| "compile_stmt (ExternDecl m name params rt) = visit m"
| "compile_fn_def (FnDef m name params body rt ex anns so) is_nested k =
     (if anns = [] then fn_def_with m name params (compile_stmt body) rt so is_nested k
      else case lower_annotations anns (FnDef m name params body rt ex anns so) of
          Inl an \<Rightarrow> raise_syntax (py ''Unknown annotation: @'' @ an) m
        | Inr (FnDef m' name' params' body' rt' ex' anns' so') \<Rightarrow>
            fn_def_with m' name' params' (compile_stmt body') rt' so' is_nested k
        | Inr _ \<Rightarrow> failE (TypeErr (py ''Unknown stmt node'')))"
| "compile_fn_def _ is_nested k = failE (TypeErr (py ''Unknown stmt node''))"
  by pat_completeness auto

termination
  apply (relation "measure compile_measure")
  apply (simp_all only: wf_measure in_measure compile_measure_simps)
  apply (auto simp: o_def dest!: member_sizes[unfolded o_def] ssz_butlast_last lowered_smaller)
  done

section \<open>Programs\<close>

definition predeclared :: "stmt \<Rightarrow> symtab \<Rightarrow> symtab" where
  "predeclared st tab = (case st of
      LetS m name e h x \<Rightarrow> sym_define name False tab
    | FnDef m name ps b rt x anns so \<Rightarrow> define_function name tab
    | FlowDef m name e \<Rightarrow> sym_define name False tab
    | ExprStmt m e \<Rightarrow> (case e of Assign am name v \<Rightarrow> sym_define name False tab | _ \<Rightarrow> tab)
    | _ \<Rightarrow> tab)"

definition predeclare_module_scopes :: "stmt list \<Rightarrow> caction" where
  "predeclare_module_scopes stmts =
     seqs (map (\<lambda>st. seqs [set_current_module (stmt_meta st), on_symbols (predeclared st)]) stmts)"

definition register_alias :: "stmt \<Rightarrow> caction" where
  "register_alias st = (case st of
      ModuleAlias m al exports \<Rightarrow> seqs [set_current_module m, set_alias al exports]
    | _ \<Rightarrow> skipE)"

fun is_fn_def :: "stmt \<Rightarrow> bool" where
  "is_fn_def (FnDef m name ps b rt x anns so) = True"
| "is_fn_def _ = False"

definition compile_program :: "stmt list \<Rightarrow> caction" where
  "compile_program stmts = emit_idx (JUMP None) (\<lambda>jump_to_main. seqs
     [predeclare_module_scopes stmts,
      seqs (map register_alias stmts),
      seqs (map (\<lambda>st. compile_fn_def st False (\<lambda>_. skipE)) (filter is_fn_def stmts)),
      here (\<lambda>main_addr. patchA jump_to_main (JUMP (Some main_addr))),
      seqs (map compile_stmt (filter (\<lambda>st. \<not> is_fn_def st) stmts)),
      emitA HALT])"

section \<open>The modules of a tree\<close>

text \<open>All the metadata records of a tree. The loader stamps a module on the nodes it reaches, so
  every record of a loaded module has that module or none.\<close>

primrec metas_e :: "expr \<Rightarrow> meta list" and metas_p :: "interp_part \<Rightarrow> meta list"
  and metas_a :: "match_arm \<Rightarrow> meta list" and metas_b :: "arm_body \<Rightarrow> meta list"
  and metas_s :: "stmt \<Rightarrow> meta list" and metas_n :: "annotation \<Rightarrow> meta list" where
  "metas_e (Num m f u) = [m]"
| "metas_e (IntE m i u) = [m]"
| "metas_e (BoolE m b) = [m]"
| "metas_e (Str m s) = [m]"
| "metas_e (InterpolatedString m ps) = m # concat (map metas_p ps)"
| "metas_e (NilE m) = [m]"
| "metas_e (Var m n) = [m]"
| "metas_e (Unary m op e) = m # metas_e e"
| "metas_e (Bin m op a b) = m # metas_e a @ metas_e b"
| "metas_e (Assign m n e) = m # metas_e e"
| "metas_e (CompoundAssign m n op e) = m # metas_e e"
| "metas_e (ListLit m es) = m # concat (map metas_e es)"
| "metas_e (MapLit m kvs) = m # concat (map (\<lambda>p. fst p @ snd p) (map (map_prod metas_e metas_e) kvs))"
| "metas_e (RecordLiteral m kvs) = m # concat (map snd (map (map_prod id metas_e) kvs))"
| "metas_e (Index m a i) = m # metas_e a @ metas_e i"
| "metas_e (IndexAssign m a i v) = m # metas_e a @ metas_e i @ metas_e v"
| "metas_e (Attr m e n) = m # metas_e e"
| "metas_e (FieldAssign m e n v) = m # metas_e e @ metas_e v"
| "metas_e (Call m f es) = m # metas_e f @ concat (map metas_e es)"
| "metas_e (Match m e arms) = m # metas_e e @ concat (map metas_a arms)"
| "metas_e (FnExpr m ps b rt so) = m # metas_s b"
| "metas_p (StringLiteralPart s) = []"
| "metas_p (InterpolationPart e) = metas_e e"
| "metas_a (MatchArm p b) = (case map_option metas_e p of None \<Rightarrow> [] | Some ms \<Rightarrow> ms) @ metas_b b"
| "metas_b (BodyExpr e) = metas_e e"
| "metas_b (BodyStmt s) = metas_s s"
| "metas_s (LetS m n e h ex) = m # metas_e e"
| "metas_s (DestructureLet m p e) = m # metas_e e"
| "metas_s (FlowDef m n e) = m # metas_e e"
| "metas_s (Print m e) = m # metas_e e"
| "metas_s (ExprStmt m e) = m # metas_e e"
| "metas_s (CheckpointStmt m e) = m # metas_e e"
| "metas_s (Block m ss) = m # concat (map metas_s ss)"
| "metas_s (IfS m c t e) = m # metas_e c @ metas_s t @ (case map_option metas_s e of None \<Rightarrow> [] | Some ms \<Rightarrow> ms)"
| "metas_s (While m c b) = m # metas_e c @ metas_s b"
| "metas_s (For m i c n b) = m # (case map_option metas_s i of None \<Rightarrow> [] | Some ms \<Rightarrow> ms) @
     (case map_option metas_e c of None \<Rightarrow> [] | Some ms \<Rightarrow> ms) @
     (case map_option metas_e n of None \<Rightarrow> [] | Some ms \<Rightarrow> ms) @ metas_s b"
| "metas_s (ForEach m n e b) = m # metas_e e @ metas_s b"
| "metas_s (Break m) = [m]"
| "metas_s (Continue m) = [m]"
| "metas_s (Return m e) = m # (case map_option metas_e e of None \<Rightarrow> [] | Some ms \<Rightarrow> ms)"
| "metas_s (Yield m e) = m # (case map_option metas_e e of None \<Rightarrow> [] | Some ms \<Rightarrow> ms)"
| "metas_s (TryCatch m b v c f) = m # metas_s b @
     (case map_option metas_s c of None \<Rightarrow> [] | Some ms \<Rightarrow> ms) @
     (case map_option metas_s f of None \<Rightarrow> [] | Some ms \<Rightarrow> ms)"
| "metas_s (Throw m e) = m # metas_e e"
| "metas_s (Import m p a n) = [m]"
| "metas_s (Comment m c) = [m]"
| "metas_s (ModuleAlias m a ex) = [m]"
| "metas_s (FnDef m n ps b rt ex anns so) = m # metas_s b @ concat (map metas_n anns)"
| "metas_s (ExportList m ns) = [m]"
| "metas_s (ExportFrom m ns p) = [m]"
| "metas_s (ExternDecl m n ps rt) = [m]"
| "metas_n (Annotation m n args) = m # (case map_option (map (map_prod id metas_e)) args of
     None \<Rightarrow> [] | Some kvs \<Rightarrow> concat (map snd kvs))"

definition in_module :: "pystr \<Rightarrow> meta \<Rightarrow> bool" where
  "in_module M m \<longleftrightarrow> m_module m = None \<or> m_module m = Some M"

abbreviation module_expr :: "pystr \<Rightarrow> expr \<Rightarrow> bool" where
  "module_expr M e \<equiv> list_all (in_module M) (metas_e e)"

abbreviation module_stmt :: "pystr \<Rightarrow> stmt \<Rightarrow> bool" where
  "module_stmt M st \<equiv> list_all (in_module M) (metas_s st)"

end
