(* ===== verification/Compiler_Rules.thy ===== *)
theory Compiler_Rules
  imports Compiler
begin

text \<open>
  The invariant of code generation. \<open>reaches M s0 H ks n d u\<close> says how a state \<open>u\<close> in the middle of
  compiling a construct relates to the state \<open>s0\<close> at its start: the code only grew, every jump that
  is still unpatched is in the set \<open>H\<close> of open indexes or waits in a loop frame, \<open>ks\<close> scopes, \<open>n\<close>
  loop frames and \<open>d\<close> try regions are open. The rules \<open>wp\<close> below carry it through each primitive of
  the compiler, and an action is \<open>good\<close> when it closes everything it opens and never fails with an
  internal error.
\<close>

section \<open>The invariant\<close>

definition frame_entries :: "loop_frame \<Rightarrow> nat list" where
  "frame_entries f = lf_breaks f @ lf_continues f"

definition pend :: "comp \<Rightarrow> nat list" where
  "pend s = concat (map frame_entries (loop_stack s))"

definition instr_ok :: "nat \<Rightarrow> instr \<Rightarrow> bool" where
  "instr_ok n i \<longleftrightarrow> targets_below n i \<and> i \<noteq> LOAD_UPVALUE None \<and> i \<noteq> STORE_UPVALUE None"

definition scope_kinds :: "comp \<Rightarrow> scope_kind list" where
  "scope_kinds s = (case cur_table s of None \<Rightarrow> [] | Some st \<Rightarrow> map sc_kind (st_scopes st))"

definition cinv :: "pystr \<Rightarrow> comp \<Rightarrow> bool" where
  "cinv M s \<longleftrightarrow> length (code_locs s) = length (code s) \<and> symbols s = Some (Some M) \<and>
     current_module s = Some M \<and>
     (\<exists>st. symbol_tables s (Some M) = Some st \<and> wf_symtab st) \<and>
     distinct (pend s) \<and> (\<forall>i\<in>set (pend s). i < length (code s) \<and> unpatched (code s ! i)) \<and>
     (\<forall>i\<in>set (code s). instr_ok (length (code s)) i) \<and>
     (\<forall>f\<in>set (c_functions s). fi_addr (snd f) \<le> length (code s))"

definition frame_ext :: "nat \<Rightarrow> loop_frame \<Rightarrow> loop_frame \<Rightarrow> bool" where
  "frame_ext b f g \<longleftrightarrow> lf_break_pops g = lf_break_pops f \<and> lf_try_depth g = lf_try_depth f \<and>
     (\<exists>x y. lf_breaks g = lf_breaks f @ x \<and> lf_continues g = lf_continues f @ y \<and>
        (\<forall>i\<in>set x \<union> set y. b \<le> i))"

definition reaches ::
  "pystr \<Rightarrow> comp \<Rightarrow> nat set \<Rightarrow> scope_kind list \<Rightarrow> nat \<Rightarrow> nat \<Rightarrow> comp \<Rightarrow> bool" where
  "reaches M s0 H ks n d u \<longleftrightarrow> cinv M u \<and>
     length (code s0) \<le> length (code u) \<and> take (length (code s0)) (code u) = code s0 \<and>
     (\<forall>i. length (code s0) \<le> i \<longrightarrow> i < length (code u) \<longrightarrow> unpatched (code u ! i) \<longrightarrow>
        i \<in> H \<union> set (pend u)) \<and>
     H \<subseteq> {length (code s0)..<length (code u)} \<and> H \<inter> set (pend u) = {} \<and>
     n \<le> length (loop_stack u) \<and>
     list_all2 (frame_ext (length (code s0))) (loop_stack s0) (drop n (loop_stack u)) \<and>
     (\<forall>f\<in>set (take n (loop_stack u)). \<forall>i\<in>set (frame_entries f). length (code s0) \<le> i) \<and>
     try_depth u = try_depth s0 + d \<and> scope_kinds u = ks @ scope_kinds s0"

definition ok_err :: "cerr \<Rightarrow> bool" where
  "ok_err e \<longleftrightarrow> (case e of AssertionErr _ \<Rightarrow> False | PyIndexErr \<Rightarrow> False
     | TypeErr msg \<Rightarrow> msg = py ''Unknown expr node'' | _ \<Rightarrow> True)"

definition ok :: "(comp \<Rightarrow> bool) \<Rightarrow> cerr + comp \<Rightarrow> bool" where
  "ok P r \<longleftrightarrow> (case r of Inl e \<Rightarrow> ok_err e | Inr t \<Rightarrow> P t)"

definition good :: "pystr \<Rightarrow> caction \<Rightarrow> bool" where
  "good M a \<longleftrightarrow> (\<forall>s. cinv M s \<longrightarrow> ok (reaches M s {} [] 0 0) (a s))"

lemma ok_simps [simp]: "ok P (Inl e) = ok_err e" "ok P (Inr t) = P t"
  by (simp_all add: ok_def)

lemma frame_ext_refl [simp]: "frame_ext b f f"
  by (simp add: frame_ext_def)

lemma frame_ext_trans: "frame_ext b f g \<Longrightarrow> frame_ext c g h \<Longrightarrow> b \<le> c \<Longrightarrow> frame_ext b f h"
proof -
  assume a: "frame_ext b f g" "frame_ext c g h" "b \<le> c"
  obtain x y where "lf_breaks g = lf_breaks f @ x" "lf_continues g = lf_continues f @ y"
    "\<forall>i\<in>set x \<union> set y. b \<le> i" using a(1) unfolding frame_ext_def by blast
  moreover obtain x' y' where "lf_breaks h = lf_breaks g @ x'" "lf_continues h = lf_continues g @ y'"
    "\<forall>i\<in>set x' \<union> set y'. c \<le> i" using a(2) unfolding frame_ext_def by blast
  ultimately have "lf_breaks h = lf_breaks f @ (x @ x')" "lf_continues h = lf_continues f @ (y @ y')"
    "\<forall>i\<in>set (x @ x') \<union> set (y @ y'). b \<le> i" using a(3) by (auto intro: order_trans)
  moreover have "lf_break_pops h = lf_break_pops f" "lf_try_depth h = lf_try_depth f"
    using a(1,2) by (simp_all add: frame_ext_def)
  ultimately show "frame_ext b f h" unfolding frame_ext_def by blast
qed

lemma frames_ext_refl [simp]: "list_all2 (frame_ext b) fs fs"
  by (simp add: list_all2_refl)

lemma frames_ext_trans:
  "list_all2 (frame_ext b) fs gs \<Longrightarrow> list_all2 (frame_ext c) gs hs \<Longrightarrow> b \<le> c \<Longrightarrow>
   list_all2 (frame_ext b) fs hs"
  by (rule list_all2_trans[of "frame_ext b" "frame_ext c"]) (auto intro: frame_ext_trans)

lemma frame_ext_entries:
  "frame_ext b f g \<Longrightarrow> set (frame_entries f) \<subseteq> set (frame_entries g) \<and>
     (\<forall>i\<in>set (frame_entries g). i \<in> set (frame_entries f) \<or> b \<le> i)"
  by (auto simp: frame_ext_def frame_entries_def)

lemma frames_ext_pend:
  "list_all2 (frame_ext b) fs gs \<Longrightarrow>
   set (concat (map frame_entries fs)) \<subseteq> set (concat (map frame_entries gs)) \<and>
   (\<forall>i\<in>set (concat (map frame_entries gs)). i \<in> set (concat (map frame_entries fs)) \<or> b \<le> i)"
  by (induction rule: list_all2_induct) (auto dest: frame_ext_entries)

lemma frames_ext_take:
  assumes "list_all2 (frame_ext b) fs gs" and "\<forall>f\<in>set (take n fs). \<forall>i\<in>set (frame_entries f). c \<le> i"
    and "c \<le> b"
  shows "\<forall>f\<in>set (take n gs). \<forall>i\<in>set (frame_entries f). c \<le> i"
proof -
  have "list_all2 (frame_ext b) (take n fs) (take n gs)" using assms(1) by (rule list_all2_takeI)
  then show ?thesis using assms(2)
  proof (induction rule: list_all2_induct)
    case (Cons f fs g gs)
    then show ?case using frame_ext_entries[of b f g] assms(3) by fastforce
  qed simp
qed

lemma reaches_refl: "cinv M s \<Longrightarrow> reaches M s {} [] 0 0 s"
  by (simp add: reaches_def)

lemma reaches_cinv: "reaches M s0 H ks n d u \<Longrightarrow> cinv M u"
  by (simp add: reaches_def)

lemma reachesD:
  assumes "reaches M s0 H ks n d u"
  shows "cinv M u" "length (code s0) \<le> length (code u)" "take (length (code s0)) (code u) = code s0"
    "H \<subseteq> {length (code s0)..<length (code u)}" "H \<inter> set (pend u) = {}" "n \<le> length (loop_stack u)"
    "try_depth u = try_depth s0 + d" "scope_kinds u = ks @ scope_kinds s0"
  using assms by (simp_all add: reaches_def)

lemma reaches_trans:
  assumes 1: "reaches M s0 H ks n d u" and 2: "reaches M u {} [] 0 0 v"
  shows "reaches M s0 H ks n d v"
proof -
  have le: "length (code s0) \<le> length (code u)" "length (code u) \<le> length (code v)"
    and tk: "take (length (code u)) (code v) = code u" using 1 2 by (simp_all add: reaches_def)
  have fr: "list_all2 (frame_ext (length (code u))) (loop_stack u) (loop_stack v)"
    using 2 by (simp add: reaches_def)
  have pu: "set (pend u) \<subseteq> set (pend v)" "\<forall>i\<in>set (pend v). i \<in> set (pend u) \<or> length (code u) \<le> i"
    using frames_ext_pend[OF fr] by (simp_all add: pend_def)
  have same: "code v ! i = code u ! i" if "i < length (code u)" for i
    using tk that by (metis nth_take)
  have "take (length (code s0)) (code v) = code s0"
    using 1 tk le by (metis reaches_def take_take min.absorb1)
  moreover have "i \<in> H \<union> set (pend v)"
    if "length (code s0) \<le> i" "i < length (code v)" "unpatched (code v ! i)" for i
    using that 1 2 pu same[of i] by (cases "i < length (code u)") (auto simp: reaches_def)
  moreover have "H \<inter> set (pend v) = {}" using 1 pu(2) by (fastforce simp: reaches_def)
  moreover have "H \<subseteq> {length (code s0)..<length (code v)}" using 1 le(2) by (fastforce simp: reaches_def)
  moreover have "list_all2 (frame_ext (length (code s0))) (loop_stack s0) (drop n (loop_stack v))"
  proof (rule frames_ext_trans)
    show "list_all2 (frame_ext (length (code s0))) (loop_stack s0) (drop n (loop_stack u))"
      using 1 by (simp add: reaches_def)
    show "list_all2 (frame_ext (length (code u))) (drop n (loop_stack u)) (drop n (loop_stack v))"
      using fr by (rule list_all2_dropI)
  qed (rule le(1))
  moreover have "\<forall>f\<in>set (take n (loop_stack v)). \<forall>i\<in>set (frame_entries f). length (code s0) \<le> i"
    by (rule frames_ext_take[OF fr _ le(1)]) (use 1 in \<open>simp add: reaches_def\<close>)
  moreover have "n \<le> length (loop_stack v)" using 1 list_all2_lengthD[OF fr] by (simp add: reaches_def)
  ultimately show ?thesis using 1 2 le unfolding reaches_def by simp
qed

section \<open>Rules for the primitives\<close>

lemma wp_seqs: "ok (\<lambda>v. ok P (seqs as v)) (a u) \<Longrightarrow> ok P (seqs (a # as) u)"
  by (cases "a u") simp_all

lemma wp_nil: "P u \<Longrightarrow> ok P (seqs [] u)"
  by simp

lemma wp_good:
  assumes "reaches M s0 H ks n d u" and "good M a"
    and "\<And>v. reaches M s0 H ks n d v \<Longrightarrow> length (code u) \<le> length (code v) \<Longrightarrow> P v"
  shows "ok P (a u)"
proof -
  have "ok (reaches M u {} [] 0 0) (a u)" using assms(1,2) by (simp add: good_def reaches_def)
  then show ?thesis using assms(1,3) reaches_trans[OF assms(1)]
    by (cases "a u") (auto simp: reaches_def)
qed

lemma instr_ok_mono: "instr_ok n i \<Longrightarrow> n \<le> m \<Longrightarrow> instr_ok m i"
  by (auto simp: instr_ok_def targets_below_def)

lemma emit_fields [simp]:
  "code (emit i s) = code s @ [i]" "loop_stack (emit i s) = loop_stack s"
  "symbols (emit i s) = symbols s" "symbol_tables (emit i s) = symbol_tables s"
  "try_depth (emit i s) = try_depth s" "current_module (emit i s) = current_module s"
  "c_functions (emit i s) = c_functions s" "length (code_locs (emit i s)) = Suc (length (code_locs s))"
  "pend (emit i s) = pend s" "scope_kinds (emit i s) = scope_kinds s"
  by (simp_all add: emit_def pend_def scope_kinds_def cur_table_def cong: option.case_cong)

lemma cinv_emit:
  assumes "cinv M u" and "instr_ok (Suc (length (code u))) i"
  shows "cinv M (emit i u)"
proof -
  have "\<forall>j\<in>set (pend u). j < length (code u) \<and> unpatched (code u ! j)"
    and ok: "\<forall>j\<in>set (code u). instr_ok (length (code u)) j"
    and fn: "\<forall>f\<in>set (c_functions u). fi_addr (snd f) \<le> length (code u)"
    using assms(1) by (simp_all add: cinv_def)
  then have "\<forall>j\<in>set (pend u). j < Suc (length (code u)) \<and> unpatched ((code u @ [i]) ! j)"
    by (simp add: nth_append less_SucI)
  moreover have "\<forall>j\<in>set (code u @ [i]). instr_ok (Suc (length (code u))) j"
    using ok assms(2) instr_ok_mono by (metis in_set_conv_decomp_first le_SucI order_refl rotate1.simps(2) set_ConsD set_rotate1)
  moreover have "\<forall>f\<in>set (c_functions u). fi_addr (snd f) \<le> Suc (length (code u))"
    using fn by (simp add: le_SucI)
  ultimately show ?thesis using assms(1) by (simp add: cinv_def)
qed

lemma reaches_emit:
  assumes r: "reaches M s0 H ks n d u" and i: "instr_ok (Suc (length (code u))) i"
  shows "reaches M s0 (insert (length (code u)) H) ks n d (emit i u)"
    and "\<not> unpatched i \<Longrightarrow> reaches M s0 H ks n d (emit i u)"
proof -
  have c: "cinv M (emit i u)" using cinv_emit[OF _ i] r by (simp add: reaches_def)
  have p: "length (code u) \<notin> set (pend u)" using r by (auto simp: reaches_def cinv_def)
  have open_old: "j \<in> H \<union> set (pend u)"
    if "length (code s0) \<le> j" "j < length (code u)" "unpatched ((code u @ [i]) ! j)" for j
    using r that by (simp add: reaches_def nth_append)
  have H: "H \<subseteq> {length (code s0)..<Suc (length (code u))}" "H \<inter> set (pend u) = {}"
    using reachesD(4,5)[OF r] by auto
  have base: "length (code s0) \<le> length (code u)" "take (length (code s0)) (code u @ [i]) = code s0"
    using r by (simp_all add: reaches_def)
  have "\<forall>j. length (code s0) \<le> j \<longrightarrow> j < Suc (length (code u)) \<longrightarrow> unpatched ((code u @ [i]) ! j) \<longrightarrow>
      j \<in> insert (length (code u)) H \<union> set (pend u)"
    using open_old by (simp add: less_Suc_eq)
  then show "reaches M s0 (insert (length (code u)) H) ks n d (emit i u)"
    using r c p H base unfolding reaches_def by simp
  assume "\<not> unpatched i"
  then have "\<forall>j. length (code s0) \<le> j \<longrightarrow> j < Suc (length (code u)) \<longrightarrow> unpatched ((code u @ [i]) ! j) \<longrightarrow>
      j \<in> H \<union> set (pend u)"
    using open_old by (simp add: less_Suc_eq nth_append)
  then show "reaches M s0 H ks n d (emit i u)"
    using r c H base unfolding reaches_def by simp
qed

lemma wp_emit:
  assumes "reaches M s0 H ks n d u" and "instr_ok (Suc (length (code u))) i" and "\<not> unpatched i"
    and "\<And>v. reaches M s0 H ks n d v \<Longrightarrow> length (code v) = Suc (length (code u)) \<Longrightarrow> P v"
  shows "ok P (emitA i u)"
  using reaches_emit(2)[OF assms(1-3)] assms(4)[of "emit i u"] by (simp add: emitA_def)

lemma wp_emit_idx:
  assumes "reaches M s0 H ks n d u" and "instr_ok (Suc (length (code u))) i"
    and "\<And>j v. reaches M s0 (insert j H) ks n d v \<Longrightarrow> j \<notin> H \<Longrightarrow> j < length (code v) \<Longrightarrow>
      length (code v) = Suc (length (code u)) \<Longrightarrow> ok P (k j v)"
  shows "ok P (emit_idx i k u)"
proof -
  have "length (code u) \<notin> H" using reachesD(4)[OF assms(1)] by auto
  then show ?thesis using reaches_emit(1)[OF assms(1,2)] assms(3)[of "length (code u)" "emit i u"]
    by (simp add: emit_idx_def)
qed

lemma wp_here:
  assumes "\<And>a. a = length (code u) \<Longrightarrow> ok P (k a u)"
  shows "ok P (here k u)"
  using assms by (simp add: here_def)


text \<open>Patching: an open index is closed, or rewritten and kept open.\<close>

lemma cinv_patch:
  assumes c: "cinv M u" and i: "instr_ok (length (code u)) ins" and j: "j \<notin> set (pend u)"
  shows "cinv M (u\<lparr>code := (code u)[j := ins]\<rparr>)"
proof -
  let ?v = "u\<lparr>code := (code u)[j := ins]\<rparr>"
  have p: "pend ?v = pend u" by (simp add: pend_def)
  have "\<forall>x\<in>set ((code u)[j := ins]). instr_ok (length (code u)) x"
    using c i set_update_subset_insert[of "code u" j ins] by (auto simp: cinv_def)
  moreover have "\<forall>x\<in>set (pend u). x < length (code u) \<and> unpatched ((code u)[j := ins] ! x)"
    using c j by (metis cinv_def nth_list_update_neq)
  ultimately show ?thesis using c p by (simp add: cinv_def)
qed

lemma reaches_patch:
  assumes r: "reaches M s0 H ks n d u" and j: "j \<in> H" and i: "instr_ok (length (code u)) ins"
  shows "reaches M s0 H ks n d (u\<lparr>code := (code u)[j := ins]\<rparr>)"
    and "\<not> unpatched ins \<Longrightarrow> reaches M s0 (H - {j}) ks n d (u\<lparr>code := (code u)[j := ins]\<rparr>)"
proof -
  let ?v = "u\<lparr>code := (code u)[j := ins]\<rparr>"
  have p: "pend ?v = pend u" "scope_kinds ?v = scope_kinds u"
    by (simp_all add: pend_def scope_kinds_def cur_table_def cong: option.case_cong)
  have jr: "length (code s0) \<le> j" "j < length (code u)" "j \<notin> set (pend u)"
    using reachesD(4,5)[OF r] j by auto
  have c: "cinv M ?v" by (rule cinv_patch[OF reachesD(1)[OF r] i jr(3)])
  have t: "take (length (code s0)) ((code u)[j := ins]) = code s0"
    using reachesD(3)[OF r] jr(1) by simp
  have open_old: "x \<in> H \<union> set (pend u)"
    if "length (code s0) \<le> x" "x < length (code u)" "unpatched ((code u)[j := ins] ! x)" for x
    using r that j by (cases "x = j") (simp_all add: reaches_def)
  then show "reaches M s0 H ks n d ?v"
    using r c t unfolding reaches_def p by simp
  assume ni: "\<not> unpatched ins"
  have "\<forall>x. length (code s0) \<le> x \<longrightarrow> x < length (code u) \<longrightarrow> unpatched ((code u)[j := ins] ! x) \<longrightarrow>
      x \<in> (H - {j}) \<union> set (pend u)"
    using open_old ni jr(2) by (metis Diff_iff Un_iff nth_list_update_eq singletonD)
  moreover have "H - {j} \<subseteq> {length (code s0)..<length (code u)}" "(H - {j}) \<inter> set (pend u) = {}"
    using reachesD(4,5)[OF r] by auto
  ultimately show "reaches M s0 (H - {j}) ks n d ?v"
    using r c t unfolding reaches_def p by simp
qed

lemma wp_patch:
  assumes "reaches M s0 H ks n d u" and "j \<in> H" and "instr_ok (length (code u)) ins" and "\<not> unpatched ins"
    and "\<And>v. reaches M s0 (H - {j}) ks n d v \<Longrightarrow> length (code v) = length (code u) \<Longrightarrow> P v"
  shows "ok P (patchA j ins u)"
proof -
  have "j < length (code u)" using reachesD(4)[OF assms(1)] assms(2) by auto
  then show ?thesis using reaches_patch(2)[OF assms(1-4)] assms(5) by (simp add: patchA_def)
qed

lemma wp_patch_open:
  assumes "reaches M s0 H ks n d u" and "j \<in> H" and "instr_ok (length (code u)) ins"
    and "\<And>v. reaches M s0 H ks n d v \<Longrightarrow> length (code v) = length (code u) \<Longrightarrow> P v"
  shows "ok P (patchA j ins u)"
proof -
  have "j < length (code u)" using reachesD(4)[OF assms(1)] assms(2) by auto
  then show ?thesis using reaches_patch(1)[OF assms(1-3)] assms(4) by (simp add: patchA_def)
qed

lemma wp_patch_all:
  assumes "reaches M s0 (H \<union> set js) ks n d u" and "distinct js" and "set js \<inter> H = {}"
    and "t \<le> length (code u)"
    and "\<And>v. reaches M s0 H ks n d v \<Longrightarrow> length (code v) = length (code u) \<Longrightarrow> P v"
  shows "ok P (seqs (map (\<lambda>j. patchA j (JUMP (Some t))) js) u)"
  using assms
proof (induction js arbitrary: u)
  case Nil
  then show ?case by simp
next
  case (Cons j js)
  have i: "instr_ok (length (code u)) (JUMP (Some t))" "\<not> unpatched (JUMP (Some t))"
    using Cons.prems(4) by (simp_all add: instr_ok_def targets_below_def unpatched_def)
  have H: "H \<union> set (j # js) - {j} = H \<union> set js" using Cons.prems(2,3) by auto
  show ?case unfolding list.map
  proof (rule wp_seqs, rule wp_patch[OF Cons.prems(1) _ i])
    fix v assume v: "reaches M s0 (H \<union> set (j # js) - {j}) ks n d v" "length (code v) = length (code u)"
    show "ok P (seqs (map (\<lambda>j. patchA j (JUMP (Some t))) js) v)"
      by (rule Cons.IH) (use v H Cons.prems in auto)
  qed simp
qed

section \<open>Rules for loops, try regions and scopes\<close>

lemma wp_push_loop:
  assumes r: "reaches M s0 H ks n d u"
    and "\<And>v. reaches M s0 H ks (Suc n) d v \<Longrightarrow> length (code v) = length (code u) \<Longrightarrow> P v"
  shows "ok P (push_loop b u)"
proof -
  let ?f = "\<lparr>lf_breaks = [], lf_continues = [], lf_break_pops = b, lf_try_depth = try_depth u\<rparr>"
  let ?v = "u\<lparr>loop_stack := ?f # loop_stack u\<rparr>"
  have p: "pend ?v = pend u" "scope_kinds ?v = scope_kinds u"
    by (simp_all add: pend_def frame_entries_def scope_kinds_def cur_table_def cong: option.case_cong)
  have "cinv M ?v" using reachesD(1)[OF r] p by (simp add: cinv_def)
  then have "reaches M s0 H ks (Suc n) d ?v"
    using r unfolding reaches_def p by (simp add: frame_entries_def)
  then show ?thesis using assms(2) by (simp add: push_loop_def)
qed

lemma wp_pop_loop:
  assumes r: "reaches M s0 H ks (Suc n) d u"
    and k: "\<And>f v. reaches M s0 (H \<union> set (frame_entries f)) ks n d v \<Longrightarrow> distinct (frame_entries f) \<Longrightarrow>
      set (frame_entries f) \<inter> H = {} \<Longrightarrow> length (code v) = length (code u) \<Longrightarrow> ok P (k f v)"
  shows "ok P (pop_loop k u)"
proof -
  obtain f fs where ls: "loop_stack u = f # fs" using reachesD(6)[OF r] by (cases "loop_stack u") auto
  let ?v = "u\<lparr>loop_stack := fs\<rparr>"
  have p: "pend u = frame_entries f @ pend ?v" "scope_kinds ?v = scope_kinds u"
    by (simp_all add: pend_def ls scope_kinds_def cur_table_def cong: option.case_cong)
  have c: "cinv M u" using reachesD(1)[OF r] .
  have d: "distinct (frame_entries f)" "set (frame_entries f) \<inter> set (pend ?v) = {}"
    using c p(1) by (simp_all add: cinv_def)
  have cv: "cinv M ?v" using c p(1) by (simp add: cinv_def)
  have H: "set (frame_entries f) \<inter> H = {}" "H \<inter> set (pend ?v) = {}"
    using reachesD(5)[OF r] p(1) by auto
  have fe: "set (frame_entries f) \<subseteq> {length (code s0)..<length (code u)}"
    using r c p(1) ls unfolding reaches_def cinv_def by auto
  have "\<forall>i. length (code s0) \<le> i \<longrightarrow> i < length (code u) \<longrightarrow> unpatched (code u ! i) \<longrightarrow>
      i \<in> H \<union> set (frame_entries f) \<union> set (pend ?v)"
    using r p(1) unfolding reaches_def by auto
  moreover have "(H \<union> set (frame_entries f)) \<inter> set (pend ?v) = {}" using H d by auto
  moreover have "H \<union> set (frame_entries f) \<subseteq> {length (code s0)..<length (code u)}"
    using fe reachesD(4)[OF r] by auto
  ultimately have "reaches M s0 (H \<union> set (frame_entries f)) ks n d ?v"
    using r cv ls unfolding reaches_def p(2) by simp
  then show ?thesis using k[of f ?v] d(1) H(1) ls by (simp add: pop_loop_def)
qed

lemma wp_patch_loop:
  assumes "reaches M s0 (H \<union> set (frame_entries f)) ks n d u" and "distinct (frame_entries f)"
    and "set (frame_entries f) \<inter> H = {}" and "b \<le> length (code u)" and "c \<le> length (code u)"
    and "\<And>v. reaches M s0 H ks n d v \<Longrightarrow> length (code v) = length (code u) \<Longrightarrow> P v"
  shows "ok P (patch_loop f b c u)"
proof -
  have split: "ok P (seqs (as @ bs) w) = ok (\<lambda>v. ok P (seqs bs v)) (seqs as w)" for as bs w
    by (cases "seqs as w") (simp_all add: seqs_append)
  have e: "H \<union> set (frame_entries f) = H \<union> set (lf_continues f) \<union> set (lf_breaks f)"
    by (auto simp: frame_entries_def)
  show ?thesis unfolding patch_loop_def split
  proof (rule wp_patch_all[OF assms(1)[unfolded e]])
    show "distinct (lf_breaks f)" "set (lf_breaks f) \<inter> (H \<union> set (lf_continues f)) = {}"
      using assms(2,3) by (auto simp: frame_entries_def)
    fix v assume v: "reaches M s0 (H \<union> set (lf_continues f)) ks n d v" "length (code v) = length (code u)"
    show "ok P (seqs (map (\<lambda>i. patchA i (JUMP (Some c))) (lf_continues f)) v)"
      by (rule wp_patch_all[OF v(1)]) (use assms v(2) in \<open>auto simp: frame_entries_def\<close>)
  qed (rule assms(4))
qed

lemma wp_enter_try:
  assumes "reaches M s0 H ks n d u"
    and "\<And>v. reaches M s0 H ks n (Suc d) v \<Longrightarrow> length (code v) = length (code u) \<Longrightarrow> P v"
  shows "ok P (enter_try u)"
proof -
  let ?v = "u\<lparr>try_depth := Suc (try_depth u)\<rparr>"
  have p: "pend ?v = pend u" "scope_kinds ?v = scope_kinds u"
    by (simp_all add: pend_def scope_kinds_def cur_table_def cong: option.case_cong)
  have "reaches M s0 H ks n (Suc d) ?v" using assms(1) unfolding reaches_def cinv_def p by simp
  then show ?thesis using assms(2) by (simp add: enter_try_def)
qed

lemma wp_leave_try:
  assumes "reaches M s0 H ks n (Suc d) u"
    and "\<And>v. reaches M s0 H ks n d v \<Longrightarrow> length (code v) = length (code u) \<Longrightarrow> P v"
  shows "ok P (leave_try u)"
proof -
  let ?v = "u\<lparr>try_depth := try_depth u - 1\<rparr>"
  have p: "pend ?v = pend u" "scope_kinds ?v = scope_kinds u"
    by (simp_all add: pend_def scope_kinds_def cur_table_def cong: option.case_cong)
  have "reaches M s0 H ks n d ?v" using assms(1) unfolding reaches_def cinv_def p by simp
  then show ?thesis using assms(2) by (simp add: leave_try_def)
qed

text \<open>Changes of the current table that keep it well formed.\<close>

lemma cinv_table:
  assumes "cinv M u"
  obtains st where "cur_table u = Some st" "wf_symtab st" "symbols u = Some (Some M)"
    "symbol_tables u (Some M) = Some st"
  using assms by (auto simp: cinv_def cur_table_def)

lemma reaches_set_table:
  assumes r: "reaches M s0 H ks n d u" and wf: "wf_symtab st"
    and k: "map sc_kind (st_scopes st) = ks' @ scope_kinds s0"
  shows "reaches M s0 H ks' n d (set_table st u)"
proof -
  have s: "symbols u = Some (Some M)" using reachesD(1)[OF r] by (simp add: cinv_def)
  let ?v = "u\<lparr>symbol_tables := (symbol_tables u)(Some M \<mapsto> st)\<rparr>"
  have v: "set_table st u = ?v" by (simp add: set_table_def s)
  have p: "pend ?v = pend u" "scope_kinds ?v = map sc_kind (st_scopes st)"
    by (simp_all add: pend_def scope_kinds_def cur_table_def s)
  have "cinv M ?v" using reachesD(1)[OF r] wf p by (simp add: cinv_def)
  then show ?thesis using r k unfolding v reaches_def p by simp
qed

lemma set_table_code [simp]: "code (set_table st u) = code u"
  by (simp add: set_table_def split: option.split)

lemma wp_enter:
  assumes r: "reaches M s0 H ks n d u" and "k \<noteq> ModuleScope"
    and P: "\<And>v. reaches M s0 H (k # ks) n d v \<Longrightarrow> length (code v) = length (code u) \<Longrightarrow> P v"
  shows "ok P (on_symbols (enter_scope k) u)"
proof -
  obtain st where st: "cur_table u = Some st" "wf_symtab st" using reachesD(1)[OF r] by (rule cinv_table)
  have "map sc_kind (st_scopes (enter_scope k st)) = (k # ks) @ scope_kinds s0"
    using reachesD(8)[OF r] st(1) by (simp add: scope_kinds_def enter_scope_def new_scope_def)
  from reaches_set_table[OF r wf_enter_scope[OF st(2) assms(2)] this] show ?thesis
    using P st(1) by (simp add: on_symbols_def)
qed

lemma wp_exit:
  assumes r: "reaches M s0 H (k # ks) n d u" and "scope_kinds s0 \<noteq> []"
    and P: "\<And>v. reaches M s0 H ks n d v \<Longrightarrow> length (code v) = length (code u) \<Longrightarrow> P v"
  shows "ok P (on_symbols exit_scope u)"
proof -
  obtain st where st: "cur_table u = Some st" "wf_symtab st" using reachesD(1)[OF r] by (rule cinv_table)
  have "map sc_kind (st_scopes st) = k # ks @ scope_kinds s0"
    using reachesD(8)[OF r] st(1) by (simp add: scope_kinds_def)
  then have "map sc_kind (st_scopes (exit_scope st)) = ks @ scope_kinds s0"
    using assms(2) by (cases "st_scopes st"; cases "tl (st_scopes st)") (auto simp: exit_scope_def)
  from reaches_set_table[OF r wf_exit_scope[OF st(2)] this] show ?thesis
    using P st(1) by (simp add: on_symbols_def)
qed

lemma cinv_kinds: "cinv M s \<Longrightarrow> scope_kinds s \<noteq> []"
  by (erule cinv_table) (auto simp: scope_kinds_def wf_symtab_def dest: wf_scopes_nonempty)

lemma good_on_symbols:
  assumes "\<And>st. wf_symtab st \<Longrightarrow> wf_symtab (f st) \<and> map sc_kind (st_scopes (f st)) = map sc_kind (st_scopes st)"
  shows "good M (on_symbols f)"
  unfolding good_def
proof (intro allI impI)
  fix s assume c: "cinv M s"
  obtain st where st: "cur_table s = Some st" "wf_symtab st" using c by (rule cinv_table)
  have "map sc_kind (st_scopes (f st)) = [] @ scope_kinds s"
    using assms[OF st(2)] st(1) by (simp add: scope_kinds_def)
  from reaches_set_table[OF reaches_refl[OF c] _ this] show "ok (reaches M s {} [] 0 0) (on_symbols f s)"
    using assms[OF st(2)] st(1) by (simp add: on_symbols_def)
qed

lemma define_scopes_kinds: "map sc_kind (define_scopes n b scs) = map sc_kind scs"
  by (cases scs) (auto simp: define_scopes_def Let_def map_update nth_Cons' list_update_same_conv
      split: option.splits nat.splits dest: func_index_split)

lemma define_keeps:
  "wf_symtab st \<Longrightarrow> wf_symtab (sym_define n b st) \<and>
   map sc_kind (st_scopes (sym_define n b st)) = map sc_kind (st_scopes st)"
  by (intro conjI wf_sym_define) (simp_all add: sym_define_def define_scopes_kinds)

lemma good_define [simp]: "good M (on_symbols (sym_define n b))"
  by (rule good_on_symbols) (rule define_keeps)

lemma good_define_function [simp]: "good M (on_symbols (define_function n))"
  by (rule good_on_symbols) (simp add: define_function_def define_keeps)

lemma fold_keeps:
  assumes "\<And>x st. x \<in> set xs \<Longrightarrow> wf_symtab st \<Longrightarrow>
      wf_symtab (f x st) \<and> map sc_kind (st_scopes (f x st)) = map sc_kind (st_scopes st)"
    and "wf_symtab st"
  shows "wf_symtab (fold f xs st) \<and> map sc_kind (st_scopes (fold f xs st)) = map sc_kind (st_scopes st)"
  using assms by (induction xs arbitrary: st) auto

lemma good_define_all [simp]: "good M (on_symbols (fold (\<lambda>n. sym_define n b) ns))"
  by (rule good_on_symbols, rule fold_keeps) (auto simp: define_keeps)

lemma good_predeclare_block [simp]: "good M (predeclare_block ss)"
  unfolding predeclare_block_def
  by (rule good_on_symbols, rule fold_keeps) (auto simp: define_keeps split: stmt.split)

section \<open>Name resolution\<close>

definition symbol_fact :: "symbol option \<Rightarrow> comp \<Rightarrow> bool" where
  "symbol_fact r v \<longleftrightarrow> (\<forall>y. r = Some y \<longrightarrow>
     (sym_scope y = Local \<longrightarrow> in_function_scope v \<longrightarrow> sym_index y \<noteq> None) \<and>
     (sym_scope y = UpvalueSym \<longrightarrow> sym_index y \<noteq> None))"

lemma in_function_kinds: "in_function_scope v \<longleftrightarrow> FunctionScope \<in> set (scope_kinds v)"
proof -
  have "func_index scs \<noteq> None \<longleftrightarrow> FunctionScope \<in> set (map sc_kind scs)" for scs
    by (induction scs) auto
  then show ?thesis
    by (simp add: in_function_scope_def scope_kinds_def in_function_def split: option.split)
qed

lemma symbol_fact_kinds: "symbol_fact r u \<Longrightarrow> scope_kinds v = scope_kinds u \<Longrightarrow> symbol_fact r v"
  by (simp add: symbol_fact_def in_function_kinds)

lemma chain_grows_kinds: "chain_grows as bs \<Longrightarrow> map sc_kind bs = map sc_kind as"
  unfolding chain_grows_def by (induction rule: list_all2_induct) (auto simp: scope_grows_def)

lemma wp_resolving:
  assumes r: "reaches M s0 H ks n d u"
    and k: "\<And>sy v. reaches M s0 H ks n d v \<Longrightarrow> symbol_fact sy v \<Longrightarrow> length (code v) = length (code u) \<Longrightarrow>
       ok P (k sy v)"
  shows "ok P (resolving name k u)"
proof -
  obtain st where st: "cur_table u = Some st" "wf_symtab st" "symbols u = Some (Some M)"
    using reachesD(1)[OF r] by (rule cinv_table)
  obtain sy st' where rs: "resolve name st = (sy, st')" by (cases "resolve name st")
  note ok = resolve_ok[OF st(2) rs]
  have kk: "map sc_kind (st_scopes st') = ks @ scope_kinds s0"
    using chain_grows_kinds[of "st_scopes st" "st_scopes st'"] ok reachesD(8)[OF r] st(1)
    by (simp add: scope_kinds_def)
  have v: "reaches M s0 H ks n d (set_table st' u)"
    using reaches_set_table[OF r _ kk] ok by blast
  have "cur_table (set_table st' u) = Some st'" using st(3) by (simp add: set_table_def cur_table_def)
  then have "symbol_fact sy (set_table st' u)"
    using ok by (auto simp: symbol_fact_def in_function_scope_def resolved_ok_def)
  then show ?thesis using k[OF v] st(1) rs by (simp add: resolving_def resolve_symbol_def)
qed

lemma raise_syntax_ok [simp]: "ok P (raise_syntax msg m u)"
  by (simp add: raise_syntax_def ok_err_def)

lemma good_skip [simp]: "good M skipE"
  by (simp add: good_def reaches_refl)

lemma good_seqs:
  assumes "\<And>a. a \<in> set as \<Longrightarrow> good M a"
  shows "good M (seqs as)"
proof -
  have "ok P (seqs as u)" if "reaches M s0 {} [] 0 0 u" "\<And>v. reaches M s0 {} [] 0 0 v \<Longrightarrow> P v" for s0 u P
    using assms that
  proof (induction as arbitrary: u)
    case (Cons a as)
    show ?case
      by (rule wp_seqs, rule wp_good[OF Cons.prems(2), of a]) (use Cons in auto)
  qed simp
  then show ?thesis unfolding good_def using reaches_refl by blast
qed

lemma good_Nil [simp]: "good M (seqs [])"
  by (rule good_seqs) simp

lemma good_Cons: "good M a \<Longrightarrow> good M (seqs as) \<Longrightarrow> good M (seqs (a # as))"
  unfolding good_def
proof (intro allI impI)
  fix s assume a: "\<forall>s. cinv M s \<longrightarrow> ok (reaches M s {} [] 0 0) (a s)"
    and as: "\<forall>s. cinv M s \<longrightarrow> ok (reaches M s {} [] 0 0) (seqs as s)" and c: "cinv M s"
  have g: "good M a" "good M (seqs as)" using a as by (simp_all add: good_def)
  show "ok (reaches M s {} [] 0 0) (seqs (a # as) s)"
    by (rule wp_seqs, rule wp_good[OF reaches_refl[OF c] g(1)], rule wp_good[OF _ g(2)])
qed

text \<open>A rule to prove goodness with the rules above.\<close>

lemma goodI:
  assumes "\<And>s. cinv M s \<Longrightarrow> reaches M s {} [] 0 0 s \<Longrightarrow> scope_kinds s \<noteq> [] \<Longrightarrow>
     ok (reaches M s {} [] 0 0) (a s)"
  shows "good M a"
  unfolding good_def using assms reaches_refl cinv_kinds by blast

definition plain :: "instr \<Rightarrow> bool" where
  "plain i \<longleftrightarrow> targets i = [] \<and> i \<noteq> LOAD_UPVALUE None \<and> i \<noteq> STORE_UPVALUE None"

lemma plain_ok: "plain i \<Longrightarrow> instr_ok n i" "plain i \<Longrightarrow> \<not> unpatched i"
  by (simp_all add: plain_def instr_ok_def targets_below_def unpatched_def)

lemma good_emit: "plain i \<Longrightarrow> good M (emitA i)"
  by (rule goodI, rule wp_emit) (auto simp: plain_ok)

lemma plain_simps [simp]:
  "plain (PUSH_CONST c)" "plain (FRAME_SIZE k)" "plain (LOAD nm)" "plain (LOAD_LOCAL_IDX k)"
  "plain (STORE nm)" "plain (STORE_LOCAL_IDX k)" "plain (RESET_LOCAL_IDX k)" "plain (STORE_ARG nm)"
  "plain POP" "plain ADD" "plain SUB" "plain MUL" "plain DIV" "plain MOD" "plain EQ" "plain NE"
  "plain LT" "plain GT" "plain LE" "plain GE" "plain GET_ITER" "plain POP_TRY" "plain FINALLY_END"
  "plain TO_BOOL" "plain instr.NOT" "plain NEG" "plain (BUILD_LIST k)" "plain (BUILD_MAP k)"
  "plain (BUILD_RECORD k)" "plain (BUILD_MODULE k)" "plain INDEX" "plain INDEX_SET"
  "plain (LOAD_FIELD nm)" "plain (STORE_FIELD nm)" "plain (CALL nm k)" "plain (CALL_VALUE k)"
  "plain (MAKE_CLOSURE nm)" "plain (CALL_METHOD nm k)" "plain THROW" "plain YIELD" "plain RETURN"
  "plain HALT" "plain (LOAD_UPVALUE (Some k))" "plain (STORE_UPVALUE (Some k))"
  by (simp_all add: plain_def)


lemma good_visit: "in_module M m \<Longrightarrow> good M (visit m)"
proof (rule goodI)
  fix s assume m: "in_module M m" and c: "cinv M s"
  obtain st where st: "symbols s = Some (Some M)" "symbol_tables s (Some M) = Some st"
    using c by (rule cinv_table)
  have "current_module s = Some M" using c by (simp add: cinv_def)
  then have "set_current_module m s = Inr s"
    using m st by (auto simp: in_module_def set_current_module_def)
  then have v: "visit m s = set_current_loc m s" by (simp add: visit_def bindE_def split: sum.split)
  have "reaches M s {} [] 0 0 (s\<lparr>current_loc := l\<rparr>)" for l
    using reaches_refl[OF c]
    by (simp add: reaches_def cinv_def pend_def scope_kinds_def cur_table_def cong: option.case_cong)
  then show "ok (reaches M s {} [] 0 0) (visit m s)"
    unfolding v set_current_loc_def using reaches_refl[OF c] by (auto split: option.split)
qed

lemma good_set_loc: "good M (set_current_loc m)"
proof (rule goodI)
  fix s assume c: "cinv M s"
  have "reaches M s {} [] 0 0 (s\<lparr>current_loc := l\<rparr>)" for l
    using reaches_refl[OF c]
    by (simp add: reaches_def cinv_def pend_def scope_kinds_def cur_table_def cong: option.case_cong)
  then show "ok (reaches M s {} [] 0 0) (set_current_loc m s)"
    unfolding set_current_loc_def using reaches_refl[OF c] by (auto split: option.split)
qed

lemma good_raise [simp]: "good M (raise_syntax msg m)"
  by (simp add: good_def)

lemma good_reject [simp]: "good M (reject_reserved_name name m)"
  by (rule goodI) (simp add: reject_reserved_name_def)

lemma good_check_hidden: "good M (check_not_hidden name m)"
  by (rule goodI) (simp add: check_not_hidden_def split: option.split)

lemma good_ensure_name_access [simp]: "good M (ensure_name_access name m)"
proof (cases "starts_with name BUILTIN_CALL_PREFIX")
  case True
  then show ?thesis by (simp add: ensure_name_access_def)
next
  case False
  show ?thesis
  proof (rule goodI)
    fix s assume c: "reaches M s {} [] 0 0 s"
    show "ok (reaches M s {} [] 0 0) (ensure_name_access name m s)"
      unfolding ensure_name_access_def if_not_P[OF False]
    proof (rule wp_resolving[OF c])
      fix sy v assume v: "reaches M s {} [] 0 0 v"
      have "ok (reaches M s {} [] 0 0) (check_not_hidden name m v)"
        by (rule wp_good[OF v good_check_hidden])
      then show "ok (reaches M s {} [] 0 0)
        (if sy \<noteq> None then Inr v else case current_module_info v of None \<Rightarrow> Inr v
          | Some info \<Rightarrow>
             (if current_module v = Some (py ''<repl>'') then Inr v
              else if name \<in> mi_defs info \<and>
                (case cur_table v of None \<Rightarrow> True | Some st \<Rightarrow> is_defined_in_module name st) then Inr v
              else if mi_imports info name \<noteq> None then Inr v
              else if name \<in> builtin_names v then Inr v
              else case module_defs_index v name of
                  None \<Rightarrow> check_not_hidden name m v
                | Some owners \<Rightarrow>
                   (if mi_path info \<notin> owners
                    then raise_syntax (py ''Symbol '' @ quote_mark @ name @ quote_mark @
                           py '' is private to module(s): '' @
                           join_str (py '', '') (sorted_list_of_set owners) @
                           py ''. Import it to use it here.'') m v
                    else check_not_hidden name m v)))"
        using v by (auto split: option.split)
    qed
  qed
qed

lemma wp_resolve_name:
  assumes r: "reaches M s0 H ks n d u"
    and k: "\<And>q v. reaches M s0 H ks n d v \<Longrightarrow> length (code v) = length (code u) \<Longrightarrow> ok P (k q v)"
  shows "ok P (resolve_name name k u)"
  unfolding resolve_name_def
  by (rule wp_resolving[OF r]) (auto simp: k split: option.split)

lemma wp_resolve_store_name:
  assumes r: "reaches M s0 H ks n d u"
    and k: "\<And>q v. reaches M s0 H ks n d v \<Longrightarrow> length (code v) = length (code u) \<Longrightarrow> ok P (k q v)"
  shows "ok P (resolve_store_name name k u)"
  unfolding resolve_store_name_def
  by (rule wp_resolving[OF r]) (auto simp: k split: option.split)

lemma good_emit_store [simp]: "good M (emit_store sy name)"
proof (rule goodI)
  fix s assume r: "reaches M s {} [] 0 0 s"
  show "ok (reaches M s {} [] 0 0) (emit_store sy name s)"
    unfolding emit_store_def by (rule wp_emit[OF r]) (auto simp: plain_ok split: option.split)
qed

lemma good_emit_load [simp]: "good M (emit_load sy name)"
proof (rule goodI)
  fix s assume r: "reaches M s {} [] 0 0 s"
  show "ok (reaches M s {} [] 0 0) (emit_load sy name s)"
    unfolding emit_load_def by (rule wp_emit[OF r]) (auto simp: plain_ok split: option.split)
qed

lemma good_resolving: "(\<And>sy. good M (k sy)) \<Longrightarrow> good M (resolving name k)"
  by (rule goodI, rule wp_resolving, assumption, rule wp_good) auto

lemma good_resolve_name: "(\<And>q. good M (k q)) \<Longrightarrow> good M (resolve_name name k)"
  by (rule goodI, rule wp_resolve_name, assumption, rule wp_good) auto

lemma good_resolve_store_name: "(\<And>q. good M (k q)) \<Longrightarrow> good M (resolve_store_name name k)"
  by (rule goodI, rule wp_resolve_store_name, assumption, rule wp_good) auto

lemma good_resolve_module_name: "(\<And>q. good M (k q)) \<Longrightarrow> good M (resolve_module_name al name m k)"
proof (rule goodI)
  fix s assume k: "\<And>q. good M (k q)" and r: "reaches M s {} [] 0 0 s"
  have "ok (reaches M s {} [] 0 0) (k q s)" for q by (rule wp_good[OF r k])
  then show "ok (reaches M s {} [] 0 0) (resolve_module_name al name m k s)"
    by (simp add: resolve_module_name_def split: option.split)
qed

lemma good_new_temp: "(\<And>t. good M (k t)) \<Longrightarrow> good M (new_temp k)"
proof (rule goodI)
  fix s assume k: "\<And>t. good M (k t)" and r: "reaches M s {} [] 0 0 s"
  have "reaches M s {} [] 0 0 (s\<lparr>temp_counter := t\<rparr>)" for t
    using r
    by (simp add: reaches_def cinv_def pend_def scope_kinds_def cur_table_def cong: option.case_cong)
  then show "ok (reaches M s {} [] 0 0) (new_temp k s)"
    unfolding new_temp_def by (rule wp_good) (rule k)
qed

lemma good_store_temp [simp]: "good M (store_temp name)"
  unfolding store_temp_def by (intro good_Cons good_Nil good_resolving) simp_all

lemma good_load_temp [simp]: "good M (load_temp name)"
  unfolding load_temp_def by (intro good_resolving) simp

lemma good_push_index [simp]: "good M (push_index i)"
  by (simp add: push_index_def good_emit split: option.split) (simp add: good_def ok_err_def)

lemma good_destructure [simp]: "good M (destructure_from_stack p)"
proof (induction p rule: destructure_from_stack.induct)
  case (1 m name)
  then show ?case by (simp add: good_resolving)
next
  case (2 m elements)
  have "good M item" if "(i, item) \<in> set (enumerate 0 (map destructure_from_stack elements))" for i item
    using that 2 by (auto simp: in_set_enumerate_eq)
  then show ?case unfolding destructure_from_stack.simps
    by (intro good_new_temp good_Cons good_Nil good_resolving)
      (auto intro!: good_seqs simp: good_emit)
next
  case (3 m flds)
  then show ?case unfolding destructure_from_stack.simps
    by (intro good_new_temp good_Cons good_Nil good_resolving)
      (auto intro!: good_seqs simp: good_emit)
qed

lemma good_destructure_name [simp]: "good M (destructure_from_name p t)"
  unfolding destructure_from_name_def by (intro good_Cons good_Nil good_resolving) simp_all

end
