(* ===== verification/Compiler_Constructs.thy ===== *)
theory Compiler_Constructs
  imports Compiler_Rules
begin

text \<open>
  Every piece of the compiler that is not recursive is good: variables, assignment, operators,
  calls, declarations, branches, loops, try regions, function definitions and match arms, each for
  any good action in the place of its sub-expressions and sub-statements.
\<close>

section \<open>The constructs\<close>

declare seqs.simps(2) [simp del]

lemma jump_ok:
  "t \<le> n \<Longrightarrow> instr_ok n (JUMP (Some t))" "t \<le> n \<Longrightarrow> instr_ok n (JUMP_IF_FALSE (Some t))"
  "t \<le> n \<Longrightarrow> instr_ok n (JUMP_IF_TRUE (Some t))" "t \<le> n \<Longrightarrow> instr_ok n (ITER_NEXT (Some t))"
  "t \<le> n \<Longrightarrow> instr_ok n (SETUP_TRY (Some t) None)" "t \<le> n \<Longrightarrow> instr_ok n (SETUP_TRY (Some t) (Some None))"
  "t \<le> n \<Longrightarrow> t' \<le> n \<Longrightarrow> instr_ok n (SETUP_TRY (Some t) (Some (Some t')))"
  "instr_ok n (JUMP None)" "instr_ok n (JUMP_IF_FALSE None)" "instr_ok n (JUMP_IF_TRUE None)"
  "instr_ok n (ITER_NEXT None)" "instr_ok n (SETUP_TRY None None)" "instr_ok n (SETUP_TRY None (Some None))"
  by (auto simp: instr_ok_def targets_below_def)

lemma jump_patched [simp]:
  "\<not> unpatched (JUMP (Some t))" "\<not> unpatched (JUMP_IF_FALSE (Some t))" "\<not> unpatched (JUMP_IF_TRUE (Some t))"
  "\<not> unpatched (ITER_NEXT (Some t))" "\<not> unpatched (SETUP_TRY (Some t) None)"
  "\<not> unpatched (SETUP_TRY (Some t) (Some (Some t')))"
  by (simp_all add: unpatched_def)

lemma reaches_close: "reaches M s H ks n d v \<Longrightarrow> H \<subseteq> {} \<Longrightarrow> reaches M s {} ks n d v"
  by (simp add: subset_empty)

lemma good_compile_var [simp]: "good M (compile_var m name)"
proof (rule goodI)
  fix s assume r: "reaches M s {} [] 0 0 s"
  show "ok (reaches M s {} [] 0 0) (compile_var m name s)"
    unfolding compile_var_def
  proof (rule wp_resolving[OF r])
    fix sy v assume v: "reaches M s {} [] 0 0 v" and f: "symbol_fact sy v"
    have named: "ok (reaches M s {} [] 0 0)
        (seqs [ensure_name_access name m, resolve_name name (\<lambda>n. emitA (LOAD n))] v)"
      by (rule wp_good[OF v]) (auto intro!: good_Cons good_resolve_name good_emit)
    have idx: "ok (reaches M s {} [] 0 0) (emitA (LOAD_LOCAL_IDX i) v)" for i
      by (rule wp_good[OF v good_emit]) simp_all
    have up: "ok (reaches M s {} [] 0 0) (emitA (LOAD_UPVALUE (Some i)) v)" for i
      by (rule wp_good[OF v good_emit]) simp_all
    show "ok (reaches M s {} [] 0 0) (case sy of
       Some y \<Rightarrow>
         (if sym_scope y = UpvalueSym then emitA (LOAD_UPVALUE (sym_index y)) v
          else if sym_scope y = Local \<and> in_function_scope v
          then (case sym_index y of
                  None \<Rightarrow> Inl (no_slot_index name (py ''. This indicates a missing slot assignment in SymbolTable.''))
                | Some i \<Rightarrow> emitA (LOAD_LOCAL_IDX i) v)
          else seqs [ensure_name_access name m, resolve_name name (\<lambda>n. emitA (LOAD n))] v)
     | None \<Rightarrow> seqs [ensure_name_access name m, resolve_name name (\<lambda>n. emitA (LOAD n))] v)"
      using f named idx up by (auto simp: symbol_fact_def split: option.split)
  qed
qed

lemma wp_assign_store:
  assumes v: "reaches M s {} [] 0 0 v" and f: "symbol_fact sy v"
  shows "ok (reaches M s {} [] 0 0) (assign_store name sy v)"
proof -
  have st: "ok (reaches M s {} [] 0 0) (seqs [emitA (STORE q), emitA (LOAD q)] u)"
    "ok (reaches M s {} [] 0 0) (seqs [emitA (STORE_LOCAL_IDX i), emitA (LOAD_LOCAL_IDX i)] u)"
    "ok (reaches M s {} [] 0 0) (seqs [emitA (STORE_UPVALUE (Some i)), emitA (LOAD_UPVALUE (Some i))] u)"
    if "reaches M s {} [] 0 0 u" for q i u
    by (rule wp_good[OF that]; auto intro!: good_Cons good_emit)+
  show ?thesis
  proof (cases sy)
    case None
    then show ?thesis unfolding assign_store_def
      by (simp) (rule wp_resolve_store_name[OF v], rule st)
  next
    case (Some y)
    show ?thesis
    proof (cases "sym_scope y = UpvalueSym")
      case True
      with Some f obtain i where "sym_index y = Some i" by (auto simp: symbol_fact_def)
      then show ?thesis using Some True st(3)[OF v] by (simp add: assign_store_def)
    next
      case False
      have "ok (reaches M s {} [] 0 0) (if sym_scope y = Local \<and> in_function_scope u
           then (case sym_index y of
                   None \<Rightarrow> Inl (no_slot_index name (py '' in Assign expression.''))
                 | Some i \<Rightarrow> seqs [emitA (STORE_LOCAL_IDX i), emitA (LOAD_LOCAL_IDX i)] u)
           else seqs [emitA (STORE q), emitA (LOAD q)] u)"
        if u: "reaches M s {} [] 0 0 u" for q u
      proof -
        have "scope_kinds u = scope_kinds v" using reachesD(8)[OF u] reachesD(8)[OF v] by simp
        from symbol_fact_kinds[OF f this] Some have "sym_scope y = Local \<Longrightarrow> in_function_scope u \<Longrightarrow> sym_index y \<noteq> None"
          by (simp add: symbol_fact_def)
        then show ?thesis using st[OF u] by (auto split: option.split)
      qed
      then show ?thesis unfolding assign_store_def Some using False
        by (simp) (rule wp_resolve_store_name[OF v])
    qed
  qed
qed

lemma good_assign_with:
  assumes g: "good M value"
  shows "good M (assign_with name value)"
proof (rule goodI)
  fix s assume r: "reaches M s {} [] 0 0 s"
  have store: "ok (reaches M s {} [] 0 0) (seqs [value, assign_store name sy] u)"
    if u: "reaches M s {} [] 0 0 u" and f: "symbol_fact sy u" for sy u
  proof (rule wp_seqs, rule wp_good[OF u g], rule wp_seqs)
    fix v assume v: "reaches M s {} [] 0 0 v"
    have "scope_kinds v = scope_kinds u" using reachesD(8)[OF u] reachesD(8)[OF v] by simp
    from wp_assign_store[OF v symbol_fact_kinds[OF f this]]
    show "ok (\<lambda>v. ok (reaches M s {} [] 0 0) (seqs [] v)) (assign_store name sy v)" by simp
  qed
  show "ok (reaches M s {} [] 0 0) (assign_with name value s)"
    unfolding assign_with_def
  proof (rule wp_resolving[OF r])
    fix sy v assume v: "reaches M s {} [] 0 0 v" and f: "symbol_fact sy v"
    have "ok (reaches M s {} [] 0 0) (seqs [on_symbols (sym_define name False),
        resolving name (\<lambda>symbol. seqs [value, assign_store name symbol])] v)"
    proof (rule wp_seqs, rule wp_good[OF v good_define], rule wp_seqs)
      fix w assume w: "reaches M s {} [] 0 0 w"
      have "ok (reaches M s {} [] 0 0) (resolving name (\<lambda>symbol. seqs [value, assign_store name symbol]) w)"
        by (rule wp_resolving[OF w]) (rule store)
      then show "ok (\<lambda>v. ok (reaches M s {} [] 0 0) (seqs [] v))
          (resolving name (\<lambda>symbol. seqs [value, assign_store name symbol]) w)" by simp
    qed
    then show "ok (reaches M s {} [] 0 0) (if sy = None \<and> cur_table v \<noteq> None
       then seqs [on_symbols (sym_define name False),
              resolving name (\<lambda>symbol. seqs [value, assign_store name symbol])] v
       else seqs [value, assign_store name sy] v)"
      using store[OF v f] by (simp)
  qed
qed

lemma good_failE: "ok_err e \<Longrightarrow> good M (failE e)"
  by (simp add: good_def)

lemma good_bin_with:
  assumes a: "good M a" and b: "good M b"
  shows "good M (bin_with op a b)"
proof (rule goodI)
  fix s assume r: "reaches M s {} [] 0 0 s"
  have short: "ok (reaches M s {} [] 0 0) (seqs [a, emit_idx (jmp None) (\<lambda>j. seqs
      [b, emitA TO_BOOL, emit_idx (JUMP None) (\<lambda>je. here (\<lambda>addr. seqs
        [emitA (PUSH_CONST c), patchA j (jmp (Some addr)),
         here (\<lambda>e. patchA je (JUMP (Some e)))]))])] s)"
    if jmp: "\<And>n. instr_ok n (jmp None)" "\<And>t n. t \<le> n \<Longrightarrow> instr_ok n (jmp (Some t))"
      "\<And>t. \<not> unpatched (jmp (Some t))" for jmp c
    apply (rule wp_seqs, rule wp_good[OF r a], rule wp_seqs, rule wp_emit_idx, assumption, rule jmp)
    apply (rule wp_seqs, rule wp_good, assumption, rule b)
    apply (rule wp_seqs, rule wp_good, assumption, rule good_emit, simp)
    apply (rule wp_seqs, rule wp_emit_idx, assumption, rule jump_ok, rule wp_here)
    apply (rule wp_seqs, rule wp_good, assumption, rule good_emit, simp)
    apply (rule wp_seqs, rule wp_patch, assumption, simp, simp add: jmp, simp add: jmp)
    apply (rule wp_seqs, rule wp_here, rule wp_patch, assumption, simp, simp add: jump_ok, simp)
    apply ((rule wp_nil)+, erule reaches_close, auto)
    done
  show "ok (reaches M s {} [] 0 0) (bin_with op a b s)"
  proof (cases "op = py ''&&'' \<or> op = py ''||''")
    case True
    then show ?thesis unfolding bin_with_def
      using short[of JUMP_IF_FALSE] short[of JUMP_IF_TRUE] by (auto simp: jump_ok)
  next
    case False
    have "plain i" if "op_instr op = Some i" for i
      using that by (auto simp: op_instr_def split: if_splits)
    then have "good M (seqs [a, b, (case op_instr op of
          None \<Rightarrow> failE (ValueErr (py ''Unknown operator: '' @ op)) | Some i \<Rightarrow> emitA i)])"
      by (intro good_Cons good_Nil a b) (auto simp: good_emit good_failE ok_err_def split: option.split)
    from wp_good[OF r this] show ?thesis using False by (simp add: bin_with_def)
  qed
qed

lemma good_unary_with: "good M e \<Longrightarrow> good M (unary_with op e)"
  unfolding unary_with_def by (intro good_Cons good_Nil) (auto simp: good_emit good_failE ok_err_def)

lemma good_call_var:
  assumes a: "good M args"
  shows "good M (call_var m name args n)"
proof (rule goodI)
  fix s assume r: "reaches M s {} [] 0 0 s"
  show "ok (reaches M s {} [] 0 0) (call_var m name args n s)"
    unfolding call_var_def
  proof (rule wp_resolving[OF r])
    fix sy v assume v: "reaches M s {} [] 0 0 v" and f: "symbol_fact sy v"
    have direct: "ok (reaches M s {} [] 0 0)
        (seqs [args, ensure_name_access name m, resolve_name name (\<lambda>q. emitA (CALL q n))] v)"
      by (rule wp_good[OF v]) (auto intro!: good_Cons good_resolve_name good_emit a)
    have "ok (reaches M s {} [] 0 0) (seqs
        [if sym_scope y = UpvalueSym then emitA (LOAD_UPVALUE (sym_index y))
         else if sym_scope y = Local \<and> in_function_scope v
         then (case sym_index y of None \<Rightarrow> failE (no_slot_index name (py '' in Call expression.''))
             | Some i \<Rightarrow> emitA (LOAD_LOCAL_IDX i))
         else resolve_name name (\<lambda>q. emitA (LOAD q)), args, emitA (CALL_VALUE n)] v)"
      if "sy = Some y" for y
      using f that a by (intro wp_good[OF v] good_Cons good_Nil)
        (auto simp: symbol_fact_def good_emit good_resolve_name split: option.split)
    then show "ok (reaches M s {} [] 0 0) (let direct = seqs [args, ensure_name_access name m, resolve_name name (\<lambda>q. emitA (CALL q n))]
     in case sy of
         None \<Rightarrow> direct v
       | Some y \<Rightarrow>
          (if is_slot_symbol sy \<or> (sym_scope y = Global \<and> \<not> sym_is_function y)
           then seqs
             [if sym_scope y = UpvalueSym then emitA (LOAD_UPVALUE (sym_index y))
              else if sym_scope y = Local \<and> in_function_scope v
              then (case sym_index y of
                  None \<Rightarrow> failE (no_slot_index name (py '' in Call expression.''))
                | Some i \<Rightarrow> emitA (LOAD_LOCAL_IDX i))
              else resolve_name name (\<lambda>q. emitA (LOAD q)),
              args, emitA (CALL_VALUE n)] v
           else direct v))"
      using direct by (auto simp: Let_def split: option.split)
  qed
qed

lemma good_let_with:
  assumes "good M value"
  shows "good M (let_with m name value)"
proof -
  have "good M (resolving name (\<lambda>symbol s. case slot_of symbol s of
          Some i \<Rightarrow> seqs [emitA (RESET_LOCAL_IDX i), emitA (STORE_LOCAL_IDX i)] s
        | None \<Rightarrow> resolve_store_name name (\<lambda>n. emitA (STORE n)) s))" (is "good M (resolving name ?k)")
  proof (rule good_resolving, rule goodI)
    fix sy s assume r: "reaches M s {} [] 0 0 s"
    have "ok (reaches M s {} [] 0 0) (seqs [emitA (RESET_LOCAL_IDX i), emitA (STORE_LOCAL_IDX i)] s)"
      "ok (reaches M s {} [] 0 0) (resolve_store_name name (\<lambda>n. emitA (STORE n)) s)" for i
      by (rule wp_good[OF r]; auto intro!: good_Cons good_emit good_resolve_store_name)+
    then show "ok (reaches M s {} [] 0 0) (?k sy s)" by (auto split: option.split)
  qed
  then show ?thesis unfolding let_with_def using assms by (intro good_Cons good_Nil) simp_all
qed

lemma good_flow_with: "good M value \<Longrightarrow> good M (flow_with name value)"
  unfolding flow_with_def
  by (intro good_Cons good_Nil) (auto intro!: good_resolve_store_name good_emit)

lemma good_scoped:
  assumes "k \<noteq> ModuleScope" and b: "good M (seqs body)"
  shows "good M (seqs (on_symbols (enter_scope k) # body @ [on_symbols exit_scope]))"
proof (rule goodI)
  have split: "ok P (seqs (as @ bs) w) = ok (\<lambda>v. ok P (seqs bs v)) (seqs as w)" for as bs w P
    by (cases "seqs as w") (simp_all add: seqs_append)
  fix s assume r: "reaches M s {} [] 0 0 s" and sk: "scope_kinds s \<noteq> []"
  show "ok (reaches M s {} [] 0 0) (seqs (on_symbols (enter_scope k) # body @ [on_symbols exit_scope]) s)"
    apply (rule wp_seqs, rule wp_enter[OF r assms(1)])
    apply (subst split, rule wp_good, assumption, rule b)
    apply (rule wp_seqs, rule wp_exit, assumption, rule sk, rule wp_nil, assumption)
    done
qed

lemma good_block_with:
  assumes "\<And>a. a \<in> set body \<Longrightarrow> good M a"
  shows "good M (block_with ss body)"
  using good_scoped[of BlockScope M "[predeclare_block ss, seqs body]"] assms
  by (simp add: block_with_def good_Cons good_seqs)

lemma good_catch_with: "good M body \<Longrightarrow> good M (catch_with var body)"
  using good_scoped[of BlockScope M "[on_symbols (sym_define var False),
      resolving var (\<lambda>symbol. emit_store symbol var), body]"]
  by (simp add: catch_with_def good_Cons good_resolving)

lemma good_if_with:
  assumes c: "good M c" and t: "good M t" and e: "\<And>x. e = Some x \<Longrightarrow> good M x"
  shows "good M (if_with c t e)"
proof (rule goodI)
  fix s assume r: "reaches M s {} [] 0 0 s"
  show "ok (reaches M s {} [] 0 0) (if_with c t e s)"
  proof (cases e)
    case None
    show ?thesis unfolding if_with_def None option.case
      apply (rule wp_seqs, rule wp_good[OF r c], rule wp_seqs, rule wp_emit_idx, assumption, rule jump_ok)
      apply (rule wp_seqs, rule wp_good, assumption, rule t)
      apply (rule wp_seqs, rule wp_here, rule wp_patch, assumption, simp, simp add: jump_ok, simp)
      apply ((rule wp_nil)+, erule reaches_close, auto)
      done
  next
    case (Some x)
    show ?thesis unfolding if_with_def Some option.case
      apply (rule wp_seqs, rule wp_good[OF r c], rule wp_seqs, rule wp_emit_idx, assumption, rule jump_ok)
      apply (rule wp_seqs, rule wp_good, assumption, rule t)
      apply (rule wp_seqs, rule wp_emit_idx, assumption, rule jump_ok)
      apply (rule wp_seqs, rule wp_here, rule wp_patch, assumption, simp, simp add: jump_ok, simp)
      apply (rule wp_seqs, rule wp_good, assumption, rule e[OF Some])
      apply (rule wp_seqs, rule wp_here, rule wp_patch, assumption, simp, simp add: jump_ok, simp)
      apply ((rule wp_nil)+, erule reaches_close, auto)
      done
  qed
qed

lemma good_while_with:
  assumes c: "good M c" and b: "good M body"
  shows "good M (while_with c body)"
proof (rule goodI)
  fix s assume r: "reaches M s {} [] 0 0 s"
  show "ok (reaches M s {} [] 0 0) (while_with c body s)"
    unfolding while_with_def
    apply (rule wp_here, rule wp_seqs, rule wp_good[OF r c])
    apply (rule wp_seqs, rule wp_emit_idx, assumption, rule jump_ok)
    apply (rule wp_seqs, rule wp_push_loop, assumption)
    apply (rule wp_seqs, rule wp_good, assumption, rule b)
    apply (rule wp_seqs, rule wp_pop_loop, assumption)
    apply (rule wp_seqs, rule wp_emit, assumption, simp add: jump_ok, simp)
    apply (rule wp_seqs, rule wp_here)
    apply (rule wp_seqs, rule wp_patch, assumption, simp, simp add: jump_ok, simp)
    apply (rule wp_seqs, rule wp_patch_loop[where H = "{}"])
    apply (erule back_subst[where P = "\<lambda>H. reaches M s H [] 0 0 _"], blast)
    apply (assumption, simp, simp, simp)
    apply ((rule wp_nil)+, erule reaches_close, auto)
    done
qed

lemma good_for_loop:
  assumes c: "good M c" and i: "good M inc" and b: "good M body"
  shows "good M (here (\<lambda>loop_start. seqs [c, emit_idx (JUMP_IF_FALSE None) (\<lambda>jmp_false. seqs
       [push_loop False, body, pop_loop (\<lambda>frame. here (\<lambda>continue_target. seqs
          [inc, emitA (JUMP (Some loop_start)), here (\<lambda>end_addr. seqs
             [patchA jmp_false (JUMP_IF_FALSE (Some end_addr)),
              patch_loop frame end_addr continue_target])]))])]))" (is "good M ?loop")
proof (rule goodI)
  fix s assume r: "reaches M s {} [] 0 0 s"
  show "ok (reaches M s {} [] 0 0) (?loop s)"
    apply (rule wp_here, rule wp_seqs, rule wp_good[OF r c])
    apply (rule wp_seqs, rule wp_emit_idx, assumption, rule jump_ok)
    apply (rule wp_seqs, rule wp_push_loop, assumption)
    apply (rule wp_seqs, rule wp_good, assumption, rule b)
    apply (rule wp_seqs, rule wp_pop_loop, assumption, rule wp_here)
    apply (rule wp_seqs, rule wp_good, assumption, rule i)
    apply (rule wp_seqs, rule wp_emit, assumption, simp add: jump_ok, simp)
    apply (rule wp_seqs, rule wp_here)
    apply (rule wp_seqs, rule wp_patch, assumption, simp, simp add: jump_ok, simp)
    apply (rule wp_seqs, rule wp_patch_loop[where H = "{}"])
    apply (erule back_subst[where P = "\<lambda>H. reaches M s H [] 0 0 _"], blast)
    apply (assumption, simp, simp, simp)
    apply ((rule wp_nil)+, erule reaches_close, auto)
    done
qed

lemma good_for_with:
  assumes "good M init" "good M c" "good M inc" "good M body"
  shows "good M (for_with init c inc body)"
  using good_scoped[of BlockScope M "[init, here (\<lambda>loop_start. seqs [c, emit_idx (JUMP_IF_FALSE None) (\<lambda>jmp_false. seqs
       [push_loop False, body, pop_loop (\<lambda>frame. here (\<lambda>continue_target. seqs
          [inc, emitA (JUMP (Some loop_start)), here (\<lambda>end_addr. seqs
             [patchA jmp_false (JUMP_IF_FALSE (Some end_addr)),
              patch_loop frame end_addr continue_target])]))])])]"]
    good_for_loop[OF assms(2-4)] assms(1)
  by (simp add: for_with_def good_Cons)

definition bind_loop_var :: "pystr \<Rightarrow> caction" where
  "bind_loop_var name = resolving name (\<lambda>symbol s. case slot_of symbol s of
             Some i \<Rightarrow> seqs [emitA (RESET_LOCAL_IDX i), emitA (STORE_LOCAL_IDX i)] s
           | None \<Rightarrow> emitA (STORE name) s)"

lemma good_bind_loop_var: "good M (bind_loop_var name)"
  unfolding bind_loop_var_def
proof (rule good_resolving, rule goodI)
  fix sy s assume r: "reaches M s {} [] 0 0 s"
  have "ok (reaches M s {} [] 0 0) (seqs [emitA (RESET_LOCAL_IDX i), emitA (STORE_LOCAL_IDX i)] s)"
    "ok (reaches M s {} [] 0 0) (emitA (STORE name) s)" for i
    by (rule wp_good[OF r]; auto intro!: good_Cons good_emit)+
  then show "ok (reaches M s {} [] 0 0) (case slot_of sy s of
      Some i \<Rightarrow> seqs [emitA (RESET_LOCAL_IDX i), emitA (STORE_LOCAL_IDX i)] s
    | None \<Rightarrow> emitA (STORE name) s)" by (auto split: option.split)
qed

lemma good_foreach_loop:
  assumes b: "good M body"
  shows "good M (here (\<lambda>loop_start. emit_idx (ITER_NEXT None) (\<lambda>iter_next. seqs
        [bind_loop_var name, push_loop True, body, pop_loop (\<lambda>frame. seqs
           [emitA (JUMP (Some loop_start)), here (\<lambda>end_addr. seqs
             [patchA iter_next (ITER_NEXT (Some end_addr)),
              patch_loop frame end_addr loop_start])])])))" (is "good M ?loop")
proof (rule goodI)
  fix s assume r: "reaches M s {} [] 0 0 s"
  show "ok (reaches M s {} [] 0 0) (?loop s)"
    apply (rule wp_here, rule wp_emit_idx[OF r], rule jump_ok)
    apply (rule wp_seqs, rule wp_good, assumption, rule good_bind_loop_var)
    apply (rule wp_seqs, rule wp_push_loop, assumption)
    apply (rule wp_seqs, rule wp_good, assumption, rule b)
    apply (rule wp_seqs, rule wp_pop_loop, assumption)
    apply (rule wp_seqs, rule wp_emit, assumption, simp add: jump_ok, simp)
    apply (rule wp_seqs, rule wp_here)
    apply (rule wp_seqs, rule wp_patch, assumption, simp, simp add: jump_ok, simp)
    apply (rule wp_seqs, rule wp_patch_loop[where H = "{}"])
    apply (erule back_subst[where P = "\<lambda>H. reaches M s H [] 0 0 _"], blast)
    apply (assumption, simp, simp, simp)
    apply ((rule wp_nil)+, erule reaches_close, auto)
    done
qed

lemma good_foreach_with:
  assumes "good M iterable" "good M body"
  shows "good M (foreach_with name iterable body)"
  using good_scoped[of BlockScope M "[on_symbols (sym_define name False), iterable, emitA GET_ITER,
      here (\<lambda>loop_start. emit_idx (ITER_NEXT None) (\<lambda>iter_next. seqs
        [bind_loop_var name, push_loop True, body, pop_loop (\<lambda>frame. seqs
           [emitA (JUMP (Some loop_start)), here (\<lambda>end_addr. seqs
             [patchA iter_next (ITER_NEXT (Some end_addr)),
              patch_loop frame end_addr loop_start])])]))]"]
    good_foreach_loop[OF assms(2), of name] assms(1)
  by (simp add: foreach_with_def bind_loop_var_def good_Cons good_emit)

lemma good_try_with:
  assumes b: "good M body" and c: "good M catch_body" and f: "\<And>x. fin = Some x \<Longrightarrow> good M x"
  shows "good M (try_with body var catch_body fin)"
proof (rule goodI)
  fix s assume r: "reaches M s {} [] 0 0 s"
  note c' = good_catch_with[OF c, of var]
  show "ok (reaches M s {} [] 0 0) (try_with body var catch_body fin s)"
  proof (cases fin)
    case None
    show ?thesis unfolding try_with_def None option.case
      apply (rule wp_seqs, rule wp_enter_try[OF r])
      apply (rule wp_seqs, rule wp_emit_idx, assumption, rule jump_ok)
      apply (rule wp_seqs, rule wp_good, assumption, rule b)
      apply (rule wp_seqs, rule wp_good, assumption, rule good_emit, simp)
      apply (rule wp_seqs, rule wp_emit_idx, assumption, rule jump_ok, rule wp_here)
      apply (rule wp_seqs, rule wp_patch, assumption, simp, simp add: jump_ok, simp)
      apply (rule wp_seqs, rule wp_good, assumption, rule c')
      apply (rule wp_seqs, rule wp_here, rule wp_patch, assumption, simp, simp add: jump_ok, simp)
      apply (rule wp_nil, rule wp_nil, rule wp_seqs, rule wp_leave_try, assumption)
      apply ((rule wp_nil)+, erule reaches_close, auto)
      done
  next
    case (Some x)
    show ?thesis unfolding try_with_def Some option.case
      apply (rule wp_seqs, rule wp_enter_try[OF r])
      apply (rule wp_seqs, rule wp_emit_idx, assumption, rule jump_ok)
      apply (rule wp_seqs, rule wp_good, assumption, rule b)
      apply (rule wp_seqs, rule wp_good, assumption, rule good_emit, simp)
      apply (rule wp_seqs, rule wp_here)
      apply (rule wp_seqs, rule wp_patch_open, assumption, simp, simp add: jump_ok)
      apply (rule wp_seqs, rule wp_good, assumption, rule c')
      apply (rule wp_seqs, rule wp_emit_idx, assumption, rule jump_ok, rule wp_here)
      apply (rule wp_seqs, rule wp_patch, assumption, simp, simp add: jump_ok, simp)
      apply (rule wp_seqs, rule wp_patch, assumption, simp, simp add: jump_ok, simp)
      apply (rule wp_seqs, rule wp_good, assumption, rule f[OF Some])
      apply (rule wp_seqs, rule wp_good, assumption, rule good_emit, simp)
      apply (rule wp_nil, rule wp_nil, rule wp_nil, rule wp_seqs, rule wp_leave_try, assumption)
      apply ((rule wp_nil)+, erule reaches_close, auto)
      done
  qed
qed

text \<open>Changes of fields the invariant does not mention.\<close>

lemma reaches_irrelevant:
  assumes "reaches M s0 H ks n d u" and "code v = code u" "code_locs v = code_locs u"
    "loop_stack v = loop_stack u" "try_depth v = try_depth u" "symbols v = symbols u"
    "symbol_tables v = symbol_tables u" "current_module v = current_module u" "c_functions v = c_functions u"
  shows "reaches M s0 H ks n d v"
proof -
  have p: "pend v = pend u" "scope_kinds v = scope_kinds u"
    using assms by (simp_all add: pend_def scope_kinds_def cur_table_def cong: option.case_cong)
  show ?thesis using assms unfolding reaches_def cinv_def p by simp
qed

lemma bindE_seqs_Nil [simp]: "bindE r (seqs []) = r"
  by (cases r) simp_all

lemma seqs_single: "seqs [a] s = a s"
  by (simp add: seqs.simps(2))

lemma ok_mono: "ok P r \<Longrightarrow> (\<And>v. P v \<Longrightarrow> Q v) \<Longrightarrow> ok Q r"
  by (cases r) auto

lemma good_set_alias [simp]: "good M (set_alias al ex)"
  by (rule goodI) (simp add: set_alias_def, erule reaches_irrelevant, simp_all)

lemma good_module_alias [simp]: "good M (module_alias_with al ex)"
  unfolding module_alias_with_def
  by (intro good_Cons good_Nil) (auto intro!: good_seqs simp: good_Cons good_emit)

lemma good_break_jump:
  assumes r: "reaches M s {} [] 0 0 s" and ls: "loop_stack s = f # fs"
    and f': "f' = f\<lparr>lf_breaks := lf_breaks f @ [length (code s)]\<rparr> \<or>
             f' = f\<lparr>lf_continues := lf_continues f @ [length (code s)]\<rparr>"
  shows "reaches M s {} [] 0 0 ((emit (JUMP None) s)\<lparr>loop_stack := f' # fs\<rparr>)"
proof -
  let ?v = "(emit (JUMP None) s)\<lparr>loop_stack := f' # fs\<rparr>"
  let ?n = "length (code s)"
  have c: "cinv M s" using r by (rule reachesD)
  have e: "reaches M s {?n} [] 0 0 (emit (JUMP None) s)"
    using reaches_emit(1)[OF r jump_ok(8)] by simp
  have k: "scope_kinds ?v = scope_kinds (emit (JUMP None) s)"
    by (simp add: scope_kinds_def cur_table_def cong: option.case_cong)
  have fe: "set (frame_entries f') = insert ?n (set (frame_entries f))"
    using f' by (auto simp: frame_entries_def)
  have p: "set (pend ?v) = insert ?n (set (pend s))"
    using fe by (auto simp: pend_def ls)
  have new: "?n \<notin> set (pend s)" using c by (auto simp: cinv_def)
  have "distinct (frame_entries f')"
    using f' c new ls by (auto simp: cinv_def pend_def frame_entries_def)
  then have d: "distinct (pend ?v)"
    using c new fe ls by (auto simp: cinv_def pend_def)
  have ce: "cinv M (emit (JUMP None) s)" using e by (rule reachesD)
  have "unpatched (JUMP None)" by (simp add: unpatched_def)
  then have cv: "cinv M ?v"
    using ce d p unfolding cinv_def by (auto simp: nth_append)
  have "list_all2 (frame_ext ?n) (loop_stack s) (f' # fs)"
    using f' ls by (auto simp: frame_ext_def)
  then show ?thesis using e cv k p unfolding reaches_def by auto
qed

lemma good_compile_break [simp]: "good M (compile_break m b)"
proof (rule goodI)
  fix s assume r: "reaches M s {} [] 0 0 s"
  have jump: "ok (reaches M s0 {} [] 0 0) (emit_idx (JUMP None) (if b then add_break else add_continue) u)"
    if u: "reaches M s0 {} [] 0 0 u" and ls: "loop_stack u = f # fs" for s0 u f fs
  proof -
    have "reaches M u {} [] 0 0 u" using reaches_refl[OF reachesD(1)[OF u]] .
    from good_break_jump[OF this ls] reaches_trans[OF u] show ?thesis
      by (simp add: emit_idx_def add_break_def add_continue_def ls)
  qed
  show "ok (reaches M s {} [] 0 0) (compile_break m b s)"
  proof (cases "loop_stack s")
    case Nil
    then show ?thesis by (simp add: compile_break_def Let_def)
  next
    case (Cons f fs)
    have "reaches M s {} [] 0 0 (emit POP s)" by (rule reaches_emit(2)[OF r]) (simp_all add: plain_ok)
    from jump[OF this] jump[OF r Cons] Cons show ?thesis
      by (auto simp: compile_break_def Let_def seqs.simps(2) emitA_def)
  qed
qed

section \<open>Function definitions\<close>

lemma reaches_functions:
  assumes r: "reaches M s0 H ks n d u" and f: "\<forall>x\<in>set fns. fi_addr (snd x) \<le> length (code u)"
  shows "reaches M s0 H ks n d (u\<lparr>c_functions := fns\<rparr>)"
proof -
  let ?v = "u\<lparr>c_functions := fns\<rparr>"
  have p: "pend ?v = pend u" "scope_kinds ?v = scope_kinds u"
    by (simp_all add: pend_def scope_kinds_def cur_table_def cong: option.case_cong)
  have "cinv M ?v" using reachesD(1)[OF r] f unfolding cinv_def p by simp
  then show ?thesis using r unfolding reaches_def p by simp
qed

lemma reaches_update_function:
  assumes r: "reaches M s0 H ks n d u" and f: "\<And>i. fi_addr (f i) = fi_addr i"
  shows "reaches M s0 H ks n d (update_function name f u)"
proof -
  have "\<forall>x\<in>set (c_functions u). fi_addr (snd x) \<le> length (code u)"
    using reachesD(1)[OF r] by (simp add: cinv_def)
  then show ?thesis unfolding update_function_def
    by (intro reaches_functions[OF r]) (auto simp: f split: prod.splits)
qed

lemma update_function_code [simp]:
  "code (update_function name f u) = code u" "cur_table (update_function name f u) = cur_table u"
  by (simp_all add: update_function_def cur_table_def cong: option.case_cong)

lemma wp_finish_function:
  assumes r: "reaches M s0 H ks n d u" and j: "j \<in> H"
    and fn: "in_function_scope u"
    and P: "\<And>v. reaches M s0 (H - {j}) ks n d v \<Longrightarrow> length (code v) = length (code u) \<Longrightarrow> P v"
  shows "ok P (finish_function name j u)"
proof -
  obtain st where st: "cur_table u = Some st" using reachesD(1)[OF r] by (rule cinv_table)
  obtain sc where sc: "current_function_scope st = Some sc"
    using fn st by (auto simp: in_function_scope_def in_function_def current_function_scope_def)
  let ?u = "update_function name (\<lambda>i. i\<lparr>fi_local_slots := sc_all_slots sc\<rparr>)
      (update_function name (\<lambda>i. i\<lparr>fi_upvalues := current_function_upvalues st\<rparr>) u)"
  have "reaches M s0 H ks n d ?u" by (intro reaches_update_function r) simp_all
  from wp_patch[OF this j, of "FRAME_SIZE (sc_slots sc)" P] P show ?thesis
    by (simp add: finish_function_def st sc Let_def plain_ok)
qed

lemma wp_ensure_table:
  assumes "reaches M s0 H ks n d u" and "P u"
  shows "ok P (ensure_table u)"
  using reachesD(1)[OF assms(1)] assms(2) by (simp add: ensure_table_def cinv_def)

lemma wp_fn_def_named:
  assumes v: "reaches M s0 H ks n d v" and b: "good M body" and s0: "scope_kinds s0 \<noteq> []"
    and k: "\<And>nm w. reaches M s0 H ks n d w \<Longrightarrow> ok P (k nm w)"
  shows "ok P (fn_def_named m name params body rt so fn_name k v)"
proof (cases "map_of (c_functions v) fn_name = None")
  case False
  then show ?thesis by (simp add: fn_def_named_def)
next
  case True
  have 1: "reaches M s0 H ks n d (v\<lparr>c_functions := c_functions v @ [(fn_name, info)]\<rparr>)"
    if "fi_addr info = length (code v)" for info
    using reachesD(1)[OF v] that by (intro reaches_functions[OF v]) (auto simp: cinv_def)
  have fn: "in_function_scope w" if "reaches M s0 H' (FunctionScope # ks) n d w" for H' w
    using reachesD(8)[OF that] by (simp add: in_function_kinds)
  show ?thesis unfolding fn_def_named_def if_not_P[OF not_not[THEN iffD2, OF True]]
    apply (rule wp_seqs, simp only: okE_simp ok_simps)
    apply (rule wp_seqs, rule wp_ensure_table, rule 1, simp)
    apply (rule wp_seqs, rule wp_enter, rule 1, simp, simp)
    apply (rule wp_seqs, rule wp_good, assumption, rule good_define_all)
    apply (rule wp_seqs, rule wp_emit_idx, assumption, simp add: plain_ok)
    apply (rule wp_seqs, rule wp_good, assumption, rule good_seqs, force simp: good_emit)
    apply (rule wp_seqs, rule wp_good, assumption, rule b)
    apply (rule wp_seqs, rule wp_finish_function, assumption, simp, erule fn)
    apply (rule wp_seqs, rule wp_exit, assumption, rule s0)
    apply (rule wp_seqs, rule wp_good, assumption, rule good_emit, simp)
    apply (rule wp_seqs, rule wp_good, assumption, rule good_emit, simp)
    apply (rule wp_seqs, rule ok_mono, rule k)
    apply (simp, (rule wp_nil)+, assumption)
    done
qed

lemma wp_fn_def_with:
  assumes r: "reaches M s0 H ks n d u" and m: "in_module M m" and b: "good M body"
    and s0: "scope_kinds s0 \<noteq> []"
    and k: "\<And>nm v. reaches M s0 H ks n d v \<Longrightarrow> ok P (k nm v)"
  shows "ok P (fn_def_with m name params body rt so is_nested k u)"
  unfolding fn_def_with_def
proof (rule wp_seqs, rule wp_good[OF r good_visit[OF m]],
    rule wp_seqs, rule wp_good, assumption, rule good_reject,
    rule wp_seqs, rule wp_good, assumption, rule good_seqs)
  fix v assume v: "reaches M s0 H ks n d v"
  have "reaches M s0 H ks n d (v\<lparr>fn_counter := c\<rparr>)" for c
    by (rule reaches_irrelevant[OF v]) simp_all
  moreover have "ok P (fn_def_named m name params body rt so fn_name k w)"
    if "reaches M s0 H ks n d w" for fn_name w
    by (rule wp_fn_def_named[OF that b s0 k])
  ultimately show "ok P (seqs [\<lambda>s. if is_nested
           then fn_def_named m name params body rt so
             (resolve_def_name name s @ py ''__fn'' @ str_nat (Suc (fn_counter s))) k
             (s\<lparr>fn_counter := Suc (fn_counter s)\<rparr>)
           else fn_def_named m name params body rt so (resolve_def_name name s) k s] v)"
    unfolding seqs_single using v by simp
qed auto

section \<open>Match arms\<close>

lemma wp_patch_ends:
  assumes "reaches M s0 (H \<union> set js) ks n d u" and "distinct js" and "set js \<inter> H = {}"
    and "\<And>v. reaches M s0 H ks n d v \<Longrightarrow> P v"
  shows "ok P (patch_ends js u)"
  unfolding patch_ends_def by (rule wp_here, rule wp_patch_all[OF assms(1-3)]) (auto simp: assms(4))

section \<open>Lowered functions stay in their module\<close>

lemma in_module_no_meta [simp]: "in_module M no_meta"
  by (simp add: in_module_def no_meta_def)

lemma module_make_returnable:
  "list_all (in_module M) (concat (map metas_s ss)) \<Longrightarrow>
   list_all (in_module M) (concat (map metas_s (make_returnable ss)))"
  by (cases ss rule: rev_cases)
    (auto simp: make_returnable_def list_all_iff split: stmt.split)

lemma module_body_stmts:
  "module_stmt M b \<Longrightarrow> list_all (in_module M) (concat (map metas_s (body_stmts b)))"
  by (cases b) auto

lemma module_lower_each:
  "lower_each anns (FnDef m n ps b rt ex anns' so) = Inr (FnDef m1 n1 ps1 b1 rt1 ex1 anns1 so1) \<Longrightarrow>
   in_module M m \<Longrightarrow> module_stmt M b \<Longrightarrow> list_all (in_module M) (concat (map metas_n anns)) \<Longrightarrow>
   in_module M m1 \<and> module_stmt M b1"
proof (induction anns arbitrary: b anns' so)
  case Nil
  then show ?case by simp
next
  case (Cons a anns)
  obtain am an args where a: "a = Annotation am an args" by (cases a)
  let ?f = "FnDef m n ps b rt ex anns' so"
  let ?g = "if an = py ''retry'' then lower_retry ?f args else lower_exactly_once ?f"
  have l: "lower_each anns ?g = Inr (FnDef m1 n1 ps1 b1 rt1 ex1 anns1 so1)"
    using Cons.prems(1) by (auto simp: a split: if_splits)
  have "\<exists>b'. ?g = FnDef m n ps b' rt ex [] None \<and> module_stmt M b'"
    using Cons.prems(3,4) module_make_returnable[OF module_body_stmts, of M b]
    by (cases args) (auto simp: a lower_retry_def lower_exactly_once_def Let_def builtin_call_def
        list_all_iff)
  then show ?case using Cons.IH[of _ "[]" None] l Cons.prems(2,4) by auto
qed

lemma module_lower_annotations:
  assumes "lower_annotations anns (FnDef m n ps b rt ex anns' so) = Inr (FnDef m1 n1 ps1 b1 rt1 ex1 anns1 so1)"
    and "in_module M m" "module_stmt M b" "list_all (in_module M) (concat (map metas_n anns))"
  shows "in_module M m1 \<and> module_stmt M b1"
proof -
  obtain st where st: "lower_each anns (FnDef m n ps b rt ex anns' so) = Inr st" "strip_annotations st =
      FnDef m1 n1 ps1 b1 rt1 ex1 anns1 so1"
    using assms(1) by (auto simp: lower_annotations_def split: sum.splits)
  then obtain anns2 so2 where "st = FnDef m1 n1 ps1 b1 rt1 ex1 anns2 so2"
    by (cases st) (auto simp: strip_annotations_def)
  with st(1) module_lower_each assms(2-4) show ?thesis by blast
qed

section \<open>Every construct is good\<close>

definition good_arms :: "pystr \<Rightarrow> (nat list \<Rightarrow> caction) \<Rightarrow> nat list \<Rightarrow> bool" where
  "good_arms M a js \<longleftrightarrow> (\<forall>s0 H ks n d u P. reaches M s0 (H \<union> set js) ks n d u \<longrightarrow> distinct js \<longrightarrow>
     set js \<inter> H = {} \<longrightarrow> (\<forall>v. reaches M s0 H ks n d v \<longrightarrow> P v) \<longrightarrow> ok P (a js u))"

definition good_fn :: "pystr \<Rightarrow> ((pystr \<Rightarrow> caction) \<Rightarrow> caction) \<Rightarrow> (pystr \<Rightarrow> caction) \<Rightarrow> bool" where
  "good_fn M a k \<longleftrightarrow> (\<forall>s0 H ks n d u P. reaches M s0 H ks n d u \<longrightarrow> scope_kinds s0 \<noteq> [] \<longrightarrow>
     (\<forall>nm v. reaches M s0 H ks n d v \<longrightarrow> ok P (k nm v)) \<longrightarrow> ok P (a k u))"

lemma good_armsD:
  assumes "good_arms M a js" and "reaches M s0 (H \<union> set js) ks n d u" "distinct js" "set js \<inter> H = {}"
    and "\<And>v. reaches M s0 H ks n d v \<Longrightarrow> P v"
  shows "ok P (a js u)"
  using assms unfolding good_arms_def by blast

lemma good_fnD:
  assumes "good_fn M a k" and "reaches M s0 H ks n d u" "scope_kinds s0 \<noteq> []"
    and "\<And>nm v. reaches M s0 H ks n d v \<Longrightarrow> ok P (k nm v)"
  shows "ok P (a k u)"
  using assms unfolding good_fn_def by blast

lemma good_arms_Nil: "good_arms M (compile_arms temp []) js"
  unfolding good_arms_def compile_arms.simps
  apply (intro allI impI)
  apply (rule wp_seqs, rule wp_good, assumption, rule good_emit, simp)
  apply (rule wp_seqs, rule wp_good, assumption, rule good_emit, simp)
  apply (rule wp_seqs, rule wp_patch_ends, assumption, assumption, assumption, rule wp_nil, blast)
  done

lemma good_arms_wild:
  assumes b: "good M (compile_match_body body)"
  shows "good_arms M (compile_arms temp (MatchArm None body # arms)) js"
  unfolding good_arms_def compile_arms.simps
  apply (intro allI impI)
  apply (rule wp_seqs, rule wp_good, assumption, rule b)
  apply (rule wp_seqs, rule wp_emit_idx, assumption, rule jump_ok)
  subgoal for s0 H ks n d u P v j w
    by (rule wp_patch_ends[where H = H]) (auto simp: Un_commute)
  done

lemma good_arms_case:
  assumes p: "good M (compile_expr p)" and b: "good M (compile_match_body body)"
    and r: "\<And>j. good_arms M (compile_arms temp arms) (js @ [j])"
  shows "good_arms M (compile_arms temp (MatchArm (Some p) body # arms)) js"
  unfolding good_arms_def compile_arms.simps
  apply (intro allI impI)
  apply (rule wp_seqs, rule wp_good, assumption, rule good_load_temp)
  apply (rule wp_seqs, rule wp_good, assumption, rule p)
  apply (rule wp_seqs, rule wp_good, assumption, rule good_emit, simp)
  apply (rule wp_seqs, rule wp_emit_idx, assumption, rule jump_ok)
  apply (rule wp_seqs, rule wp_good, assumption, rule b)
  apply (rule wp_seqs, rule wp_emit_idx, assumption, rule jump_ok)
  apply (rule wp_seqs, rule wp_here, rule wp_patch, assumption, simp, simp add: jump_ok, simp)
  subgoal for s0 H ks n d u P v1 v2 v3 i v4 v5 j v6 a v7
    apply (rule wp_seqs, rule good_armsD[OF r, where H = H])
       apply (erule back_subst[where P = "\<lambda>H. reaches M s0 H ks n d v7"], auto)
    done
  done

lemma good_match:
  assumes s: "good M sc" and a: "\<And>t. good_arms M (f t) []"
  shows "good M (seqs [sc, new_temp (\<lambda>t. seqs [store_temp t, f t []])])"
proof (intro good_Cons good_Nil s good_new_temp)
  fix t
  show "good M (f t [])"
    by (rule goodI, rule good_armsD[OF a, where H = "{}"]) simp_all
qed simp

lemma good_fn_def_with:
  assumes "in_module M m" "good M body"
  shows "good_fn M (fn_def_with m name params body rt so is_nested) k"
  unfolding good_fn_def using assms by (auto intro!: wp_fn_def_with)

lemma good_fn_expr:
  assumes f: "\<And>j t. good_fn M (a (nm t)) (k j)"
    and k: "\<And>j nm s0 u. reaches M s0 {j} [] 0 0 u \<Longrightarrow> ok (reaches M s0 {} [] 0 0) (k j nm u)"
  shows "good M (emit_idx (JUMP None) (\<lambda>j s. a (nm s) (k j) (s\<lparr>fn_counter := c s\<rparr>)))"
proof (rule goodI)
  fix s assume r: "reaches M s {} [] 0 0 s" and sk: "scope_kinds s \<noteq> []"
  show "ok (reaches M s {} [] 0 0) (emit_idx (JUMP None) (\<lambda>j s. a (nm s) (k j) (s\<lparr>fn_counter := c s\<rparr>)) s)"
    apply (rule wp_emit_idx[OF r], rule jump_ok)
    apply (rule good_fnD[OF f _ sk])
     apply (erule reaches_irrelevant, simp_all add: k)
    done
qed

lemma wp_patch_over:
  assumes u: "reaches M s0 {j} [] 0 0 u" and g: "good M (seqs rest)"
  shows "ok (reaches M s0 {} [] 0 0) (seqs (here (\<lambda>a. patchA j (JUMP (Some a))) # rest) u)"
  apply (rule wp_seqs, rule wp_here, rule wp_patch[OF u], simp, simp add: jump_ok, simp)
  apply (rule wp_good, erule reaches_close, simp, rule g, assumption)
  done

end
