(* ===== verification/Compiler_Props.thy ===== *)
theory Compiler_Props
  imports Compiler_Constructs
begin

text \<open>
  The recursive functions of the compiler are good for every syntax tree of one module, and what
  that gives for a whole program; and where a \<^verbatim>\<open>break\<close> in a function goes.
\<close>

lemmas compile_induct =
  compile_expr_compile_part_compile_arms_compile_match_body_compile_last_compile_stmt_compile_fn_def.induct

lemma good_match_temp:
  assumes "\<And>t. good_arms M (f t) []"
  shows "good M (new_temp (\<lambda>t. seqs [store_temp t, f t []]))"
proof (intro good_Cons good_Nil good_new_temp)
  fix t
  show "good M (f t [])"
    by (rule goodI, rule good_armsD[OF assms, where H = "{}"]) simp_all
qed simp

lemma good_branch: "(\<And>s. good M (a s)) \<Longrightarrow> good M (\<lambda>s. a s s)"
  by (simp add: good_def)

lemma good_var_expr: "in_module M m \<Longrightarrow> good M (compile_expr (Var m n))"
  by (simp add: good_Cons good_visit)

lemma good_attr:
  assumes g: "good M ob"
  shows "good M (\<lambda>s. case obj of
         Var vm v \<Rightarrow>
           (if is_alias v s then resolve_module_name v name m (\<lambda>q. emitA (LOAD q)) s
            else seqs [ob, emitA (LOAD_FIELD name)] s)
       | _ \<Rightarrow> seqs [ob, emitA (LOAD_FIELD name)] s)"
proof (rule goodI)
  fix s assume r: "reaches M s {} [] 0 0 s"
  have "ok (reaches M s {} [] 0 0) (seqs [ob, emitA (LOAD_FIELD name)] s)"
    by (rule wp_good[OF r]) (auto intro!: good_Cons good_emit g)
  moreover have "ok (reaches M s {} [] 0 0) (resolve_module_name v name m (\<lambda>q. emitA (LOAD q)) s)" for v
    by (rule wp_good[OF r]) (auto intro!: good_resolve_module_name good_emit)
  ultimately show "ok (reaches M s {} [] 0 0) (case obj of
         Var vm v \<Rightarrow>
           (if is_alias v s then resolve_module_name v name m (\<lambda>q. emitA (LOAD q)) s
            else seqs [ob, emitA (LOAD_FIELD name)] s)
       | _ \<Rightarrow> seqs [ob, emitA (LOAD_FIELD name)] s)"
    by (cases obj) simp_all
qed

lemma good_call_attr:
  assumes g: "good M ob" and a: "good M args"
  shows "good M (\<lambda>s. let method = seqs [ob, args, emitA (CALL_METHOD name n)]
            in case obj of
                Var vm v \<Rightarrow>
                  (if is_alias v s
                   then seqs [args, resolve_module_name v name m (\<lambda>q. emitA (CALL q n))] s
                   else method s)
              | _ \<Rightarrow> method s)"
proof (rule goodI)
  fix s assume r: "reaches M s {} [] 0 0 s"
  have "ok (reaches M s {} [] 0 0) (seqs [ob, args, emitA (CALL_METHOD name n)] s)"
    by (rule wp_good[OF r]) (auto intro!: good_Cons good_emit g a)
  moreover have "ok (reaches M s {} [] 0 0) (seqs [args, resolve_module_name v name m (\<lambda>q. emitA (CALL q n))] s)" for v
    by (rule wp_good[OF r]) (auto intro!: good_Cons good_resolve_module_name good_emit a)
  ultimately show "ok (reaches M s {} [] 0 0) (let method = seqs [ob, args, emitA (CALL_METHOD name n)]
            in case obj of
                Var vm v \<Rightarrow>
                  (if is_alias v s
                   then seqs [args, resolve_module_name v name m (\<lambda>q. emitA (CALL q n))] s
                   else method s)
              | _ \<Rightarrow> method s)"
    by (cases obj) (simp_all add: Let_def)
qed

lemma good_fn_expr_over:
  assumes "\<And>j (s :: comp). good_fn M (compile_fn_def (FnDef no_meta (py ''__anon_'' @ str_nat (Suc (fn_counter s)))
      ps b rt False [] so) True)
      (\<lambda>internal. seqs [here (\<lambda>a. patchA j (JUMP (Some a))), emitA (MAKE_CLOSURE internal)])"
  shows "good M (emit_idx (JUMP None) (\<lambda>jump_over s.
        compile_fn_def (FnDef no_meta (py ''__anon_'' @ str_nat (Suc (fn_counter s))) ps b rt False [] so) True
          (\<lambda>internal_name. seqs [here (\<lambda>a. patchA jump_over (JUMP (Some a))),
             emitA (MAKE_CLOSURE internal_name)])
          (s\<lparr>fn_counter := Suc (fn_counter s)\<rparr>)))"
  by (rule good_fn_expr[where a = "\<lambda>nm. compile_fn_def (FnDef no_meta nm ps b rt False [] so) True"
        and nm = "\<lambda>s. py ''__anon_'' @ str_nat (Suc (fn_counter s))", OF assms])
    (auto intro!: wp_patch_over good_Cons good_emit)

lemma good_fn_stmt:
  assumes f: "\<And>j. good_fn M (compile_fn_def fd True) (\<lambda>internal. seqs
      [here (\<lambda>a. patchA j (JUMP (Some a))), set_current_loc m, emitA (MAKE_CLOSURE internal),
       resolving name (\<lambda>symbol. emit_store symbol name)])"
  shows "good M (emit_idx (JUMP None) (\<lambda>jump_over. compile_fn_def fd True (\<lambda>internal. seqs
      [here (\<lambda>a. patchA jump_over (JUMP (Some a))), set_current_loc m, emitA (MAKE_CLOSURE internal),
       resolving name (\<lambda>symbol. emit_store symbol name)])))"
proof (rule goodI)
  fix s assume r: "reaches M s {} [] 0 0 s" and sk: "scope_kinds s \<noteq> []"
  show "ok (reaches M s {} [] 0 0) (emit_idx (JUMP None) (\<lambda>jump_over. compile_fn_def fd True (\<lambda>internal. seqs
      [here (\<lambda>a. patchA jump_over (JUMP (Some a))), set_current_loc m, emitA (MAKE_CLOSURE internal),
       resolving name (\<lambda>symbol. emit_store symbol name)])) s)"
    apply (rule wp_emit_idx[OF r], rule jump_ok)
    apply (rule good_fnD[OF f _ sk], assumption)
    apply (rule wp_patch_over, assumption)
    apply (auto intro!: good_Cons good_set_loc good_emit good_resolving)
    done
qed


lemma good_option_seqs:
  assumes "\<And>x. e = Some x \<Longrightarrow> good M (f x)" and "good M z"
  shows "good M (case e of None \<Rightarrow> z | Some x \<Rightarrow> f x)"
  using assms by (cases e) auto

lemma good_in_function_check: "good M (\<lambda>s. if in_function_scope s then Inr s else raise_syntax msg m s)"
  "good M (\<lambda>s. if in_nested_scope s then raise_syntax msg m s else Inr s)"
  by (rule goodI, simp)+

lemmas good_rules = good_Cons good_Nil good_visit good_match_temp good_assign_with good_unary_with
  good_bin_with good_call_var good_attr good_call_attr good_fn_expr_over good_fn_stmt good_let_with
  good_flow_with good_block_with good_if_with good_while_with good_for_with good_foreach_with
  good_try_with good_new_temp good_resolving good_option_seqs good_in_function_check

lemma compile_good:
  "module_expr M e \<Longrightarrow> good M (compile_expr e)"
  "list_all (in_module M) (metas_p p) \<Longrightarrow> good M (compile_part p)"
  "list_all (in_module M) (concat (map metas_a arms)) \<Longrightarrow> good_arms M (compile_arms temp arms) js"
  "list_all (in_module M) (metas_b b) \<Longrightarrow> good M (compile_match_body b)"
  "module_stmt M l \<Longrightarrow> good M (compile_last l)"
  "module_stmt M st \<Longrightarrow> good M (compile_stmt st)"
  "is_fn_def fd \<Longrightarrow> module_stmt M fd \<Longrightarrow> good_fn M (compile_fn_def fd nested) k"
proof (induction e and p and temp arms js and b and l and st and fd nested k rule: compile_induct)
  case (5 m parts)
  then show ?case by (auto intro!: good_rules good_seqs simp: list_all_iff good_emit)
next
  case (7 m scrutinee arms)
  then show ?case
    by (auto intro!: good_Cons good_visit good_match_temp[where f = "\<lambda>t. compile_arms t arms"])
next
  case (9 m obj name)
  have "good M (compile_expr obj)"
  proof (cases obj)
    case (Var vm v)
    then show ?thesis using 9 good_var_expr by simp
  qed (use 9 in \<open>simp_all del: compile_expr.simps\<close>)
  then show ?case using 9 by (simp add: good_rules del: compile_expr.simps(8))
next
  case (14 m items)
  then show ?case by (auto intro!: good_rules good_seqs simp: list_all_iff good_emit)
next
  case (15 m items)
  then show ?case by (fastforce intro!: good_rules good_seqs simp: list_all_iff good_emit)
next
  case (19 m kvs)
  then show ?case by (fastforce intro!: good_rules good_seqs simp: list_all_iff good_emit)
next
  case (20 m callee args)
  have args: "list_all (in_module M) (metas_e callee)" "\<And>x. x \<in> set args \<Longrightarrow> module_expr M x"
    using 20 by (auto simp: list_all_iff)
  have a: "good M (compile_expr x)" if "x \<in> set args" for x
    using 20 that args(2)[OF that] by (cases callee) (simp_all del: compile_expr.simps)
  have c: "good M (compile_expr callee)" if "\<And>vm v. callee \<noteq> Var vm v" "\<And>am obj n. callee \<noteq> Attr am obj n"
  proof (cases callee)
    case (Var vm v)
    then show ?thesis using that(1) by blast
  next
    case (Attr am obj n)
    then show ?thesis using that(2) by blast
  qed (use 20 args(1) in \<open>simp_all del: compile_expr.simps\<close>)
  have o: "good M (compile_expr obj)" if "callee = Attr am obj n" for am obj n
    using 20 that args(1) good_var_expr by (cases obj) (simp_all del: compile_expr.simps)
  have as: "good M (seqs (map compile_expr args))" by (rule good_seqs) (auto simp: a)
  have m: "in_module M m" using 20 by simp
  show ?case unfolding compile_expr.simps(20)
  proof (rule good_Cons[OF good_visit[OF m]])
    show "good M (seqs [case callee of
         Var vm v \<Rightarrow> call_var m v (seqs (map compile_expr args)) (length args)
       | Attr am obj name \<Rightarrow>
          (\<lambda>s. let method = seqs [compile_expr obj, seqs (map compile_expr args),
                       emitA (CALL_METHOD name (length args))]
            in case obj of
                Var vm v \<Rightarrow>
                  (if is_alias v s
                   then seqs [seqs (map compile_expr args),
                          resolve_module_name v name m (\<lambda>q. emitA (CALL q (length args)))] s
                   else method s)
              | _ \<Rightarrow> method s)
       | _ \<Rightarrow> seqs [compile_expr callee, seqs (map compile_expr args),
                  emitA (CALL_VALUE (length args))]])"
      by (rule good_Cons[OF _ good_Nil], cases callee)
        (use c o as in \<open>simp_all add: good_call_var good_call_attr good_Cons good_emit del: compile_expr.simps\<close>)
  qed
next
  case (21 m ps b rt so)
  then show ?case
    by (auto intro!: good_Cons good_visit good_fn_expr_over simp del: compile_fn_def.simps)
next
  case (24 temp js)
  show ?case by (rule good_arms_Nil)
next
  case (25 temp body arms js)
  then show ?case by (simp add: good_arms_wild del: compile_arms.simps)
next
  case (26 temp p body arms js)
  then show ?case by (simp add: good_arms_case del: compile_arms.simps)
next
  case (28 st)
  show ?case
  proof (cases st)
    case (Block m stmts)
    have g: "good M a" if ne: "stmts \<noteq> []"
      and a: "a \<in> set (map compile_stmt (butlast stmts) @ [compile_last (last stmts)])" for a
    proof -
      have all: "\<And>x. x \<in> set stmts \<Longrightarrow> module_stmt M x" using 28 Block by (auto simp: list_all_iff)
      have "good M (compile_last (last stmts))" using 28 Block ne all[OF last_in_set[OF ne]] by simp
      moreover have "good M (compile_stmt x)" if "x \<in> set (butlast stmts)" for x
        using 28 Block ne that all[OF in_set_butlastD[OF that]] by simp
      ultimately show ?thesis using a by (auto simp del: compile_last.simps)
    qed
    have "good M (block_with stmts (map compile_stmt (butlast stmts) @ [compile_last (last stmts)]))"
      if "stmts \<noteq> []" by (rule good_block_with, rule g[OF that])
    then show ?thesis using Block
      by (simp add: good_emit del: compile_last.simps compile_stmt.simps)
  qed (use 28 in \<open>simp_all add: good_failE ok_err_def del: failE_simp compile_stmt.simps\<close>)
next
  case (29 st)
  show ?case
    using 29 by (cases st) (simp_all add: good_Cons good_emit del: compile_stmt.simps compile_expr.simps)
next
  case (36 m stmts)
  then show ?case
    by (auto intro!: good_Cons good_visit good_block_with simp: list_all_iff)
next
  case (37 m c t e)
  then show ?case
    by (auto intro!: good_Cons good_visit good_if_with split: option.splits)
next
  case (39 m init c inc body)
  have "good M (case init of None \<Rightarrow> skipE | Some i \<Rightarrow> compile_stmt i)"
    "good M (case c of None \<Rightarrow> compile_expr (BoolE no_meta True) | Some e \<Rightarrow> compile_expr e)"
    "good M (case inc of None \<Rightarrow> skipE | Some e \<Rightarrow> seqs [compile_expr e, emitA POP])"
    using 39 by (auto intro!: good_Cons good_emit good_visit split: option.splits)
  then show ?case using 39 by (simp add: good_Cons good_visit good_for_with)
next
  case (43 m e)
  then show ?case
    by (auto intro!: good_Cons good_visit good_emit split: option.splits)
next
  case (44 m e)
  then show ?case
    by (auto intro!: good_Cons good_visit good_in_function_check good_emit split: option.splits)
next
  case (45 m body var catch_body fin)
  have "good M (case catch_body of None \<Rightarrow> compile_stmt (Block m [Throw m (Var m rethrow_var)])
      | Some c \<Rightarrow> compile_stmt c)"
    using 45 by (auto split: option.splits simp del: compile_stmt.simps)
  moreover have "good M x" if "(case fin of None \<Rightarrow> None | Some f \<Rightarrow> Some (compile_stmt f)) = Some x" for x
    using 45 that by (auto split: option.splits)
  moreover have "good M (compile_stmt body)" "in_module M m" using 45 by auto
  ultimately show ?case unfolding compile_stmt.simps by (intro good_Cons good_Nil good_visit good_try_with)
next
  case (50 m name params body rt ex anns so)
  then show ?case
    by (auto intro!: good_Cons good_visit good_fn_stmt simp del: compile_fn_def.simps)
next
  case (54 m name params body rt ex anns so nested k)
  have m: "in_module M m" "module_stmt M body" "list_all (in_module M) (concat (map metas_n anns))"
    using 54 by auto
  show ?case
  proof (cases "anns = []")
    case True
    then show ?thesis using 54 by (simp add: good_fn_def_with)
  next
    case False
    obtain r where r: "lower_annotations anns (FnDef m name params body rt ex anns so) = r" by blast
    show ?thesis
    proof (cases r)
      case (Inl an)
      then show ?thesis using False r by (simp add: good_fn_def)
    next
      case (Inr st')
      then obtain b' where st': "st' = FnDef m name params b' rt ex [] None"
        using lower_annotations_shape r by blast
      have "module_stmt M b'" using module_lower_annotations[OF r[unfolded Inr st'] m] by blast
      moreover have "good M (compile_stmt b')" if "module_stmt M b'"
        using 54(2)[OF False r[unfolded Inr st'] refl that] by blast
      ultimately show ?thesis using False r Inr st' m(1) by (simp add: good_fn_def_with)
    qed
  qed
qed (simp_all add: good_Cons good_visit good_emit good_assign_with good_unary_with good_bin_with
  good_let_with good_flow_with good_new_temp good_resolving good_block_with good_while_with
  good_foreach_with good_in_function_check)

section \<open>Programs\<close>

text \<open>A loaded module: every statement carries the module's name, the nodes below it carry that name
  or none.\<close>

definition loaded_module :: "pystr \<Rightarrow> stmt list \<Rightarrow> bool" where
  "loaded_module M stmts \<longleftrightarrow>
     stmts \<noteq> [] \<and> list_all (\<lambda>st. m_module (stmt_meta st) = Some M \<and> module_stmt M st) stmts"

definition fresh_compiler :: "comp \<Rightarrow> bool" where
  "fresh_compiler s \<longleftrightarrow> code s = [] \<and> code_locs s = [] \<and> c_functions s = [] \<and> loop_stack s = [] \<and>
     try_depth s = 0 \<and> symbol_tables s = Map.empty"

text \<open>The state after the first statement has set the module and before anything was compiled.\<close>

lemma good_set_module:
  assumes "in_module M m"
  shows "good M (set_current_module m)"
proof (rule goodI)
  fix s assume c: "cinv M s" and r: "reaches M s {} [] 0 0 s"
  obtain tab where t: "symbols s = Some (Some M)" "symbol_tables s (Some M) = Some tab"
    using c by (rule cinv_table)
  have cm: "current_module s = Some M" using c by (simp add: cinv_def)
  have "reaches M s {} [] 0 0 (s\<lparr>current_module := Some M, symbols := Some (Some M)\<rparr>)"
    by (rule reaches_irrelevant[OF r]) (simp_all add: t cm)
  then show "ok (reaches M s {} [] 0 0) (set_current_module m s)"
    using r assms t by (auto simp: set_current_module_def in_module_def)
qed

lemma good_predeclared: "good M (on_symbols (predeclared st))"
  by (rule good_on_symbols)
    (auto simp: predeclared_def define_function_def define_keeps split: stmt.split expr.split)

lemma good_register_alias: "in_module M (stmt_meta st) \<Longrightarrow> good M (register_alias st)"
  by (cases st) (simp_all add: register_alias_def good_Cons good_set_module)

lemma good_top_function:
  assumes "is_fn_def st" "module_stmt M st"
  shows "good M (compile_fn_def st False (\<lambda>_. skipE))"
  by (rule goodI, rule good_fnD[OF compile_good(7)[OF assms]]) simp_all

lemma set_module_first:
  assumes "fresh_compiler s" and "m_module m = Some M"
  shows "\<exists>v. set_current_module m (emit (JUMP None) s) = Inr v \<and> cinv M v \<and>
     code v = [JUMP None] \<and> loop_stack v = []"
proof -
  have "wf_symtab new_symtab" by simp
  then show ?thesis using assms
    by (auto simp: fresh_compiler_def set_current_module_def cinv_def pend_def jump_ok emit_def)
qed

definition closed_code :: "comp \<Rightarrow> bool" where
  "closed_code t \<longleftrightarrow> length (code_locs t) = length (code t) \<and>
     (\<forall>i\<in>set (code t). \<forall>x\<in>set (targets i). \<exists>a < length (code t). x = Some a) \<and>
     (\<forall>f\<in>set (c_functions t). fi_addr (snd f) < length (code t))"

lemma closed_after_halt:
  assumes r: "reaches M s0 {} [] 0 0 v" and s0: "code s0 = []" "loop_stack s0 = []"
  shows "closed_code (emit HALT v)"
proof -
  have c: "cinv M v" using r by (rule reachesD)
  have "loop_stack v = []" using r s0(2) by (simp add: reaches_def)
  then have p: "pend v = []" by (simp add: pend_def)
  have un: "\<not> unpatched i" if "i \<in> set (code v)" for i
    using that r s0(1) p by (auto simp: reaches_def in_set_conv_nth)
  have tb: "targets_below (length (code v)) i" if "i \<in> set (code v)" for i
    using that c by (simp add: cinv_def instr_ok_def)
  have "\<exists>a < Suc (length (code v)). x = Some a" if "i \<in> set (code v)" "x \<in> set (targets i)" for i x
    using un[OF that(1)] tb[OF that(1)] that(2)
    by (cases x) (auto simp: unpatched_def targets_below_def le_imp_less_Suc)
  then show ?thesis using c by (auto simp: closed_code_def cinv_def le_imp_less_Suc)
qed

lemma compile_program_ok:
  assumes f: "fresh_compiler s" and l: "loaded_module M stmts"
  shows "ok closed_code (compile_program stmts s)"
proof -
  obtain st rest where stmts: "stmts = st # rest" using l by (cases stmts) (auto simp: loaded_module_def)
  have ms: "m_module (stmt_meta x) = Some M" "in_module M (stmt_meta x)" "module_stmt M x" if "x \<in> set stmts" for x
    using l that by (auto simp: loaded_module_def list_all_iff in_module_def)
  obtain v where v: "set_current_module (stmt_meta st) (emit (JUMP None) s) = Inr v" "cinv M v"
    "code v = [JUMP None]" "loop_stack v = []"
    using set_module_first[OF f, of "stmt_meta st" M] ms(1) stmts by auto
  let ?s0 = "v\<lparr>code := [], code_locs := []\<rparr>"
  have k: "scope_kinds ?s0 = scope_kinds v"
    by (simp add: scope_kinds_def cur_table_def cong: option.case_cong)
  have r: "reaches M ?s0 {0} [] 0 0 v"
    using v(2-4) unfolding reaches_def k by (auto simp: pend_def)
  have code0: "code s = []" using f by (simp add: fresh_compiler_def)
  have pre: "good M (seqs (map (\<lambda>st. seqs [set_current_module (stmt_meta st), on_symbols (predeclared st)]) rest))"
    by (rule good_seqs) (auto simp: stmts intro!: good_Cons good_set_module good_predeclared ms(2))
  have al: "good M (seqs (map register_alias stmts))"
    by (rule good_seqs) (auto intro!: good_register_alias ms(2))
  have fns: "good M (seqs (map (\<lambda>st. compile_fn_def st False (\<lambda>_. skipE)) (filter is_fn_def stmts)))"
    by (rule good_seqs) (auto intro!: good_top_function ms(3))
  have body: "good M (seqs (map compile_stmt (filter (\<lambda>st. \<not> is_fn_def st) stmts)))"
    by (rule good_seqs) (auto intro!: compile_good(6) ms(3))
  have first: "ok P (predeclare_module_scopes stmts (emit (JUMP None) s))"
    if "\<And>w. reaches M ?s0 {0} [] 0 0 w \<Longrightarrow> P w" for P
    unfolding predeclare_module_scopes_def stmts list.map
    apply (rule wp_seqs, rule wp_seqs, simp only: v(1) ok_simps)
    apply (rule wp_seqs, rule wp_good[OF r good_predeclared], rule wp_nil)
    apply (rule wp_good, assumption, rule pre, rule that, assumption)
    done
  show ?thesis unfolding compile_program_def emit_idx_def code0 list.size
    apply (rule wp_seqs, rule first)
    apply (rule wp_seqs, rule wp_good, assumption, rule al)
    apply (rule wp_seqs, rule wp_good, assumption, rule fns)
    apply (rule wp_seqs, rule wp_here, rule wp_patch, assumption, simp, simp add: jump_ok, simp)
    apply (rule wp_seqs, rule wp_good, assumption, rule body)
    apply (rule wp_seqs, simp only: emitA_def ok_simps, rule wp_nil)
    apply (rule closed_after_halt[of M ?s0], erule reaches_close, simp_all add: v(4))
    done
qed

section \<open>Properties\<close>

definition here_meta :: meta where
  "here_meta = Meta (Some (1, 1)) (Some (py ''main''))"

text \<open>\<^verbatim>\<open>while (true) { break }\<close>, and a loop whose body defines a function that breaks.\<close>

definition loop_program :: "stmt list" where
  "loop_program = [While here_meta (BoolE here_meta True) (Block here_meta [Break here_meta])]"

definition escaping_program :: "stmt list" where
  "escaping_program = [While here_meta (BoolE here_meta True) (Block here_meta
     [ExprStmt here_meta (FnExpr here_meta [] (Block here_meta [Break here_meta]) None None)])]"

definition compiled :: "stmt list \<Rightarrow> cerr + instr list" where
  "compiled stmts = (case compile_program stmts (new_compiler Map.empty Map.empty {}) of
      Inl e \<Rightarrow> Inl e | Inr t \<Rightarrow> Inr (code t))"

lemma fresh_new_compiler [simp]: "fresh_compiler (new_compiler infos defs bs)"
  by (simp add: fresh_compiler_def new_compiler_def)

lemma loaded_examples:
  "loaded_module (py ''main'') loop_program" "loaded_module (py ''main'') escaping_program"
  by (simp_all add: loaded_module_def loop_program_def escaping_program_def here_meta_def in_module_def)

text \<open>
  C1: the code of a compiled module is closed. Every instruction has a source location, every jump,
  iterator and handler operand has been patched and lies inside the code, and so does the address of
  every function.
\<close>

theorem compiler_output_closed:
  assumes "fresh_compiler s" and "loaded_module M stmts" and "compile_program stmts s = Inr t"
  shows "length (code_locs t) = length (code t) \<and>
    (\<forall>i\<in>set (code t). \<forall>x\<in>set (targets i). \<exists>a < length (code t). x = Some a) \<and>
    (\<forall>f\<in>set (c_functions t). fi_addr (snd f) < length (code t))"
  using compile_program_ok[OF assms(1,2)] assms(3) by (simp add: closed_code_def)

lemma compiled_loop_program:
  "compiled loop_program = Inr [JUMP (Some 1), PUSH_CONST (CBool True), JUMP_IF_FALSE (Some 5),
     JUMP (Some 5), JUMP (Some 1), HALT]"
  by code_simp

theorem compiler_output_closed_witness:
  "\<exists>t. compile_program loop_program (new_compiler Map.empty Map.empty {}) = Inr t \<and>
     length (code_locs t) = 6"
proof -
  obtain t where t: "compile_program loop_program (new_compiler Map.empty Map.empty {}) = Inr t"
    and c: "code t = [JUMP (Some 1), PUSH_CONST (CBool True), JUMP_IF_FALSE (Some 5),
       JUMP (Some 5), JUMP (Some 1), HALT]"
    using compiled_loop_program by (auto simp: compiled_def split: sum.splits)
  show ?thesis using compiler_output_closed[OF fresh_new_compiler loaded_examples(1) t] t c by simp
qed

text \<open>
  C3: compiling a module never ends in an internal error: the assertions on slot indexes hold, no
  instruction is patched out of range, no loop frame is missing and the only type error is that of a
  match arm whose body is a statement other than a block, \<^verbatim>\<open>throw\<close> or \<^verbatim>\<open>return\<close>.
\<close>

theorem compiler_no_internal_error:
  assumes "fresh_compiler s" and "loaded_module M stmts" and "compile_program stmts s = Inl e"
  shows "(\<forall>msg. e \<noteq> AssertionErr msg) \<and> e \<noteq> PyIndexErr \<and>
    (\<forall>msg. e = TypeErr msg \<longrightarrow> msg = py ''Unknown expr node'')"
  using compile_program_ok[OF assms(1,2)] assms(3) by (auto simp: ok_err_def split: cerr.splits)

definition stray_break :: "stmt list" where
  "stray_break = [Break here_meta]"

lemma stray_break_rejected:
  "compile_program stray_break (new_compiler Map.empty Map.empty {}) =
     Inl (SyntaxErr (quote_mark @ py ''break'' @ quote_mark @ py '' outside a loop'') (Some (1, 1)) (Some (py ''main'')))"
  by (simp add: stray_break_def compile_program_def emit_idx_def predeclare_module_scopes_def
      register_alias_def visit_def set_current_module_def set_current_loc_def on_symbols_def emit_def
      new_compiler_def seqs.simps(2) here_def patchA_def compile_break_def raise_syntax_def here_meta_def
      cur_table_def set_table_def predeclared_def)

theorem compiler_no_internal_error_witness:
  "\<forall>msg. SyntaxErr (quote_mark @ py ''break'' @ quote_mark @ py '' outside a loop'') (Some (1, 1))
     (Some (py ''main'')) \<noteq> AssertionErr msg"
  using compiler_no_internal_error[OF fresh_new_compiler _ stray_break_rejected, of "py ''main''"]
  by (simp add: loaded_module_def stray_break_def here_meta_def in_module_def)

text \<open>
  C4: compiling a statement only appends code, and leaves the open scopes, the try depth, the number
  of loop frames and the module as it found them; what it adds to a loop frame are indexes of its own
  jumps.
\<close>

theorem compile_stmt_balanced:
  assumes "cinv M s" and "module_stmt M st" and "compile_stmt st s = Inr t"
  shows "cinv M t \<and> take (length (code s)) (code t) = code s \<and> scope_kinds t = scope_kinds s \<and>
    try_depth t = try_depth s \<and> list_all2 (frame_ext (length (code s))) (loop_stack s) (loop_stack t)"
proof -
  have "reaches M s {} [] 0 0 t"
    using compile_good(6)[OF assms(2)] assms(1,3) by (auto simp: good_def)
  then show ?thesis by (simp add: reaches_def)
qed

definition in_main :: comp where
  "in_main = (new_compiler Map.empty Map.empty {})\<lparr>current_module := Some (py ''main''),
     symbols := Some (Some (py ''main'')), symbol_tables := [Some (py ''main'') \<mapsto> new_symtab]\<rparr>"

theorem compile_stmt_balanced_witness:
  "\<exists>t. compile_stmt (ExprStmt here_meta (NilE here_meta)) in_main = Inr t \<and>
     scope_kinds t = scope_kinds in_main"
proof -
  have c: "cinv (py ''main'') in_main"
    by (simp add: cinv_def in_main_def new_compiler_def pend_def)
  have "\<exists>t. compile_stmt (ExprStmt here_meta (NilE here_meta)) in_main = Inr t"
    by (simp add: visit_def set_current_module_def set_current_loc_def emitA_def seqs.simps(2))
  then obtain t where t: "compile_stmt (ExprStmt here_meta (NilE here_meta)) in_main = Inr t" by blast
  have m: "module_stmt (py ''main'') (ExprStmt here_meta (NilE here_meta))"
    by (simp add: here_meta_def in_module_def)
  show ?thesis using compile_stmt_balanced[OF c m t] t by blast
qed

section \<open>Breaks in functions\<close>

text \<open>Actions that leave the loop frames alone.\<close>

definition quiet :: "caction \<Rightarrow> bool" where
  "quiet a \<longleftrightarrow> (\<forall>s t. a s = Inr t \<longrightarrow> loop_stack t = loop_stack s)"

lemma quietD: "quiet a \<Longrightarrow> a s = Inr t \<Longrightarrow> loop_stack t = loop_stack s"
  by (simp add: quiet_def)

lemma quiet_seqs:
  assumes "\<And>a. a \<in> set as \<Longrightarrow> quiet a"
  shows "quiet (seqs as)"
  unfolding quiet_def
proof (intro allI impI)
  fix s t assume "seqs as s = Inr t"
  then show "loop_stack t = loop_stack s"
    by (rule seqs_rel[of "\<lambda>s t. loop_stack t = loop_stack s", rotated 3]) (use assms in \<open>auto dest: quietD\<close>)
qed

lemma set_table_loops [simp]: "loop_stack (set_table st s) = loop_stack s"
  by (simp add: set_table_def split: option.split)

lemma update_function_loops [simp]: "loop_stack (update_function n f s) = loop_stack s"
  by (simp add: update_function_def)

lemma emit_loops [simp]: "loop_stack (emit i s) = loop_stack s"
  by (simp add: emit_def)

lemma quiet_prims [simp]:
  "quiet (on_symbols f)" "quiet (emitA i)" "quiet ensure_table" "quiet (finish_function nm j)" "quiet skipE"
  "quiet (reject_reserved_name nm m)" "quiet (set_current_module m)" "quiet (set_current_loc m)" "quiet (predeclare_block ss)"
  by (auto simp: quiet_def on_symbols_def emitA_def ensure_table_def finish_function_def patchA_def Let_def skipE_def
      reject_reserved_name_def raise_syntax_def set_current_module_def set_current_loc_def predeclare_block_def
      split: option.splits if_splits)

lemma quiet_visit [simp]: "quiet (visit m)"
  unfolding visit_def by (rule quiet_seqs) auto

text \<open>The head loop frame holds a break whose index is above \<open>b\<close>.\<close>

definition breaks_after :: "nat \<Rightarrow> comp \<Rightarrow> bool" where
  "breaks_after b s \<longleftrightarrow> (\<exists>f fs. loop_stack s = f # fs \<and> (\<exists>j \<in> set (lf_breaks f). b < j))"

lemma breaks_after_good:
  assumes "good M a" and "cinv M s" and "a s = Inr t" and "breaks_after b s"
  shows "breaks_after b t"
proof -
  have "list_all2 (frame_ext (length (code s))) (loop_stack s) (loop_stack t)"
    using assms(1-3) by (auto simp: good_def reaches_def)
  with assms(4) show ?thesis by (fastforce simp: breaks_after_def frame_ext_def list_all2_Cons1)
qed

lemma compile_break_adds:
  assumes "compile_stmt (Break m) s = Inr t" and "b < length (code s)"
  shows "breaks_after b t"
proof -
  obtain u where u: "visit m s = Inr u" "compile_break m True u = Inr t" using assms(1) by (auto simp: result_simps)
  have "code u = code s" using u(1)
    by (auto simp: visit_def set_current_module_def set_current_loc_def result_simps split: option.splits)
  with u(2) assms(2) show ?thesis
    by (auto simp: compile_break_def raise_syntax_def Let_def emit_idx_def add_break_def emitA_def breaks_after_def
        seqs.simps(2) skipE_def split: list.splits if_splits)
qed

lemma block_breaks:
  assumes "cinv M s" and "module_stmt M (Block m (xs @ Break km # ys))"
    and "compile_stmt (Block m (xs @ Break km # ys)) s = Inr t" and "b < length (code s)"
  shows "breaks_after b t"
proof -
  let ?enter = "seqs [visit m, on_symbols (enter_scope BlockScope), predeclare_block (xs @ Break km # ys)]"
  have ms: "in_module M m" "module_stmt M (Break km)" "\<And>x. x \<in> set xs \<union> set ys \<Longrightarrow> module_stmt M x"
    using assms(2) by (auto simp: list_all_iff)
  then have g: "good M (seqs (map compile_stmt xs))" "good M (seqs (map compile_stmt ys))" "good M (compile_stmt (Break km))"
    by (auto intro!: good_seqs compile_good(6) simp del: compile_stmt.simps)
  obtain u1 u2 u3 u4 where u: "?enter s = Inr u1" "seqs (map compile_stmt xs) u1 = Inr u2" "compile_stmt (Break km) u2 = Inr u3"
    "seqs (map compile_stmt ys) u3 = Inr u4" "on_symbols exit_scope u4 = Inr t"
    using assms(3) by (auto simp: result_simps block_with_def seqs_append bindE_Inr_iff simp del: compile_stmt.simps(14))
  have "ok (\<lambda>v. reaches M s {} [BlockScope] 0 0 v) (?enter s)"
    apply (rule wp_seqs, rule wp_good[OF reaches_refl[OF assms(1)] good_visit[OF ms(1)]])
    apply (rule wp_seqs, rule wp_enter, assumption, simp)
    apply (rule wp_seqs, rule wp_good, assumption, rule good_predeclare_block)
    apply (rule wp_nil, assumption)
    done
  then have r1: "cinv M u1" "length (code s) \<le> length (code u1)" using u(1) by (simp_all add: reaches_def)
  have r2: "cinv M u2" "length (code u1) \<le> length (code u2)"
    using g(1) r1(1) u(2) by (auto simp: good_def reaches_def)
  have r3: "cinv M u3" using g(3) r2(1) u(3) by (auto simp: good_def reaches_def simp del: compile_stmt.simps)
  have "breaks_after b u3" using compile_break_adds[OF u(3), of b] assms(4) r1(2) r2(2) by simp
  from breaks_after_good[OF g(2) r3 u(4) this] have "breaks_after b u4" .
  then show ?thesis using quietD[OF quiet_prims(1) u(5)] by (simp add: breaks_after_def)
qed

text \<open>The body of a function is compiled with the loop frames of the surrounding code.\<close>

lemma fn_named_body:
  assumes "fn_def_named m name params body rt so fn_name (\<lambda>_. skipE) s = Inr t" and "cinv M s"
  shows "\<exists>u w. body u = Inr w \<and> cinv M u \<and> length (code s) < length (code u) \<and> loop_stack t = loop_stack w"
proof -
  let ?info = "\<lparr>fi_name = fn_name, fi_params = map param_name params, fi_addr = length (code s),
             fi_upvalues = [], fi_display_name = name, fi_local_slots = Map.empty,
             fi_step_owner = so, fi_param_types = map type_hint params, fi_return_type = rt\<rparr>"
  let ?s = "s\<lparr>c_functions := c_functions s @ [(fn_name, ?info)]\<rparr>"
  let ?enter = "seqs [ensure_table, on_symbols (enter_scope FunctionScope),
      on_symbols (fold (\<lambda>p. sym_define p False) (map param_name params))]"
  let ?args = "seqs (map (\<lambda>p. emitA (STORE_ARG p)) (rev (map param_name params)))"
  let ?exit = "\<lambda>j. seqs [finish_function fn_name j, on_symbols exit_scope, emitA (PUSH_CONST CNil), emitA RETURN, skipE]"
  obtain u1 u w j where u: "?enter ?s = Inr u1" "?args (emit (FRAME_SIZE 0) u1) = Inr u" "body u = Inr w" "?exit j w = Inr t"
    using assms(1) by (auto simp: fn_def_named_def raise_syntax_def okE_def emit_idx_def result_simps split: if_splits) blast
  have "reaches M s {} [] 0 0 ?s"
    using assms(2) by (intro reaches_functions reaches_refl) (auto simp: cinv_def)
  then have "ok (reaches M s {} [FunctionScope] 0 0) (?enter ?s)"
    apply -
    apply (rule wp_seqs, rule wp_ensure_table, assumption)
    apply (rule wp_seqs, rule wp_enter, assumption, simp)
    apply (rule wp_seqs, rule wp_good, assumption, rule good_define_all)
    apply (rule wp_nil, assumption)
    done
  then have r1: "reaches M s {} [FunctionScope] 0 0 u1" using u(1) by simp
  have "reaches M s {} [FunctionScope] 0 0 (emit (FRAME_SIZE 0) u1)"
    by (rule reaches_emit(2)[OF r1]) (simp_all add: plain_ok)
  then have c: "cinv M (emit (FRAME_SIZE 0) u1)" "length (code s) < length (code (emit (FRAME_SIZE 0) u1))"
    using r1 by (simp_all add: reaches_def emit_def)
  have "good M ?args" by (rule good_seqs) (force simp: good_emit)
  with c u(2) have "cinv M u" "length (code s) < length (code u)" by (auto simp: good_def reaches_def)
  moreover have "quiet (?exit j)" by (rule quiet_seqs) auto
  ultimately show ?thesis using u(3,4) quietD by blast
qed

lemma fn_breaks:
  assumes "cinv M s" and "module_stmt M (FnDef m name params (Block bm (xs @ Break km # ys)) rt ex [] so)"
    and "compile_fn_def (FnDef m name params (Block bm (xs @ Break km # ys)) rt ex [] so) nested (\<lambda>_. skipE) s = Inr t"
  shows "breaks_after (length (code s)) t \<and> reaches M s {} [] 0 0 t"
proof
  let ?fd = "FnDef m name params (Block bm (xs @ Break km # ys)) rt ex [] so"
  let ?body = "compile_stmt (Block bm (xs @ Break km # ys))"
  let ?pre = "seqs [visit m, reject_reserved_name name m, seqs (map (\<lambda>p. reject_reserved_name (param_name p) m) params)]"
  have "ok (reaches M s {} [] 0 0) (compile_fn_def ?fd nested (\<lambda>_. skipE) s)"
    by (rule good_fnD[OF compile_good(7)[OF _ assms(2)] reaches_refl[OF assms(1)] cinv_kinds[OF assms(1)]])
      (simp_all add: skipE_def)
  then show "reaches M s {} [] 0 0 t" using assms(3) by simp
  let ?v = "\<lambda>v. if nested then v\<lparr>fn_counter := Suc (fn_counter v)\<rparr> else v"
  obtain v nm where v: "?pre s = Inr v" "fn_def_named m name params ?body rt so nm (\<lambda>_. skipE) (?v v) = Inr t"
    using assms(3) by (cases nested) (auto simp: fn_def_with_def result_simps simp del: compile_stmt.simps)
  have "good M ?pre" using assms(2) by (intro good_Cons good_Nil good_visit good_reject good_seqs) auto
  then have r: "reaches M s {} [] 0 0 v" using assms(1) v(1) by (auto simp: good_def)
  have "reaches M s {} [] 0 0 (?v v)" using r by (auto intro: reaches_irrelevant[OF r])
  then have "cinv M (?v v)" by (rule reaches_cinv)
  from fn_named_body[OF v(2) this] obtain u w where u: "?body u = Inr w" "cinv M u" "length (code v) < length (code u)"
    "loop_stack t = loop_stack w" by (auto split: if_splits)
  have "breaks_after (length (code s)) w"
    by (rule block_breaks[OF u(2) _ u(1)]) (use assms(2) u(3) reachesD(2)[OF r] in auto)
  with u(4) show "breaks_after (length (code s)) t" by (simp add: breaks_after_def)
qed

lemma patch_all_nth:
  "seqs (map (\<lambda>i. patchA i ins) js) s = Inr t \<Longrightarrow> j < length (code s) \<Longrightarrow>
   code t ! j = (if j \<in> set js then ins else code s ! j) \<and> length (code t) = length (code s)"
proof (induction js arbitrary: s)
  case (Cons i js)
  then obtain u where u: "patchA i ins s = Inr u" "seqs (map (\<lambda>i. patchA i ins) js) u = Inr t"
    by (auto simp: result_simps)
  from u(1) have "code u = (code s)[i := ins]" by (auto simp: patchA_def split: if_splits)
  with Cons.IH[OF u(2)] Cons.prems(2) show ?case by (auto simp: nth_list_update)
qed auto

lemma patch_loop_break:
  assumes "patch_loop f brk cont s = Inr t" and "j \<in> set (lf_breaks f)" and "j \<notin> set (lf_continues f)"
    and "j < length (code s)"
  shows "code t ! j = JUMP (Some brk)"
proof -
  obtain u where u: "seqs (map (\<lambda>i. patchA i (JUMP (Some brk))) (lf_breaks f)) s = Inr u"
    "seqs (map (\<lambda>i. patchA i (JUMP (Some cont))) (lf_continues f)) u = Inr t"
    using assms(1) by (auto simp: patch_loop_def seqs_append bindE_Inr_iff)
  show ?thesis using patch_all_nth[OF u(1) assms(4)] patch_all_nth[OF u(2), of j] assms by simp
qed

text \<open>
  C31: a \<^verbatim>\<open>break\<close> in a function leaves the function. The body of a function is compiled with the loop
  frames of the surrounding code. When a function with a \<^verbatim>\<open>break\<close> among the statements of its body is
  accepted, there is a loop around the definition of the function: the \<^verbatim>\<open>break\<close> is an open jump among the
  instructions of the function (those appended to the code), entered into the frame of that loop, and
  patching the frame makes it a jump to the end of the loop.
\<close>

theorem break_escapes_function:
  assumes "cinv M s" and "module_stmt M (FnDef m name params (Block bm (xs @ Break km # ys)) rt ex [] so)"
    and "compile_fn_def (FnDef m name params (Block bm (xs @ Break km # ys)) rt ex [] so) nested (\<lambda>_. skipE) s = Inr t"
  shows "\<exists>f fs f' fs' j. loop_stack s = f # fs \<and> loop_stack t = f' # fs' \<and> j \<in> set (lf_breaks f') - set (lf_breaks f) \<and>
    length (code s) < j \<and> j < length (code t) \<and> unpatched (code t ! j) \<and>
    (\<forall>brk cont u. patch_loop f' brk cont t = Inr u \<longrightarrow> code u ! j = JUMP (Some brk))"
proof -
  have b: "breaks_after (length (code s)) t" and r: "reaches M s {} [] 0 0 t" using fn_breaks[OF assms] by auto
  from b obtain f' fs' j where t: "loop_stack t = f' # fs'" "j \<in> set (lf_breaks f')" "length (code s) < j"
    by (auto simp: breaks_after_def)
  obtain f fs where s: "loop_stack s = f # fs" using r t(1) by (auto simp: reaches_def list_all2_Cons2)
  have p: "distinct (pend t)" "\<forall>i \<in> set (pend t). i < length (code t) \<and> unpatched (code t ! i)"
    using r by (simp_all add: reaches_def cinv_def)
  with t have j: "j < length (code t)" "unpatched (code t ! j)" "j \<notin> set (lf_continues f')"
    by (auto simp: pend_def frame_entries_def)
  have "set (lf_breaks f) \<subseteq> set (pend s)" using s by (auto simp: pend_def frame_entries_def)
  then have "j \<notin> set (lf_breaks f)" using assms(1) t(3) unfolding cinv_def by fastforce
  moreover have "code u ! j = JUMP (Some brk)" if "patch_loop f' brk cont t = Inr u" for brk cont u
    by (rule patch_loop_break[OF that t(2) j(3,1)])
  ultimately show ?thesis using s t j by blast
qed

text \<open>The definition \<^verbatim>\<open>fn f() { nil  break }\<close> in a loop.\<close>

definition in_loop :: comp where
  "in_loop = in_main\<lparr>loop_stack := [\<lparr>lf_breaks = [], lf_continues = [], lf_break_pops = False, lf_try_depth = 0\<rparr>]\<rparr>"

definition breaking_fn :: stmt where
  "breaking_fn = FnDef here_meta (py ''f'') [] (Block here_meta ([ExprStmt here_meta (NilE here_meta)] @ Break here_meta # []))
     None False [] None"

theorem break_escapes_function_witness:
  "\<exists>t. compile_fn_def breaking_fn True (\<lambda>_. skipE) in_loop = Inr t \<and>
     (\<exists>f' fs' j. loop_stack t = f' # fs' \<and> j \<in> set (lf_breaks f') \<and> unpatched (code t ! j))"
proof -
  have c: "cinv (py ''main'') in_loop"
    by (simp add: cinv_def in_loop_def in_main_def new_compiler_def pend_def frame_entries_def)
  have m: "module_stmt (py ''main'') breaking_fn"
    by (simp add: breaking_fn_def here_meta_def in_module_def)
  have "\<not> isl (compile_fn_def breaking_fn True (\<lambda>_. skipE) in_loop)" by code_simp
  then obtain t where t: "compile_fn_def breaking_fn True (\<lambda>_. skipE) in_loop = Inr t"
    by (auto simp: isl_def split: sum.splits) (metis sum.exhaust)
  with break_escapes_function[OF c m[unfolded breaking_fn_def], of True t] show ?thesis
    unfolding breaking_fn_def by blast
qed

text \<open>A whole program: the function occupies the addresses 4 to 7 and its second instruction jumps to 11.\<close>

lemma compiled_escaping_program:
  "compiled escaping_program = Inr
     [JUMP (Some 1), PUSH_CONST (CBool True), JUMP_IF_FALSE (Some 11), JUMP (Some 8),
      FRAME_SIZE 0, JUMP (Some 11), PUSH_CONST CNil, RETURN,
      MAKE_CLOSURE (py ''__anon_1__fn2''), POP, JUMP (Some 1), HALT]"
  by code_simp

end
