(* ===== verification/Optimizer_Props.thy ===== *)
theory Optimizer_Props
  imports Optimizer_Passes Compiler_Props
begin

text \<open>
  The optimizer as a whole: an iteration of \<^verbatim>\<open>optimize_bytecode\<close> makes progress, so the loop ends, and
  the properties of the passes on the code the compiler produces.
\<close>

section \<open>Progress\<close>

definition stable :: "instr list \<Rightarrow> bool" where
  "stable cs \<longleftrightarrow> canonical_consts cs \<and> all_settled cs"

lemma threaded_canonical:
  assumes "threaded cs i out" and "canonical_consts cs"
  shows "canonical_consts out"
proof -
  have "list_all2 (\<lambda>i j. i = j \<or> first_target i \<noteq> None \<and> first_target j \<noteq> None) cs out"
    using assms(1) by (auto simp: list_all2_conv_all_nth threaded_def threaded_at_def) 
  with assms(2) show ?thesis unfolding canonical_consts_def by (rule canonical_loop_congr[rotated])
qed

lemma simplify_jumps_stage:
  assumes "opt_closed cs locs"
  shows "\<exists>out ch. simplify_jumps cs = Inr (out, ch) \<and> opt_closed out locs \<and> length out = length cs \<and>
     (canonical_consts cs \<longrightarrow> stable out) \<and> (all_settled cs \<longrightarrow> \<not> ch)"
proof -
  obtain out ch where o: "simplify_jumps cs = Inr (out, ch)" "threaded cs (length cs) out" "opt_closed out locs"
    using simplify_jumps_threaded[OF assms(1)] by blast
  moreover have "canonical_consts cs \<longrightarrow> stable out"
    using threaded_canonical[OF o(2)] threaded_all_settled[OF o(2)] by (simp add: stable_def)
  moreover have "all_settled cs \<longrightarrow> \<not> ch"
    using simplify_loop_settled[OF assms(1), of 0 False] o(1) by (auto simp: simplify_jumps_def)
  ultimately show ?thesis by (auto simp: threaded_def)
qed

text \<open>An iteration over closed cs: it fails on a removed address, or what it returns is closed, no
  larger, and stable or smaller; stable cs that is reported changed is smaller.\<close>

definition advances :: "instr list \<Rightarrow> fn_table \<Rightarrow> instr list \<times> fn_table \<times> loc list \<times> bool \<Rightarrow> bool" where
  "advances cs fns r = (case r of (cs', fns', locs', changed) \<Rightarrow>
     opt_closed cs' locs' \<and> (fns_inside cs fns \<longrightarrow> fns_inside cs' fns') \<and>
     (changed \<longrightarrow> length cs' + length fns' < length cs + length fns \<or>
        length cs' + length fns' \<le> length cs + length fns \<and> \<not> stable cs \<and> stable cs'))"


lemma optimize_once_advances:
  assumes "opt_closed cs locs"
  shows "(\<exists>a. optimize_once cs fns locs = Inl (KeyErr (Some a))) \<or>
    (\<exists>r. optimize_once cs fns locs = Inr r \<and> advances cs fns r)"
proof -
  let ?t = "collect_jump_targets cs"
  let ?c1 = "canonical_loop [] cs"
  have closed1: "opt_closed ?c1 locs" using assms opt_closed_first_target[OF canonical_first_target] by blast
  have t1: "collect_jump_targets ?c1 = ?t" by (rule collect_first_target[OF canonical_first_target])
  obtain c2 f2 l2 ch2 where fold: "fold_constants ?c1 fns locs ?t = Inr (c2, f2, l2, ch2)"
    and s2: "shrinks ?c1 fns locs (c2, f2, l2, ch2)"
    using fold_constants_shrinks[OF closed1, of fns] unfolding t1 by (metis prod_cases4)
  define c3 f3 l3 where 3: "c3 = (if ch2 then c2 else ?c1)" "f3 = (if ch2 then f2 else fns)"
    "l3 = (if ch2 then l2 else locs)"
  have closed3: "opt_closed c3 l3" using s2 closed1 3 by (auto simp: shrinks_def)
  have fns3: "fns_inside cs fns \<longrightarrow> fns_inside c3 f3"
    using s2 3 fns_inside_length[of ?c1 cs fns] by (auto simp: shrinks_def)
  have t3: "(if ch2 then collect_jump_targets c3 else ?t) = collect_jump_targets c3" using t1 3 by simp
  have size3: "length c3 + length f3 \<le> length cs + length fns"
    "ch2 \<longrightarrow> length c3 + length f3 < length cs + length fns"
    using s2 3 by (auto simp: shrinks_def split: if_splits)
  show ?thesis
  proof (cases "remove_useless_stack_ops c3 f3 l3 (collect_jump_targets c3)")
    case (Inl e)
    with useless_error[OF closed3 Inl] fold t3 3 show ?thesis
      by (auto simp: optimize_once_def canonicalize_constants_def Let_def)
  next
    case (Inr r)
    obtain c4 f4 l4 ch4 where r: "r = (c4, f4, l4, ch4)" by (metis prod_cases4)
    have s4: "shrinks c3 f3 l3 (c4, f4, l4, ch4)" using useless_shrinks[OF closed3 Inr] r by simp
    define c5 f5 l5 where 5: "c5 = (if ch4 then c4 else c3)" "f5 = (if ch4 then f4 else f3)"
      "l5 = (if ch4 then l4 else l3)"
    have closed5: "opt_closed c5 l5" using s4 closed3 5 by (auto simp: shrinks_def)
    have fns5: "fns_inside cs fns \<longrightarrow> fns_inside c5 f5" using s4 fns3 5 by (auto simp: shrinks_def)
    have size5: "length c5 + length f5 \<le> length c3 + length f3"
      "ch4 \<longrightarrow> length c5 + length f5 < length c3 + length f3"
      using s4 5 by (auto simp: shrinks_def split: if_splits)
    obtain c6 ch6 where c6: "simplify_jumps c5 = Inr (c6, ch6)" "opt_closed c6 l5" "length c6 = length c5"
      "canonical_consts c5 \<longrightarrow> stable c6" "all_settled c5 \<longrightarrow> \<not> ch6"
      using simplify_jumps_stage[OF closed5] by blast
    obtain c7 f7 l7 ch7 where u: "remove_unreachable c6 f5 l5 = Inr (c7, f7, l7, ch7)"
      and s7: "shrinks c6 f5 l5 (c7, f7, l7, ch7)"
      using unreachable_shrinks[OF c6(2), of f5] by (metis prod_cases4)
    have once: "optimize_once cs fns locs = Inr (if ch7 then (c7, f7, l7, True)
        else (c6, f5, l5, ?c1 \<noteq> cs \<or> ch2 \<or> ch4 \<or> ch6))"
      using fold t3 3 5 Inr r c6(1) u by (auto simp: optimize_once_def canonicalize_constants_def Let_def)
    have fns6: "fns_inside cs fns \<longrightarrow> fns_inside c6 f5" using fns5 fns_inside_length[OF c6(3), of f5] by simp
    have "advances cs fns (c6, f5, l5, ?c1 \<noteq> cs \<or> ch2 \<or> ch4 \<or> ch6)"
    proof (cases "ch2 \<or> ch4")
      case True
      with size3 size5 c6(2,3) fns6 show ?thesis by (auto simp: advances_def)
    next
      case False
      then have "c5 = ?c1" "f5 = fns" using 3 5 by auto
      moreover have "canonical_consts ?c1" by (rule canonical_canonical_loop)
      ultimately show ?thesis using False c6 fns6 by (auto simp: advances_def stable_def canonical_consts_def)
    qed
    moreover have "ch7 \<Longrightarrow> advances cs fns (c7, f7, l7, True)"
      using s7 size3 size5 c6(3) by (auto simp: advances_def shrinks_def)
    ultimately show ?thesis using once by auto
  qed
qed


section \<open>The fixed point\<close>

definition opt_measure :: "instr list \<Rightarrow> fn_table \<Rightarrow> nat" where
  "opt_measure cs fns = 2 * (length cs + length fns) + (if stable cs then 0 else 1)"

lemma optimize_bytecode_result:
  "opt_closed cs locs \<Longrightarrow> fns_inside cs fns \<Longrightarrow> opt_measure cs fns < n \<Longrightarrow>
   (\<exists>a. optimize_bytecode n cs fns locs = Some (Inl (KeyErr (Some a)))) \<or>
   (\<exists>cs' fns' locs'. optimize_bytecode n cs fns locs = Some (Inr (cs', fns', locs')) \<and>
      opt_closed cs' locs' \<and> fns_inside cs' fns')"
proof (induction n arbitrary: cs fns locs)
  case (Suc n)
  from optimize_once_advances[OF Suc.prems(1), of fns] show ?case
  proof (elim disjE exE conjE)
    fix r assume r: "optimize_once cs fns locs = Inr r" "advances cs fns r"
    obtain cs' fns' locs' ch where r': "r = (cs', fns', locs', ch)" by (metis prod_cases4)
    show ?case
    proof (cases ch)
      case True
      then have "opt_closed cs' locs'" "fns_inside cs' fns'" "opt_measure cs' fns' < opt_measure cs fns"
        using r r' Suc.prems(2) by (auto simp: advances_def opt_measure_def)
      with Suc.IH[of cs' locs' fns'] Suc.prems r r' True show ?thesis by simp
    next
      case False
      with r r' Suc.prems(2) show ?thesis by (simp add: advances_def)
    qed
  qed simp
qed simp

section \<open>Examples\<close>

definition optimized :: "nat \<Rightarrow> stmt list \<Rightarrow> (opt_err + instr list) option" where
  "optimized n stmts = (case compile_program stmts (new_compiler Map.empty Map.empty {}) of
      Inl e \<Rightarrow> None
    | Inr t \<Rightarrow> map_option (map_sum id fst) (optimize_bytecode n (code t) (c_functions t) (code_locs t)))"

text \<open>\<^verbatim>\<open>if (true) { }\<close> before the statement \<^verbatim>\<open>nil\<close>, and \<^verbatim>\<open>try { throw nil } catch e { } finally { }\<close>.\<close>

definition useless_target_program :: "stmt list" where
  "useless_target_program = [IfS here_meta (BoolE here_meta True) (Block here_meta []) None,
     ExprStmt here_meta (NilE here_meta)]"

definition try_program :: "stmt list" where
  "try_program = [TryCatch here_meta (Block here_meta [Throw here_meta (NilE here_meta)])
     (Some (py ''e'')) (Some (Block here_meta [])) (Some (Block here_meta []))]"

text \<open>A chain of jumps, a cycle of jumps and a function nobody jumps into.\<close>

definition chain_code :: "instr list" where
  "chain_code = [JUMP (Some 2), HALT, JUMP (Some 4), JUMP (Some 5), JUMP (Some 6), JUMP (Some 3), RETURN]"

lemma chain_code_closed: "opt_closed chain_code (replicate 7 (None, None))"
  by (simp add: opt_closed_def chain_code_def)

section \<open>Properties\<close>

text \<open>
  C33: the optimizer terminates on every compiled module. Twice the size of the module bounds the
  iterations of its loop. It ends with the \<^verbatim>\<open>KeyError\<close> of an address that was removed, or with code
  that has one location per instruction and in which every jump, iterator and exception handler
  address and every function address lies inside the code. Nothing is said of the finally
  addresses of \<^verbatim>\<open>SETUP_TRY\<close>, which the optimizer does not renumber.
\<close>

theorem optimizer_terminates:
  assumes "fresh_compiler s" and "loaded_module M stmts" and "compile_program stmts s = Inr t"
    and "2 * (length (code t) + length (c_functions t)) + 2 \<le> n"
  shows "(\<exists>a. optimize_bytecode n (code t) (c_functions t) (code_locs t) = Some (Inl (KeyErr (Some a)))) \<or>
    (\<exists>cs fns locs. optimize_bytecode n (code t) (c_functions t) (code_locs t) = Some (Inr (cs, fns, locs)) \<and>
      length locs = length cs \<and> (\<forall>i \<in> set cs. \<forall>x. first_target i = Some x \<longrightarrow> (\<exists>a < length cs. x = Some a)) \<and>
      (\<forall>f \<in> set fns. fi_addr (snd f) < length cs))"
proof -
  have c: "closed_code t" using compile_program_ok[OF assms(1,2)] assms(3) by simp
  have "\<exists>a < length (code t). x = Some a" if "i \<in> set (code t)" "first_target i = Some x" for i x
  proof -
    from that(2) have "x \<in> set (targets i)" by (cases i) auto
    with c that(1) show ?thesis by (auto simp: closed_code_def)
  qed
  with c have "opt_closed (code t) (code_locs t)" "fns_inside (code t) (c_functions t)"
    by (auto simp: opt_closed_def closed_code_def fns_inside_def)
  from optimize_bytecode_result[OF this, of n] show ?thesis
    unfolding opt_closed_def fns_inside_def using assms(4) by (simp add: opt_measure_def)
qed

theorem optimizer_terminates_witness:
  "\<exists>t. compile_program loop_program (new_compiler Map.empty Map.empty {}) = Inr t \<and>
     optimize_bytecode 14 (code t) (c_functions t) (code_locs t) \<noteq> None"
proof -
  have "case compile_program loop_program (new_compiler Map.empty Map.empty {}) of
      Inl e \<Rightarrow> False | Inr t \<Rightarrow> length (code t) = 6 \<and> c_functions t = []" by code_simp
  then obtain t where t: "compile_program loop_program (new_compiler Map.empty Map.empty {}) = Inr t"
    and "length (code t) = 6" "c_functions t = []" by (auto split: sum.splits)
  then show ?thesis
    using optimizer_terminates[OF fresh_new_compiler loaded_examples(1) t, of 14] t by auto
qed

text \<open>
  C34: the reachability analysis is exact. On closed code the work list of \<^verbatim>\<open>compute_reachable\<close> ends
  with the least set that holds the entry point and the function addresses inside the code and is
  closed under the successors of \<^verbatim>\<open>next_ips\<close>.
\<close>

theorem reachable_code_exact:
  assumes "opt_closed cs locs"
  shows "compute_reachable cs fns = Inr {ip. reachable_ip cs fns ip}"
  using assms by (rule compute_reachable_correct)

theorem reachable_code_exact_witness: "{ip. reachable_ip chain_code [] ip} = {0, 2, 4, 6}"
proof -
  have "compute_reachable chain_code [] = Inr {0, 2, 4, 6}" by code_simp
  then show ?thesis using reachable_code_exact[OF chain_code_closed, of "[]"] by simp
qed

text \<open>
  C35: jump threading is exact. On closed code \<^verbatim>\<open>simplify_jumps\<close> changes only jump operands, each to
  the end of the chain of unconditional jumps it started: an instruction that is no unconditional
  jump, or a jump on a cycle of jumps.
\<close>

theorem jump_threading_exact:
  assumes "opt_closed cs locs"
  shows "\<exists>out ch. simplify_jumps cs = Inr (out, ch) \<and> length out = length cs \<and>
    (\<forall>j < length cs. case first_target (cs ! j) of
       None \<Rightarrow> out ! j = cs ! j
     | Some t \<Rightarrow> (\<exists>b a. t = Some b \<and> out ! j = with_target (cs ! j) a \<and> (jump_step cs)\<^sup>*\<^sup>* b a \<and> settled cs a))"
proof -
  obtain out ch where o: "simplify_jumps cs = Inr (out, ch)" "threaded cs (length cs) out" "opt_closed out locs"
    using simplify_jumps_threaded[OF assms] by blast
  have "case first_target (cs ! j) of None \<Rightarrow> out ! j = cs ! j
     | Some t \<Rightarrow> (\<exists>b a. t = Some b \<and> out ! j = with_target (cs ! j) a \<and> (jump_step cs)\<^sup>*\<^sup>* b a \<and> settled cs a)"
    if "j < length cs" for j
    using threadedD[OF o(2) that] that settled_of_threaded[OF o(2) _ o(3)]
    by (auto simp: threaded_at_def) blast
  with o threaded_length[OF o(2)] show ?thesis by blast
qed

theorem jump_threading_exact_witness:
  "\<exists>out ch. simplify_jumps chain_code = Inr (out, ch) \<and> out ! 0 = JUMP (Some 6) \<and> settled chain_code 6"
proof -
  have "case simplify_jumps chain_code of Inl e \<Rightarrow> False | Inr (out, ch) \<Rightarrow> out ! 0 = JUMP (Some 6)"
    by code_simp
  then obtain out ch where o: "simplify_jumps chain_code = Inr (out, ch)" "out ! 0 = JUMP (Some 6)"
    by (auto split: sum.splits)
  moreover have "settled chain_code 6"
    using jump_threading_exact[OF chain_code_closed] o by (fastforce simp: chain_code_def)
  ultimately show ?thesis by blast
qed

text \<open>
  C39: \<^verbatim>\<open>remove_useless_stack_ops\<close> is characterised exactly on closed code. A useless push is a constant
  that the next instruction, not itself a jump target, pops again. When the push is itself a jump
  target the pass ends in the \<^verbatim>\<open>KeyError\<close> of such an address: the check for targets looks at the \<^verbatim>\<open>POP\<close> only.
  Otherwise it removes exactly the useless pairs, keeps the order of the rest, and sends every
  jump, iterator and handler address to the new place of the instruction it named.
\<close>

theorem useless_pass_exact:
  fixes code :: "instr list"
  defines "tgts \<equiv> collect_jump_targets code"
  assumes "opt_closed code locs"
  shows "case remove_useless_stack_ops code fns locs tgts of
      Inl e \<Rightarrow> \<exists>i. e = KeyErr (Some i) \<and> useless_push code tgts i \<and> Some i \<in> tgts
    | Inr (code', r) \<Rightarrow> (\<forall>i. useless_push code tgts i \<longrightarrow> Some i \<notin> tgts) \<and>
        length code' = moved code tgts (length code) \<and>
        (\<forall>j < length code. stays code tgts j \<longrightarrow> moved code tgts j < length code' \<and>
          code' ! moved code tgts j = (case first_target (code ! j) of
              Some (Some t) \<Rightarrow> with_target (code ! j) (moved code tgts t)
            | _ \<Rightarrow> code ! j)) \<and>
        (\<forall>j \<in> set code. \<forall>t. first_target j = Some (Some t) \<longrightarrow> stays code tgts t)"
  using remove_useless_exact[OF assms(2), of fns] useless_result_nth[of _ code tgts] useless_target_stays[of code] kept_before_length[of code tgts]
  by (auto simp: tgts_def split: sum.splits)

text \<open>\<^verbatim>\<open>if (true) { }\<close> before the statement \<^verbatim>\<open>nil\<close>, as the compiler emits it.\<close>

definition useless_target_code :: "instr list" where
  "useless_target_code = [JUMP (Some 1), PUSH_CONST (CBool True), JUMP_IF_FALSE (Some 3), PUSH_CONST CNil, POP, HALT]"

theorem useless_pass_exact_witness:
  "compiled useless_target_program = Inr useless_target_code \<and>
   (\<exists>i. remove_useless_stack_ops useless_target_code [] (replicate 6 (None, None))
      (collect_jump_targets useless_target_code) = Inl (KeyErr (Some i))) \<and>
   optimized 10 useless_target_program = Some (Inl (KeyErr (Some 3)))"
proof -
  have "optimized 10 useless_target_program = Some (Inl (KeyErr (Some 3)))" by code_simp
  moreover have "compiled useless_target_program = Inr useless_target_code" by code_simp
  moreover have "opt_closed useless_target_code (replicate 6 (None, None))"
    by (simp add: opt_closed_def useless_target_code_def)
  moreover have "useless_push useless_target_code (collect_jump_targets useless_target_code) 3 \<and>
      Some 3 \<in> collect_jump_targets useless_target_code" by code_simp
  ultimately show ?thesis
    using useless_pass_exact[of useless_target_code "replicate 6 (None, None)" "[]"]
    by (auto split: sum.splits)
qed

text \<open>
  C40: \<^verbatim>\<open>remove_useless_stack_ops\<close> renumbers the handler address of a \<^verbatim>\<open>SETUP_TRY\<close> but not the address of its
  finally block. The instruction of the block's old address is now elsewhere whenever the pass
  dropped an instruction before it: the kept operand is right exactly when nothing before it was
  dropped, and too large otherwise.
\<close>

theorem useless_pass_stale_finally:
  fixes code :: "instr list"
  defines "tgts \<equiv> collect_jump_targets code"
  assumes "opt_closed code locs" and "remove_useless_stack_ops code fns locs tgts = Inr (code', r)"
    and "j < length code" and "code ! j = SETUP_TRY (Some h) (Some (Some f))"
  shows "code' ! moved code tgts j = SETUP_TRY (Some (moved code tgts h)) (Some (Some f)) \<and>
    (f = moved code tgts f \<longleftrightarrow> (\<forall>i < f. stays code tgts i)) \<and> moved code tgts f \<le> f"
proof -
  have "stays code tgts j" by (rule stays_target) (simp_all add: assms(4,5))
  moreover have "code' = useless_result code tgts"
    using remove_useless_exact[OF assms(2), of fns] assms(3) by (simp add: tgts_def)
  ultimately show ?thesis
    using useless_result_nth[OF assms(4), of tgts] assms(5) moved_same[of code tgts f] moved_le[of code tgts f] by auto
qed

text \<open>\<^verbatim>\<open>let x = nil\<close> and the statement \<^verbatim>\<open>nil\<close> before \<^verbatim>\<open>try { throw nil } catch e { } finally { }\<close>.\<close>

definition late_finally_program :: "stmt list" where
  "late_finally_program = LetS here_meta (py ''x'') (NilE here_meta) None False # ExprStmt here_meta (NilE here_meta) # try_program"

definition late_finally_code :: "instr list" where
  "late_finally_code = [JUMP (Some 1), PUSH_CONST CNil, STORE (py ''x''), PUSH_CONST CNil, POP,
     SETUP_TRY (Some 9) (Some (Some 11)), PUSH_CONST CNil, THROW, POP_TRY, STORE (py ''e''), JUMP (Some 11), FINALLY_END, HALT]"

theorem useless_pass_stale_finally_witness:
  "compiled late_finally_program = Inr late_finally_code \<and>
   (\<exists>code' r. remove_useless_stack_ops late_finally_code [] (replicate 13 (None, None))
      (collect_jump_targets late_finally_code) = Inr (code', r) \<and>
    code' ! 3 = SETUP_TRY (Some 7) (Some (Some 11)) \<and> code' ! 9 = FINALLY_END)"
proof -
  let ?t = "collect_jump_targets late_finally_code"
  have "compiled late_finally_program = Inr late_finally_code" by code_simp
  moreover have "opt_closed late_finally_code (replicate 13 (None, None))"
    by (simp add: opt_closed_def late_finally_code_def)
  moreover have "case remove_useless_stack_ops late_finally_code [] (replicate 13 (None, None)) ?t of
      Inl e \<Rightarrow> False | Inr (code', r) \<Rightarrow> code' ! 9 = FINALLY_END" by code_simp
  moreover have "moved late_finally_code ?t 5 = 3" "moved late_finally_code ?t 9 = 7" by code_simp+
  ultimately show ?thesis
    using useless_pass_stale_finally[of late_finally_code "replicate 13 (None, None)" "[]" _ _ 5 9 11]
    by (auto simp: late_finally_code_def split: sum.splits)
qed

end
