(* ===== verification/Py_Repr.thy ===== *)
theory Py_Repr
  imports Py_Num
begin

text \<open>
  Python's \<^verbatim>\<open>repr\<close> of a float: the shortest decimal that reads back as the same float, the nearest one
  where several are as short, in positional notation for decimal points from -3 to 16 and in
  exponent notation otherwise.
\<close>

text \<open>The position of the decimal point of \<open>p / q\<close>: \<open>k\<close> with \<open>10 ^ (k - 1) \<le> p / q < 10 ^ k\<close>. A float
  has at most 323 leading zeros.\<close>

fun leading_zeros :: "nat \<Rightarrow> nat \<Rightarrow> nat \<Rightarrow> nat" where
  "leading_zeros 0 p q = 0"
| "leading_zeros (Suc n) p q = (if p * 10 < q then Suc (leading_zeros n (p * 10) q) else 0)"

definition decimal_point :: "nat \<Rightarrow> nat \<Rightarrow> int" where
  "decimal_point p q =
     (if q \<le> p then int (length (digits_of (p div q))) else - int (leading_zeros 400 p q))"

definition pow10_pos :: "int \<Rightarrow> nat" where "pow10_pos e = 10 ^ nat e"

definition pow10_neg :: "int \<Rightarrow> nat" where "pow10_neg e = 10 ^ nat (- e)"

text \<open>The candidates with \<open>n\<close> digits, nearest first, and the first length with one that reads back.\<close>

definition candidates :: "nat \<Rightarrow> nat \<Rightarrow> int \<Rightarrow> nat \<Rightarrow> nat list" where
  "candidates p q k n =
     (let a = p * pow10_pos (int n - k); b = q * pow10_neg (int n - k); lo = a div b
      in if div_half_even a b = lo then [lo, lo + 1] else [lo + 1, lo])"

definition reads_back :: "pyfloat \<Rightarrow> bool \<Rightarrow> int \<Rightarrow> nat \<Rightarrow> nat \<Rightarrow> bool" where
  "reads_back f s k n d \<longleftrightarrow> round_ratio s (d * pow10_pos (k - int n)) (pow10_neg (k - int n)) = f"

fun shortest :: "pyfloat \<Rightarrow> bool \<Rightarrow> nat \<Rightarrow> nat \<Rightarrow> int \<Rightarrow> nat \<Rightarrow> nat \<Rightarrow> nat \<times> int" where
  "shortest f s p q k n 0 = (hd (candidates p q k n), k - int n)"
| "shortest f s p q k n (Suc left) = (case find (reads_back f s k n) (candidates p q k n) of
      Some d \<Rightarrow> (d, k - int n)
    | None \<Rightarrow> shortest f s p q k (Suc n) left)"

text \<open>\<open>d * 10 ^ e\<close> in the notation of \<^verbatim>\<open>repr\<close>.\<close>

fun strip_zeros :: "nat \<Rightarrow> nat \<Rightarrow> int \<Rightarrow> nat \<times> int" where
  "strip_zeros 0 d e = (d, e)"
| "strip_zeros (Suc n) d e = (if d mod 10 = 0 then strip_zeros n (d div 10) (e + 1) else (d, e))"

definition format_decimal :: "nat \<Rightarrow> int \<Rightarrow> pystr" where
  "format_decimal d e =
     (let (d', e') = strip_zeros 20 d e; ds = digits_of d'; n = int (length ds); k = n + e'
      in if k \<le> - 4 \<or> 16 < k then
           (if length ds = 1 then ds else hd ds # 46 # tl ds) @ py ''e'' @ (if k - 1 < 0 then py ''-'' else py ''+'') @
           (let x = digits_of (nat \<bar>k - 1\<bar>) in if length x = 1 then 48 # x else x)
         else if k \<le> 0 then py ''0.'' @ replicate (nat (- k)) 48 @ ds
         else if n \<le> k then ds @ replicate (nat (k - n)) 48 @ py ''.0''
         else take (nat k) ds @ [46] @ drop (nat k) ds)"

fun float_repr :: "pyfloat \<Rightarrow> pystr" where
  "float_repr FNaN = py ''nan''"
| "float_repr (FInf s) = (if s then py ''-inf'' else py ''inf'')"
| "float_repr (FFin s m e) =
     (if s then py ''-'' else []) @
     (if m = 0 then py ''0.0''
      else let p = m * pow_pos e; q = pow_neg e; (d, x) = shortest (FFin s m e) s p q (decimal_point p q) 1 16
           in format_decimal d x)"

end
