(* ===== verification/VM_State.thy ===== *)
theory VM_State
  imports Py_Repr Lexer_Props Nodus_Ast Optimizer
begin

text \<open>
  The state of the stack machine in \<^verbatim>\<open>src/nodus/vm/vm.py\<close> and the value classes of
  \<^verbatim>\<open>src/nodus/vm/types.py\<close>: values, the heap of mutable objects, frames, exception handlers, pending
  actions of \<^verbatim>\<open>finally\<close> blocks, errors, and the operations on them that the instruction handlers
  share. The stacks are lists whose head is the top.

  The machine runs one chunk of code: module objects, live bindings to other modules, closures of
  other chunks and byte strings are not values of the model. The state carries the module context
  that a frame restores, because leaving a frame and unwinding act on it. Objects of classes the
  machine only passes around (coroutines, channels, tasks, graphs) are opaque. A Python operation
  runs at most \<open>v_recursion\<close> levels deep in nested containers.
\<close>

section \<open>Values and objects\<close>

datatype val = VNil | VBool bool | VInt int | VFloat pyfloat | VStr pystr | VRef nat

text \<open>A variable holds a value or, once a closure captured it, the address of a \<^verbatim>\<open>Cell\<close>.\<close>

datatype slot = Plain val | Boxed nat

text \<open>What an \<^verbatim>\<open>Iterator\<close> advances over: a list and the next index, or a record with \<^verbatim>\<open>__next__\<close>.\<close>

datatype iter_source = ListIterator nat nat | RecordIterator nat

datatype obj =
    OList "val list"
  | ODict "(val \<times> val) list"
  | Record pystr "(pystr \<times> val) list"
  | Cell val
  | Closure function_info "nat list"
  | Iterator iter_source bool
  | BuiltinMethod nat
  | Names "(pystr \<times> slot) list"
  | Opaque pystr pystr

type_synonym heap = "obj list"

definition get_obj :: "heap \<Rightarrow> nat \<Rightarrow> obj" where
  "get_obj h a = (if a < length h then h ! a else Opaque (py ''unknown'') [])"

text \<open>Tests like \<^verbatim>\<open>isinstance(v, list)\<close>, with what the object holds.\<close>

definition obj_of :: "heap \<Rightarrow> val \<Rightarrow> obj option" where
  "obj_of h v = (case v of VRef a \<Rightarrow> Some (get_obj h a) | _ \<Rightarrow> None)"

definition addr_of :: "val \<Rightarrow> nat" where
  "addr_of v = (case v of VRef a \<Rightarrow> a | _ \<Rightarrow> 0)"

definition list_of :: "heap \<Rightarrow> val \<Rightarrow> val list option" where
  "list_of h v = (case obj_of h v of Some (OList xs) \<Rightarrow> Some xs | _ \<Rightarrow> None)"

definition dict_items :: "heap \<Rightarrow> val \<Rightarrow> (val \<times> val) list option" where
  "dict_items h v = (case obj_of h v of Some (ODict d) \<Rightarrow> Some d | _ \<Rightarrow> None)"

definition record_of :: "heap \<Rightarrow> val \<Rightarrow> (pystr \<times> (pystr \<times> val) list) option" where
  "record_of h v = (case obj_of h v of Some (Record kind fs) \<Rightarrow> Some (kind, fs) | _ \<Rightarrow> None)"

definition closure_of :: "heap \<Rightarrow> val \<Rightarrow> function_info option" where
  "closure_of h v = (case obj_of h v of Some (Closure fi cells) \<Rightarrow> Some fi | _ \<Rightarrow> None)"

definition iterator_of :: "heap \<Rightarrow> val \<Rightarrow> (iter_source \<times> bool) option" where
  "iterator_of h v = (case obj_of h v of Some (Iterator src b) \<Rightarrow> Some (src, b) | _ \<Rightarrow> None)"

definition method_of :: "heap \<Rightarrow> val \<Rightarrow> nat option" where
  "method_of h v = (case obj_of h v of Some (BuiltinMethod k) \<Rightarrow> Some k | _ \<Rightarrow> None)"

text \<open>Python's \<^verbatim>\<open>dict\<close> keeps the first of equal keys and the order of insertion.\<close>

fun dict_get :: "('k \<Rightarrow> 'k \<Rightarrow> bool) \<Rightarrow> 'k \<Rightarrow> ('k \<times> 'v) list \<Rightarrow> 'v option" where
  "dict_get eq k [] = None"
| "dict_get eq k ((k', v) # d) = (if eq k' k then Some v else dict_get eq k d)"

fun dict_set :: "('k \<Rightarrow> 'k \<Rightarrow> bool) \<Rightarrow> 'k \<Rightarrow> 'v \<Rightarrow> ('k \<times> 'v) list \<Rightarrow> ('k \<times> 'v) list" where
  "dict_set eq k v [] = [(k, v)]"
| "dict_set eq k v ((k', w) # d) = (if eq k' k then (k', v) # d else (k', w) # dict_set eq k v d)"

fun num_value :: "val \<Rightarrow> pynum option" where
  "num_value (VInt i) = Some (NInt i)"
| "num_value (VBool b) = Some (NInt (if b then 1 else 0))"
| "num_value (VFloat f) = Some (NFloat f)"
| "num_value _ = None"

fun value_of_num :: "pynum \<Rightarrow> val" where
  "value_of_num (NInt i) = VInt i"
| "value_of_num (NFloat f) = VFloat f"

fun const_value :: "const \<Rightarrow> val" where
  "const_value CNil = VNil"
| "const_value (CBool b) = VBool b"
| "const_value (CInt i) = VInt i"
| "const_value (CFloat f) = VFloat f"
| "const_value (CStr s) = VStr s"

text \<open>Keys of a map are strings and numbers; they compare like Python's \<^verbatim>\<open>==\<close>.\<close>

definition key_eq :: "val \<Rightarrow> val \<Rightarrow> bool" where
  "key_eq a b = (case (num_value a, num_value b) of
      (Some x, Some y) \<Rightarrow> num_cmp x y = Some 0
    | (None, None) \<Rightarrow> a = b
    | _ \<Rightarrow> False)"

section \<open>The state\<close>

text \<open>The tuple of \<^verbatim>\<open>_capture_module_ctx\<close>; the namespaces are heap objects, so that contexts share
  them. The table of builtins is the argument \<open>world\<close> of the handlers.\<close>

record module_ctx =
  cx_code :: "instr list"
  cx_functions :: "(pystr \<times> function_info) list"
  cx_module_globals :: nat
  cx_globals :: nat
  cx_code_locs :: "loc list"
  cx_source_path :: "pystr option"
  cx_host_globals :: nat
  cx_version :: int

record frame =
  fr_return_ip :: "nat option"
  fr_locals :: "(pystr \<times> slot) list"
  fr_fn_name :: pystr
  fr_call_pos :: "(nat \<times> nat) option"
  fr_call_path :: "pystr option"
  fr_closure :: "nat option"
  fr_array :: "slot list option"
  fr_slots :: "pystr \<rightharpoonup> nat"
  fr_ctx :: "module_ctx option"

text \<open>An entry of \<^verbatim>\<open>handler_stack\<close>: the handler address (\<open>Gate\<close> is \<^verbatim>\<open>_FINALLY_GATE\<close>), the address of
  the finally block (0 for none), and the depths of both stacks. Addresses are options because a
  jump operand is.\<close>

datatype handler_target = Gate | At "nat option"

record handler =
  h_target :: handler_target
  h_finally :: "nat option"
  h_stack :: nat
  h_frames :: nat

record lang_err =
  e_kind :: pystr
  e_message :: pystr
  e_path :: "pystr option"
  e_pos :: "(nat \<times> nat) option"
  e_stack :: "pystr list"
  e_payload :: val
  e_origin :: pystr

text \<open>What a handler may raise: a \<^verbatim>\<open>LangRuntimeError\<close>, a \<^verbatim>\<open>HostFunctionError\<close>, or another Python
  exception, of which the machine reads the text. \<open>Unfinished\<close> is no exception of the program: the bound
  on the instructions of a run was reached.\<close>

datatype exn = Lang lang_err | HostError pystr | PyError pystr | Unfinished

record coroutine =
  co_state :: pystr
  co_ip :: "nat option"
  co_stack :: "val list"
  co_frames :: "frame list"
  co_handlers :: "handler list"
  co_deferred_return :: "val option"
  co_deferred_return_depth :: nat
  co_deferred_error :: "lang_err option"
  co_deferred_error_depth :: nat
  co_ctx :: "module_ctx option"

record vm =
  v_ctx :: module_ctx
  v_ip :: "nat option"
  v_stack :: "val list"
  v_frames :: "frame list"
  v_handlers :: "handler list"
  v_deferred_return :: "val option"
  v_deferred_return_depth :: nat
  v_deferred_error :: "lang_err option"
  v_deferred_error_depth :: nat
  v_cancelling :: bool
  v_coroutine :: "coroutine option"
  v_heap :: heap
  v_max_frames :: "nat option"
  v_max_steps :: "nat option"
  v_instructions :: nat
  v_task_step_budget :: "int option"
  v_budget_exceeded :: bool
  v_function_calls :: nat
  v_returns :: nat
  v_exceptions :: nat
  v_bare_import_hints :: "(pystr \<times> pystr) list"
  v_externs :: "pystr list"
  v_recursion :: nat

section \<open>Sequencing\<close>

text \<open>A handler keeps the changes it made before it raised.\<close>

type_synonym 'a run = "vm \<Rightarrow> (exn + 'a) \<times> vm"

definition ret :: "'a \<Rightarrow> 'a run" where
  "ret x s = (Inr x, s)"

definition raise :: "exn \<Rightarrow> 'a run" where
  "raise e s = (Inl e, s)"

definition bindR :: "'a run \<Rightarrow> ('a \<Rightarrow> 'b run) \<Rightarrow> 'b run" where
  "bindR m f s = (case m s of (Inl e, t) \<Rightarrow> (Inl e, t) | (Inr x, t) \<Rightarrow> f x t)"

definition thenR :: "'a run \<Rightarrow> 'b run \<Rightarrow> 'b run" where
  "thenR m n = bindR m (\<lambda>_. n)"

definition modify :: "(vm \<Rightarrow> vm) \<Rightarrow> unit run" where
  "modify f s = (Inr (), f s)"

definition reading :: "(vm \<Rightarrow> 'a run) \<Rightarrow> 'a run" where
  "reading f s = f s s"

definition gets :: "(vm \<Rightarrow> 'a) \<Rightarrow> 'a run" where
  "gets f s = (Inr (f s), s)"


definition push :: "val \<Rightarrow> unit run" where
  "push v = modify (\<lambda>s. s\<lparr>v_stack := v # v_stack s\<rparr>)"

definition advance :: "unit run" where
  "advance = modify (\<lambda>s. s\<lparr>v_ip := map_option Suc (v_ip s)\<rparr>)"

definition jump_to :: "nat option \<Rightarrow> unit run" where
  "jump_to a = modify (\<lambda>s. s\<lparr>v_ip := a\<rparr>)"

definition alloc :: "obj \<Rightarrow> nat run" where
  "alloc x s = (Inr (length (v_heap s)), s\<lparr>v_heap := v_heap s @ [x]\<rparr>)"

definition set_obj :: "nat \<Rightarrow> obj \<Rightarrow> unit run" where
  "set_obj a x = modify (\<lambda>s. s\<lparr>v_heap := (v_heap s)[a := x]\<rparr>)"

definition new_ref :: "obj \<Rightarrow> val run" where
  "new_ref x = bindR (alloc x) (\<lambda>a. ret (VRef a))"

section \<open>Names for display\<close>

definition contains :: "pystr \<Rightarrow> pystr \<Rightarrow> bool" where
  "contains s p \<longleftrightarrow> find_sub p s \<noteq> None"

definition display_name :: "pystr \<Rightarrow> pystr" where
  "display_name name =
     (if starts_with name BUILTIN_CALL_PREFIX then drop (length BUILTIN_CALL_PREFIX) name
      else let name1 = (case find_sub (py ''__fn'') name of None \<Rightarrow> name | Some i \<Rightarrow> take i name)
           in if starts_with name1 (py ''__mod'') \<and> contains (drop 5 name1) (py ''__'')
              then (case find_sub (py ''__'') (drop 2 name1) of
                      None \<Rightarrow> name1
                    | Some i \<Rightarrow> let rest = drop (i + 4) name1 in if rest \<noteq> [] then rest else name1)
              else name1)"

definition is_stdlib_path :: "pystr option \<Rightarrow> bool" where
  "is_stdlib_path path = (case path of
      None \<Rightarrow> False
    | Some p \<Rightarrow> let n = replace_char 92 (py ''/'') p
        in p \<noteq> [] \<and> contains n (py ''/stdlib/'') \<and> starts_with (rev n) (rev (py ''.nd'')))"

text \<open>\<^verbatim>\<open>a or b\<close> on optional strings: \<^verbatim>\<open>None\<close> and the empty string are false.\<close>

definition or_str :: "pystr option \<Rightarrow> pystr option \<Rightarrow> pystr option" where
  "or_str a b = (case a of Some (c # cs) \<Rightarrow> a | _ \<Rightarrow> b)"

definition format_loc :: "pystr option \<Rightarrow> (nat \<times> nat) option \<Rightarrow> pystr" where
  "format_loc path pos = (case (or_str path None, pos) of
      (Some p, Some (line, col)) \<Rightarrow> p @ py '':'' @ str_nat line @ py '':'' @ str_nat col
    | (Some p, None) \<Rightarrow> p
    | (None, Some (line, col)) \<Rightarrow> str_nat line @ py '':'' @ str_nat col
    | (None, None) \<Rightarrow> py ''<unknown>'')"

section \<open>Errors\<close>

definition current_loc :: "vm \<Rightarrow> loc" where
  "current_loc s = (case v_ip s of
      Some i \<Rightarrow> (if i < length (cx_code_locs (v_ctx s)) then cx_code_locs (v_ctx s) ! i
                 else (cx_source_path (v_ctx s), None))
    | None \<Rightarrow> (cx_source_path (v_ctx s), None))"

definition call_site_path :: "vm \<Rightarrow> frame \<Rightarrow> pystr option" where
  "call_site_path s f =
     or_str (fr_call_path f) (or_str (cx_source_path (v_ctx s)) (Some (py ''<repl>'')))"

text \<open>An error inside the standard library is reported at the innermost call site outside it.\<close>

fun promoted_site :: "vm \<Rightarrow> frame list \<Rightarrow> loc option" where
  "promoted_site s [] = None"
| "promoted_site s (f # fs) =
     (if fr_call_pos f \<noteq> None \<and> \<not> is_stdlib_path (call_site_path s f)
      then Some (call_site_path s f, fr_call_pos f) else promoted_site s fs)"

fun stack_lines :: "vm \<Rightarrow> frame list \<Rightarrow> pystr list" where
  "stack_lines s [] = []"
| "stack_lines s (f # fs) =
     (let caller = (case fs of [] \<Rightarrow> py ''<main>'' | g # _ \<Rightarrow> fr_fn_name g)
      in (if fr_call_pos f \<noteq> None
          then [py ''called from '' @ display_name caller @ py '' ('' @
                format_loc (call_site_path s f) (fr_call_pos f) @ py '')'']
          else []) @ stack_lines s fs)"

definition build_error_stack :: "loc \<Rightarrow> vm \<Rightarrow> pystr list" where
  "build_error_stack l s =
     (let current = (case v_frames s of [] \<Rightarrow> py ''<main>'' | f # _ \<Rightarrow> fr_fn_name f)
      in (py ''at '' @ display_name current @ py '' ('' @ format_loc (fst l) (snd l) @ py '')'') #
         stack_lines s (v_frames s))"

definition build_runtime_error :: "pystr \<Rightarrow> pystr \<Rightarrow> val \<Rightarrow> pystr \<Rightarrow> vm \<Rightarrow> lang_err" where
  "build_runtime_error kind message payload origin s =
     (let here = current_loc s;
          (path, pos) = (if is_stdlib_path (fst here)
                         then (case promoted_site s (v_frames s) of None \<Rightarrow> here | Some l \<Rightarrow> l) else here)
      in \<lparr>e_kind = kind, e_message = message, e_path = or_str path (cx_source_path (v_ctx s)), e_pos = pos,
          e_stack = build_error_stack (path, pos) s, e_payload = payload, e_origin = origin\<rparr>)"

definition raise_error :: "pystr \<Rightarrow> pystr \<Rightarrow> val \<Rightarrow> pystr \<Rightarrow> 'a run" where
  "raise_error kind message payload origin s =
     raise (Lang (build_runtime_error kind message payload origin s)) s"

definition runtime_error :: "string \<Rightarrow> pystr \<Rightarrow> 'a run" where
  "runtime_error kind message = raise_error (py kind) message VNil (py ''vm'')"

definition pop :: "val run" where
  "pop s = (case v_stack s of
      [] \<Rightarrow> runtime_error ''runtime'' (py ''Stack underflow'') s
    | v # vs \<Rightarrow> (Inr v, s\<lparr>v_stack := vs\<rparr>))"

text \<open>\<^verbatim>\<open>[self.pop() for _ in range(n)]\<close> reversed.\<close>

fun pop_acc :: "nat \<Rightarrow> val list \<Rightarrow> val list run" where
  "pop_acc 0 acc = ret acc"
| "pop_acc (Suc n) acc = bindR pop (\<lambda>v. pop_acc n (v # acc))"

definition pop_args :: "nat \<Rightarrow> val list run" where
  "pop_args n = pop_acc n []"

fun push_all :: "val list \<Rightarrow> unit run" where
  "push_all [] = ret ()"
| "push_all (v # vs) = thenR (push v) (push_all vs)"

section \<open>Types and truth\<close>

definition builtin_type :: "heap \<Rightarrow> val \<Rightarrow> pystr" where
  "builtin_type h v = (case v of
      VNil \<Rightarrow> py ''nil'' | VBool _ \<Rightarrow> py ''bool'' | VInt _ \<Rightarrow> py ''int'' | VFloat _ \<Rightarrow> py ''float''
    | VStr _ \<Rightarrow> py ''string''
    | VRef a \<Rightarrow> (case get_obj h a of
          OList _ \<Rightarrow> py ''list'' | ODict _ \<Rightarrow> py ''map'' | Record kind _ \<Rightarrow> kind
        | Closure _ _ \<Rightarrow> py ''function'' | Opaque ty _ \<Rightarrow> ty | _ \<Rightarrow> py ''unknown''))"

definition is_truthy :: "heap \<Rightarrow> val \<Rightarrow> bool" where
  "is_truthy h v = (case v of
      VNil \<Rightarrow> False | VBool b \<Rightarrow> b | VInt i \<Rightarrow> i \<noteq> 0 | VFloat f \<Rightarrow> \<not> float_is_zero f | VStr s \<Rightarrow> s \<noteq> []
    | VRef a \<Rightarrow> (case get_obj h a of OList xs \<Rightarrow> xs \<noteq> [] | ODict d \<Rightarrow> d \<noteq> [] | _ \<Rightarrow> True))"

definition binary_type_error :: "string \<Rightarrow> val \<Rightarrow> val \<Rightarrow> 'a run" where
  "binary_type_error oper a b s = runtime_error ''type'' (py ''Cannot '' @ py oper @ py '' '' @
     builtin_type (v_heap s) a @ py '' and '' @ builtin_type (v_heap s) b) s"

definition compare_type_error :: "val \<Rightarrow> val \<Rightarrow> 'a run" where
  "compare_type_error a b s = runtime_error ''type'' (py ''Cannot compare '' @
     builtin_type (v_heap s) a @ py '' and '' @ builtin_type (v_heap s) b) s"

definition unary_type_error :: "string \<Rightarrow> val \<Rightarrow> 'a run" where
  "unary_type_error oper a s =
     runtime_error ''type'' (py ''Cannot '' @ py oper @ py '' '' @ builtin_type (v_heap s) a) s"

section \<open>Strings of values\<close>

text \<open>\<^verbatim>\<open>value_to_string\<close>: \<open>None\<close> is Python's recursion limit. Objects without a string form of their own
  print as Python's default, which depends on the address.\<close>

fun value_to_string :: "nat \<Rightarrow> (nat \<Rightarrow> pystr) \<Rightarrow> heap \<Rightarrow> val \<Rightarrow> bool \<Rightarrow> pystr option" where
  "value_to_string 0 dflt h v quote = None"
| "value_to_string (Suc n) dflt h v quote = (case v of
      VNil \<Rightarrow> Some (py ''nil'')
    | VBool b \<Rightarrow> Some (if b then py ''true'' else py ''false'')
    | VInt i \<Rightarrow> Some (str_int i)
    | VFloat f \<Rightarrow> Some (float_repr f)
    | VStr t \<Rightarrow> Some (if quote then [34] @ escape_string t @ [34] else t)
    | VRef a \<Rightarrow> (case get_obj h a of
          OList xs \<Rightarrow>
            map_option (\<lambda>ps. py ''['' @ join_str (py '', '') ps @ py '']'')
              (those (map (\<lambda>x. value_to_string n dflt h x True) xs))
        | ODict d \<Rightarrow>
            map_option (\<lambda>ps. py ''{'' @ join_str (py '', '') ps @ py ''}'')
              (those (map (\<lambda>(k, x). case (value_to_string n dflt h k True, value_to_string n dflt h x True) of
                 (Some ks, Some vs) \<Rightarrow> Some (ks @ py '': '' @ vs) | _ \<Rightarrow> None) d))
        | Record kind fs \<Rightarrow>
            (case (if kind = py ''error'' then dict_get (=) (py ''message'') fs else None) of
               Some (VStr t) \<Rightarrow> Some t
             | _ \<Rightarrow> map_option (\<lambda>ps. py ''record {'' @ join_str (py '', '') ps @ py ''}'')
                 (those (map (\<lambda>(k, x). map_option (\<lambda>vs. [34] @ escape_string k @ [34] @ py '': '' @ vs)
                    (value_to_string n dflt h x True)) fs)))
        | BuiltinMethod _ \<Rightarrow> Some (py ''<builtin-method>'')
        | Opaque ty text \<Rightarrow> Some text
        | _ \<Rightarrow> Some (dflt a)))"

section \<open>Equality and order\<close>

text \<open>Python's \<^verbatim>\<open>a == b\<close>, by identity first inside containers. \<open>Inl\<close> is the text of an exception that is
  not a \<^verbatim>\<open>TypeError\<close>. Two NaN objects inside a container count as different objects.\<close>

definition recursion_text :: pystr where
  "recursion_text = py ''maximum recursion depth exceeded in comparison''"

definition quoted :: "string \<Rightarrow> pystr" where
  "quoted t = [39] @ py t @ [39]"

fun all_pairs :: "('a \<Rightarrow> 'a \<Rightarrow> pystr + bool) \<Rightarrow> 'a list \<Rightarrow> 'a list \<Rightarrow> pystr + bool" where
  "all_pairs f (x # xs) (y # ys) = bindE (f x y) (\<lambda>b. if b then all_pairs f xs ys else Inr False)"
| "all_pairs f _ _ = Inr True"

fun all_entries :: "(val \<Rightarrow> val \<Rightarrow> pystr + bool) \<Rightarrow> (val \<times> val) list \<Rightarrow> (val \<times> val) list \<Rightarrow> pystr + bool" where
  "all_entries f [] d = Inr True"
| "all_entries f ((k, v) # es) d = (case dict_get key_eq k d of
      None \<Rightarrow> Inr False
    | Some w \<Rightarrow> bindE (f v w) (\<lambda>b. if b then all_entries f es d else Inr False))"

definition timed_field :: "pystr \<Rightarrow> string option" where
  "timed_field kind = (if kind = py ''datetime'' then Some ''epoch_ms''
     else if kind = py ''duration'' then Some ''total_ms'' else None)"

definition both_fields :: "string \<Rightarrow> (pystr \<times> val) list \<Rightarrow> (pystr \<times> val) list \<Rightarrow> pystr + val \<times> val" where
  "both_fields f xs ys = (case (dict_get (=) (py f) xs, dict_get (=) (py f) ys) of
      (Some x, Some y) \<Rightarrow> Inr (x, y) | _ \<Rightarrow> Inl (quoted f))"

fun py_eq_values :: "nat \<Rightarrow> heap \<Rightarrow> val \<Rightarrow> val \<Rightarrow> pystr + bool" where
  "py_eq_values 0 h a b = Inl recursion_text"
| "py_eq_values (Suc n) h a b = (case (a, b) of
      (VRef p, VRef q) \<Rightarrow> (case (get_obj h p, get_obj h q) of
          (Record k xs, Record k' ys) \<Rightarrow>
            (case (if k = k' then timed_field k else None) of
               Some f \<Rightarrow> bindE (both_fields f xs ys) (\<lambda>(x, y). py_eq_values n h x y)
             | None \<Rightarrow> Inr (p = q))
        | (OList xs, OList ys) \<Rightarrow>
            (if p = q then Inr True
             else if length xs \<noteq> length ys then Inr False
             else all_pairs (\<lambda>x y. if x = y \<and> num_value x = None then Inr True else py_eq_values n h x y) xs ys)
        | (ODict d, ODict e) \<Rightarrow>
            (if p = q then Inr True
             else if length d \<noteq> length e then Inr False
             else all_entries (\<lambda>x y. if x = y \<and> num_value x = None then Inr True else py_eq_values n h x y) d e)
        | _ \<Rightarrow> Inr (p = q))
    | _ \<Rightarrow> Inr (key_eq a b))"

text \<open>\<^verbatim>\<open>_nodus_eq\<close>.\<close>

fun is_number :: "val \<Rightarrow> bool" where
  "is_number (VInt _) = True"
| "is_number (VFloat _) = True"
| "is_number _ = False"

definition float_value :: "val \<Rightarrow> pystr + pyfloat" where
  "float_value v = (case num_value v of
      None \<Rightarrow> Inl (py ''not a number'')
    | Some x \<Rightarrow> (case as_float x of
        None \<Rightarrow> Inl (py ''int too large to convert to float'')
      | Some f \<Rightarrow> Inr f))"

definition nodus_eq :: "nat \<Rightarrow> heap \<Rightarrow> val \<Rightarrow> val \<Rightarrow> pystr + bool" where
  "nodus_eq n h a b =
     (if is_number a \<and> is_number b
      then bindE (float_value a) (\<lambda>x. bindE (float_value b) (\<lambda>y. Inr (float_eq x y)))
      else case (a, b) of
          (VBool x, VBool y) \<Rightarrow> Inr (x = y)
        | (VBool _, _) \<Rightarrow> Inr False
        | (_, VBool _) \<Rightarrow> Inr False
        | _ \<Rightarrow> py_eq_values n h a b)"

text \<open>The result of an ordering: its value, a \<^verbatim>\<open>TypeError\<close>, or the text of another exception. The order
  of two numbers is given by the sign of the comparison, with every answer \<^verbatim>\<open>False\<close> on a NaN.\<close>

datatype cmp_result = CmpIs bool | CmpTypeError | CmpError pystr

definition sign_test :: "(int \<Rightarrow> bool) \<Rightarrow> int option \<Rightarrow> bool" where
  "sign_test test c = (case c of None \<Rightarrow> False | Some i \<Rightarrow> test i)"

fun first_difference :: "(val \<Rightarrow> val \<Rightarrow> pystr + bool) \<Rightarrow> val list \<Rightarrow> val list \<Rightarrow> pystr + (val \<times> val) option" where
  "first_difference f (x # xs) (y # ys) =
     bindE (f x y) (\<lambda>b. if b then first_difference f xs ys else Inr (Some (x, y)))"
| "first_difference f _ _ = Inr None"

fun py_order_values :: "nat \<Rightarrow> heap \<Rightarrow> (int \<Rightarrow> bool) \<Rightarrow> val \<Rightarrow> val \<Rightarrow> cmp_result" where
  "py_order_values 0 h test a b = CmpError recursion_text"
| "py_order_values (Suc n) h test a b = (case (num_value a, num_value b) of
      (Some x, Some y) \<Rightarrow> CmpIs (sign_test test (num_cmp x y))
    | _ \<Rightarrow> (case (a, b) of
        (VStr s, VStr t) \<Rightarrow> CmpIs (test (if s < t then - 1 else if s = t then 0 else 1))
      | (VRef p, VRef q) \<Rightarrow> (case (get_obj h p, get_obj h q) of
            (Record k xs, Record k' ys) \<Rightarrow>
              (case (if k = k' then timed_field k else None) of
                 Some f \<Rightarrow> (case both_fields f xs ys of
                     Inl e \<Rightarrow> CmpError e | Inr (x, y) \<Rightarrow> py_order_values n h test x y)
               | None \<Rightarrow> CmpTypeError)
          | (OList xs, OList ys) \<Rightarrow>
              (case first_difference
                 (\<lambda>x y. if x = y \<and> num_value x = None then Inr True else py_eq_values n h x y) xs ys of
                 Inl e \<Rightarrow> CmpError e
               | Inr None \<Rightarrow> CmpIs (test (sgn (int (length xs) - int (length ys))))
               | Inr (Some (x, y)) \<Rightarrow> py_order_values n h test x y)
          | _ \<Rightarrow> CmpTypeError)
      | _ \<Rightarrow> CmpTypeError))"

end
