(* ===== verification/VM_Core.thy ===== *)
theory VM_Core
  imports VM_State
begin

text \<open>
  The shared operations of the machine: name resolution and captured variables, the exception
  handlers and pending actions of \<^verbatim>\<open>try\<close> / \<^verbatim>\<open>catch\<close> / \<^verbatim>\<open>finally\<close>, indexing, calls of builtins and
  closures. An empty table of slots and a missing one behave alike, so \<open>fr_slots\<close> is a map.
\<close>

section \<open>Variables\<close>

definition cell_value :: "heap \<Rightarrow> nat \<Rightarrow> val" where
  "cell_value h a = (case get_obj h a of Cell v \<Rightarrow> v | _ \<Rightarrow> VNil)"

definition slot_value :: "heap \<Rightarrow> slot \<Rightarrow> val" where
  "slot_value h x = (case x of Plain v \<Rightarrow> v | Boxed a \<Rightarrow> cell_value h a)"

definition names_at :: "heap \<Rightarrow> nat \<Rightarrow> (pystr \<times> slot) list" where
  "names_at h a = (case get_obj h a of Names d \<Rightarrow> d | _ \<Rightarrow> [])"

definition current_locals :: "vm \<Rightarrow> (pystr \<times> slot) list option" where
  "current_locals s = (case v_frames s of [] \<Rightarrow> None | f # _ \<Rightarrow> Some (fr_locals f))"

definition local_slot :: "pystr \<Rightarrow> vm \<Rightarrow> slot option" where
  "local_slot name s = (case current_locals s of None \<Rightarrow> None | Some d \<Rightarrow> dict_get (=) name d)"

definition update_top :: "(frame \<Rightarrow> frame) \<Rightarrow> unit run" where
  "update_top g = modify (\<lambda>s. s\<lparr>v_frames := (case v_frames s of [] \<Rightarrow> [] | f # fs \<Rightarrow> g f # fs)\<rparr>)"

definition extern_hint :: "pystr \<Rightarrow> vm \<Rightarrow> pystr" where
  "extern_hint name s =
     (if name \<notin> set (v_externs s) then []
      else py '' -- declared `extern` in this program, but nothing has registered it. '' @
           py ''`nodus run` does not register host functions; run it from a host that '' @
           py ''calls register_function('' @ [34] @ name @ [34] @ py '', ...), or remove the declaration.'')"

definition undefined_variable :: "pystr \<Rightarrow> 'a run" where
  "undefined_variable name = reading (\<lambda>s. (if name = py ''await'' \<or> name = py ''async'' then
        runtime_error ''name'' ([34] @ name @ [34] @ py '' is not a keyword in Nodus; '' @
          py ''async builtins (http_get_async, subprocess_run_async) return their result directly '' @
          [8212] @ py '' no await needed'')
      else case dict_get (=) name (v_bare_import_hints s) of
          Some path \<Rightarrow> runtime_error ''name'' (py ''Undefined variable: '' @ [39] @ name @ [39] @ py ''. Module '' @
            [39] @ path @ [39] @ py '' was imported without an alias '' @ [8212] @ py '' add '' @ [39] @ py ''as '' @
            name @ [39] @ py '' to the import to use '' @ [39] @ name @ py ''.method()'' @ [39] @ py '' syntax'')
        | None \<Rightarrow> runtime_error ''name'' (py ''Undefined variable: '' @ name @ extern_hint name s)))"

definition load_name :: "pystr \<Rightarrow> val run" where
  "load_name name = reading (\<lambda>s. (case local_slot name s of
      Some x \<Rightarrow> ret (slot_value (v_heap s) x)
    | None \<Rightarrow> (case dict_get (=) name (names_at (v_heap s) (cx_module_globals (v_ctx s))) of
        Some x \<Rightarrow> ret (slot_value (v_heap s) x)
      | None \<Rightarrow> (case dict_get (=) name (cx_functions (v_ctx s)) of
          Some fi \<Rightarrow> new_ref (Closure fi [])
        | None \<Rightarrow> (case dict_get (=) name (names_at (v_heap s) (cx_host_globals (v_ctx s))) of
            Some x \<Rightarrow> ret (slot_value (v_heap s) x)
          | None \<Rightarrow> undefined_variable name)))))"

definition set_local :: "pystr \<Rightarrow> slot \<Rightarrow> unit run" where
  "set_local name x = update_top (\<lambda>f. f\<lparr>fr_locals := dict_set (=) name x (fr_locals f)\<rparr>)"

definition set_global :: "pystr \<Rightarrow> slot \<Rightarrow> unit run" where
  "set_global name x = reading (\<lambda>s. (let a = cx_module_globals (v_ctx s)
     in set_obj a (Names (dict_set (=) name x (names_at (v_heap s) a)))))"

text \<open>\<^verbatim>\<open>binding_namespace\<close>: which of the two writable namespaces binds the name.\<close>

datatype namespace = InLocals slot | InGlobals slot

definition binding_namespace :: "pystr \<Rightarrow> vm \<Rightarrow> namespace option" where
  "binding_namespace name s = (case local_slot name s of
      Some x \<Rightarrow> Some (InLocals x)
    | None \<Rightarrow> map_option InGlobals (dict_get (=) name (names_at (v_heap s) (cx_module_globals (v_ctx s)))))"

definition store_name :: "pystr \<Rightarrow> val \<Rightarrow> unit run" where
  "store_name name v = reading (\<lambda>s. (case binding_namespace name s of
      Some (InLocals (Boxed a)) \<Rightarrow> set_obj a (Cell v)
    | Some (InLocals (Plain _)) \<Rightarrow> set_local name (Plain v)
    | Some (InGlobals (Boxed a)) \<Rightarrow> set_obj a (Cell v)
    | Some (InGlobals (Plain _)) \<Rightarrow> set_global name (Plain v)
    | None \<Rightarrow> (if current_locals s = None then set_global name (Plain v) else set_local name (Plain v))))"

definition closure_cells :: "heap \<Rightarrow> nat \<Rightarrow> nat list" where
  "closure_cells h a = (case get_obj h a of Closure _ cells \<Rightarrow> cells | _ \<Rightarrow> [])"

text \<open>The cell of an upvalue of the running closure; \<open>oper\<close> is the instruction in the error text.\<close>

definition upvalue_cell :: "string \<Rightarrow> nat option \<Rightarrow> nat run" where
  "upvalue_cell oper index = reading (\<lambda>s. (case v_frames s of
      [] \<Rightarrow> runtime_error ''runtime'' (py oper @ py '' used without a call frame'')
    | f # _ \<Rightarrow> (case (fr_closure f, index) of
        (Some c, Some i) \<Rightarrow> (if i < length (closure_cells (v_heap s) c)
            then ret (closure_cells (v_heap s) c ! i)
            else runtime_error ''runtime'' (py ''Invalid upvalue access''))
      | _ \<Rightarrow> runtime_error ''runtime'' (py ''Invalid upvalue access''))))"

definition load_upvalue :: "nat option \<Rightarrow> val run" where
  "load_upvalue index = bindR (upvalue_cell ''LOAD_UPVALUE'' index) (\<lambda>a. gets (\<lambda>s. cell_value (v_heap s) a))"

definition store_upvalue :: "nat option \<Rightarrow> val \<Rightarrow> unit run" where
  "store_upvalue index v = bindR (upvalue_cell ''STORE_UPVALUE'' index) (\<lambda>a. set_obj a (Cell v))"

definition index_text :: pystr where "index_text = py ''list index out of range''"

definition assign_text :: pystr where "assign_text = py ''list assignment index out of range''"

text \<open>\<^verbatim>\<open>capture_local\<close> on the top frame: box the variable in a cell, once.\<close>

definition capture_local :: "frame \<Rightarrow> pystr \<Rightarrow> nat run" where
  "capture_local f name = reading (\<lambda>s. (case (fr_array f, fr_slots f name) of
        (Some arr, Some i) \<Rightarrow>
          (if i < length arr then
             (case arr ! i of
                Boxed a \<Rightarrow> ret a
              | Plain v \<Rightarrow> bindR (alloc (Cell v)) (\<lambda>a.
                  thenR (update_top (\<lambda>f. f\<lparr>fr_array := Some (arr[i := Boxed a]),
                      fr_locals := dict_set (=) name (Boxed a) (fr_locals f)\<rparr>)) (ret a)))
           else raise (PyError index_text))
      | _ \<Rightarrow>
          (case dict_get (=) name (fr_locals f) of
             Some (Boxed a) \<Rightarrow> ret a
           | Some (Plain v) \<Rightarrow> bindR (alloc (Cell v)) (\<lambda>a. thenR (set_local name (Boxed a)) (ret a))
           | None \<Rightarrow> bindR (alloc (Cell VNil)) (\<lambda>a. thenR (set_local name (Boxed a)) (ret a)))))"

section \<open>Exceptions\<close>

definition restore_ctx :: "frame \<Rightarrow> vm \<Rightarrow> vm" where
  "restore_ctx f s = (case fr_ctx f of None \<Rightarrow> s | Some c \<Rightarrow> s\<lparr>v_ctx := c\<rparr>)"

text \<open>Popping the frames above a depth restores the module context of each of them.\<close>

fun pop_frames :: "nat \<Rightarrow> frame list \<Rightarrow> vm \<Rightarrow> vm" where
  "pop_frames d [] s = s\<lparr>v_frames := []\<rparr>"
| "pop_frames d (f # fs) s =
     (if d < length (f # fs) then pop_frames d fs (restore_ctx f s) else s\<lparr>v_frames := f # fs\<rparr>)"

definition drop_handlers :: "vm \<Rightarrow> vm" where
  "drop_handlers s = s\<lparr>v_handlers := dropWhile (\<lambda>h. length (v_frames s) < h_frames h) (v_handlers s)\<rparr>"

definition unwind_to :: "nat \<Rightarrow> nat \<Rightarrow> vm \<Rightarrow> vm" where
  "unwind_to frame_depth stack_depth s =
     (let t = drop_handlers (pop_frames frame_depth (v_frames s) s)
      in t\<lparr>v_stack := drop (length (v_stack t) - stack_depth) (v_stack t)\<rparr>)"

definition discard_stale_deferrals :: "vm \<Rightarrow> vm" where
  "discard_stale_deferrals s =
     (let depth = length (v_handlers s);
          t = (if v_deferred_error s \<noteq> None \<and> depth < v_deferred_error_depth s
               then s\<lparr>v_deferred_error := None\<rparr> else s)
      in if v_deferred_return t \<noteq> None \<and> depth < v_deferred_return_depth t
         then t\<lparr>v_deferred_return := None\<rparr> else t)"

text \<open>The handler that takes an exception, and the handlers below it. A cancellation passes by the
  scopes without a finally block.\<close>

fun next_handler :: "bool \<Rightarrow> handler list \<Rightarrow> (handler \<times> handler list) option" where
  "next_handler cancelling [] = None"
| "next_handler cancelling (h # hs) =
     (if cancelling \<and> h_target h \<noteq> Gate \<and> h_finally h = Some 0 then next_handler cancelling hs
      else Some (h, hs))"

definition opt_val :: "('a \<Rightarrow> val) \<Rightarrow> 'a option \<Rightarrow> val" where
  "opt_val f x = (case x of None \<Rightarrow> VNil | Some y \<Rightarrow> f y)"

definition error_fields :: "lang_err \<Rightarrow> nat \<Rightarrow> (pystr \<times> val) list" where
  "error_fields err stack =
     [(py ''kind'', VStr (e_kind err)), (py ''message'', VStr (e_message err)),
      (py ''path'', opt_val VStr (e_path err)),
      (py ''line'', opt_val (\<lambda>p. VInt (int (fst p))) (e_pos err)),
      (py ''column'', opt_val (\<lambda>p. VInt (int (snd p))) (e_pos err)),
      (py ''stack'', VRef stack), (py ''origin'', VStr (e_origin err)), (py ''payload'', e_payload err)]"

definition enter_finally :: "lang_err \<Rightarrow> handler \<Rightarrow> vm \<Rightarrow> vm" where
  "enter_finally err h s =
     (let t = unwind_to (h_frames h) (h_stack h) s
      in t\<lparr>v_deferred_error := Some err, v_deferred_error_depth := length (v_handlers t), v_ip := h_finally h\<rparr>)"

definition enter_catch :: "lang_err \<Rightarrow> handler \<Rightarrow> nat option \<Rightarrow> vm \<Rightarrow> vm" where
  "enter_catch err h handler_ip s =
     (let t = discard_stale_deferrals (unwind_to (h_frames h) (h_stack h) s);
          a = length (v_heap t);
          stack' = VRef (a + 1) # v_stack t;
          u = t\<lparr>v_heap := v_heap t @ [OList (map VStr (e_stack err)), Record (py ''error'') (error_fields err a)],
                v_stack := stack', v_ip := handler_ip\<rparr>
      in if h_finally h = Some 0 then u
         else u\<lparr>v_handlers := \<lparr>h_target = Gate, h_finally = h_finally h, h_stack = length stack' - 1,
                  h_frames = length (v_frames u)\<rparr> # v_handlers u\<rparr>)"

definition handle_exception :: "lang_err \<Rightarrow> vm \<Rightarrow> bool \<times> vm" where
  "handle_exception err s = (case next_handler (v_cancelling s) (v_handlers s) of
      None \<Rightarrow> (False, s\<lparr>v_handlers := []\<rparr>)
    | Some (h, rest) \<Rightarrow>
        (let t = s\<lparr>v_handlers := rest\<rparr>
         in case h_target h of
              Gate \<Rightarrow> (True, enter_finally err h t)
            | At ip \<Rightarrow> (True, if v_cancelling s then enter_finally err h t else enter_catch err h ip t)))"

definition setup_try :: "nat option \<Rightarrow> nat option \<Rightarrow> unit run" where
  "setup_try handler_ip finally_ip = modify (\<lambda>s. s\<lparr>v_handlers :=
     \<lparr>h_target = At handler_ip, h_finally = finally_ip, h_stack = length (v_stack s),
      h_frames = length (v_frames s)\<rparr> # v_handlers s\<rparr>)"

definition pop_try :: "nat option run" where
  "pop_try s = (case v_handlers s of
      [] \<Rightarrow> runtime_error ''runtime'' (py ''POP_TRY without handler'') s
    | h # hs \<Rightarrow> (Inr (h_finally h), s\<lparr>v_handlers := hs\<rparr>))"

end
