(* ===== verification/VM_Exec.thy ===== *)
theory VM_Exec
  imports VM_Core
begin

text \<open>
  The instruction handlers \<^verbatim>\<open>_op_*\<close> of \<^verbatim>\<open>src/nodus/vm/vm.py\<close>, calls, and the loop \<^verbatim>\<open>execute\<close>. What the
  machine is constructed with and only calls is the argument \<open>world\<close>: the table of builtins, methods
  of builtin records, the capability policy and the default string of an object. A handler that runs
  a closure to its end (the iterator protocol) takes the loop as an argument. The event bus, the
  profiler, the debugger, tracing and the limits on time and memory are left out.
\<close>

datatype yielded = YVal val | YSleep val | YChannelWait | YBudget

datatype signal = SYield yielded | SReturn val | SHalt

datatype builtin_result = BValue val | BSleep val | BSuspend

record builtin =
  b_arity :: "nat list"
  b_fn :: "val list \<Rightarrow> builtin_result run"

datatype verdict = Allow | Ask pystr | Deny pystr

text \<open>\<open>w_decide\<close> is the answer of the capability floor and policy, \<open>w_approve\<close> the approval channel.\<close>

record world =
  w_builtins :: "(pystr \<times> builtin) list"
  w_method :: "nat \<Rightarrow> val list \<Rightarrow> builtin_result run"
  w_capability :: "pystr \<Rightarrow> pystr option"
  w_decide :: "pystr option \<Rightarrow> pystr \<Rightarrow> pystr \<Rightarrow> val list \<Rightarrow> verdict option"
  w_approve :: "(pystr option \<Rightarrow> pystr \<Rightarrow> pystr \<Rightarrow> val list \<Rightarrow> pystr \<Rightarrow> bool) option"
  w_default_str :: "nat \<Rightarrow> pystr"

definition text_of :: "world \<Rightarrow> val \<Rightarrow> bool \<Rightarrow> pystr run" where
  "text_of W v quote = reading (\<lambda>s. (case value_to_string (v_recursion s) (w_default_str W) (v_heap s) v quote of
      None \<Rightarrow> raise (PyError (py ''maximum recursion depth exceeded''))
    | Some t \<Rightarrow> ret t))"

section \<open>Indexing\<close>

definition to_list_index :: "val \<Rightarrow> int run" where
  "to_list_index v = (case v of
      VInt i \<Rightarrow> ret i
    | VFloat f \<Rightarrow> (if float_is_integer f then ret (the (int_of_float f))
                   else runtime_error ''index'' (py ''List index must be an integer''))
    | _ \<Rightarrow> runtime_error ''index'' (py ''List index must be an integer''))"

fun is_valid_map_key :: "val \<Rightarrow> bool" where
  "is_valid_map_key (VStr _) = True"
| "is_valid_map_key (VInt _) = True"
| "is_valid_map_key (VFloat _) = True"
| "is_valid_map_key _ = False"

definition in_bounds :: "string \<Rightarrow> nat \<Rightarrow> val \<Rightarrow> nat run" where
  "in_bounds what n idx = bindR (to_list_index idx) (\<lambda>i.
     if i < 0 \<or> int n \<le> i then runtime_error ''index'' (py what @ py '' index out of range: '' @ str_int i)
     else ret (nat i))"

definition thrown_hint :: "heap \<Rightarrow> val \<Rightarrow> pystr" where
  "thrown_hint h v = (case record_of h v of
      Some (kind, fs) \<Rightarrow>
        (if kind = py ''error'' \<and> dict_get (=) (py ''kind'') fs = Some (VStr (py ''thrown''))
         then py ''; this is a caught thrown value '' @ [8212] @ py '' access the original via e.payload'' else [])
    | _ \<Rightarrow> [])"

definition read_index :: "world \<Rightarrow> val \<Rightarrow> val \<Rightarrow> val run" where
  "read_index W seq idx = reading (\<lambda>s. (case list_of (v_heap s) seq of
      Some xs \<Rightarrow> bindR (in_bounds ''List'' (length xs) idx) (\<lambda>i. ret (xs ! i))
    | None \<Rightarrow> (case dict_items (v_heap s) seq of
        Some d \<Rightarrow>
          (if \<not> is_valid_map_key idx then runtime_error ''type'' (py ''Map keys must be strings or numbers'')
           else case dict_get key_eq idx d of
               Some v \<Rightarrow> ret v
             | None \<Rightarrow> bindR (text_of W idx True) (\<lambda>t. runtime_error ''key'' (py ''Missing map key: '' @ t)))
      | None \<Rightarrow> (case seq of
          VStr t \<Rightarrow> bindR (in_bounds ''String'' (length t) idx) (\<lambda>i. ret (VStr [t ! i]))
        | _ \<Rightarrow> runtime_error ''type''
            (py ''Indexing is only supported on lists, maps, and strings'' @ thrown_hint (v_heap s) seq)))))"

definition write_index :: "val \<Rightarrow> val \<Rightarrow> val \<Rightarrow> val run" where
  "write_index seq idx v = reading (\<lambda>s. (case list_of (v_heap s) seq of
      Some xs \<Rightarrow> bindR (in_bounds ''List'' (length xs) idx)
        (\<lambda>i. thenR (set_obj (addr_of seq) (OList (xs[i := v]))) (ret v))
    | None \<Rightarrow> (case dict_items (v_heap s) seq of
        Some d \<Rightarrow>
          (if \<not> is_valid_map_key idx then runtime_error ''type'' (py ''Map keys must be strings or numbers'')
           else thenR (set_obj (addr_of seq) (ODict (dict_set key_eq idx v d))) (ret v))
      | None \<Rightarrow> runtime_error ''type'' (py ''Index assignment is only supported on lists and maps''))))"

section \<open>Suspension\<close>

definition save_current_coroutine_state :: "nat option \<Rightarrow> unit run" where
  "save_current_coroutine_state next_ip = modify (\<lambda>s. case v_coroutine s of
      None \<Rightarrow> s
    | Some c \<Rightarrow> s\<lparr>v_coroutine := Some (c\<lparr>co_ip := next_ip, co_stack := v_stack s, co_frames := v_frames s,
          co_handlers := v_handlers s, co_deferred_return := v_deferred_return s,
          co_deferred_return_depth := v_deferred_return_depth s, co_deferred_error := v_deferred_error s,
          co_deferred_error_depth := v_deferred_error_depth s, co_ctx := Some (v_ctx s)\<rparr>),
        v_cancelling := False\<rparr>)"

definition set_coroutine_state :: "string \<Rightarrow> unit run" where
  "set_coroutine_state st = modify (\<lambda>s. s\<lparr>v_coroutine := map_option (\<lambda>c. c\<lparr>co_state := py st\<rparr>) (v_coroutine s)\<rparr>)"

definition suspend :: "nat option \<Rightarrow> yielded \<Rightarrow> signal option run" where
  "suspend next_ip y = thenR (set_coroutine_state ''suspended'')
     (thenR (save_current_coroutine_state next_ip) (ret (Some (SYield y))))"

definition next_ip :: "vm \<Rightarrow> nat option" where
  "next_ip s = map_option Suc (v_ip s)"

section \<open>Calls\<close>

definition count_call :: "unit run" where
  "count_call = modify (\<lambda>s. s\<lparr>v_function_calls := Suc (v_function_calls s)\<rparr>)"

definition check_capability :: "world \<Rightarrow> pystr option \<Rightarrow> pystr \<Rightarrow> pystr \<Rightarrow> val list \<Rightarrow> unit run" where
  "check_capability W capability target kind args =
     (case w_decide W capability target kind args of
        None \<Rightarrow> ret ()
      | Some Allow \<Rightarrow> ret ()
      | Some (Ask reason) \<Rightarrow>
          (let why = (if reason \<noteq> [] then reason
                      else the (or_str capability (Some target)) @ py '' requires approval'')
           in case w_approve W of
                Some ask \<Rightarrow> (if ask capability target kind args reason then ret ()
                             else runtime_error ''sandbox'' (py ''Blocked: '' @ why))
              | None \<Rightarrow> runtime_error ''sandbox''
                  (py ''Blocked: '' @ why @ py '' (no approval channel configured)''))
      | Some (Deny reason) \<Rightarrow> runtime_error ''sandbox'' (py ''Blocked: '' @
          (if reason \<noteq> [] then reason else the (or_str capability (Some target)) @ py '' is not granted'')))"

definition augment_stdlib_err :: "(pystr \<times> val) list \<Rightarrow> val run" where
  "augment_stdlib_err fs = reading (\<lambda>s. (let here = current_loc s;
          (path0, pos) = (if is_stdlib_path (fst here)
                          then (case promoted_site s (v_frames s) of None \<Rightarrow> here | Some l \<Rightarrow> l) else here);
          path = or_str path0 (or_str (cx_source_path (v_ctx s)) (Some (py ''<repl>'')));
          stack = build_error_stack (path, pos) s
      in bindR (alloc (OList (map VStr stack))) (\<lambda>a.
           let f1 = dict_set (=) (py ''path'') (opt_val VStr path) fs;
               f2 = dict_set (=) (py ''line'') (opt_val (\<lambda>p. VInt (int (fst p))) pos) f1;
               f3 = dict_set (=) (py ''column'') (opt_val (\<lambda>p. VInt (int (snd p))) pos) f2;
               f4 = dict_set (=) (py ''stack'') (VRef a) f3;
               f5 = dict_set (=) (py ''origin'') (VStr (py ''stdlib'')) f4;
               f6 = (if dict_get (=) (py ''payload'') f5 = None then dict_set (=) (py ''payload'') VNil f5 else f5)
           in new_ref (Record (py ''error'') f6))))"

text \<open>What becomes of the result of a builtin or of a builtin method.\<close>

definition finish_builtin :: "builtin_result \<Rightarrow> signal option run" where
  "finish_builtin r = (case r of
      BSleep ms \<Rightarrow> thenR (push VNil) (reading (\<lambda>s.
        if v_coroutine s = None then
          runtime_error ''runtime'' (py ''sleep(ms) outside coroutine '' @ [8212] @
            py '' wrap your code in spawn(coroutine(fn() { ... })) and call run_loop()'')
        else suspend (next_ip s) (YSleep ms)))
    | BSuspend \<Rightarrow> ret (Some (SYield YChannelWait))
    | BValue v \<Rightarrow> reading (\<lambda>s. case record_of (v_heap s) v of
        Some (kind, fs) \<Rightarrow>
          (if kind = py ''error'' then bindR (augment_stdlib_err fs) (\<lambda>w. thenR (push w) (ret None))
           else thenR (push v) (ret None))
      | None \<Rightarrow> thenR (push v) (ret None)))"

definition arity_error :: "pystr \<Rightarrow> pystr \<Rightarrow> nat \<Rightarrow> 'a run" where
  "arity_error name expected n =
     runtime_error ''call'' (name @ py '' expected '' @ expected @ py '' args, got '' @ str_nat n)"

definition call_builtin :: "world \<Rightarrow> pystr \<Rightarrow> builtin \<Rightarrow> nat \<Rightarrow> signal option run" where
  "call_builtin W name b n =
     (if n \<notin> set (b_arity b) then arity_error name (join_str (py '', '') (map str_nat (b_arity b))) n
      else bindR (pop_args n) (\<lambda>args.
        thenR (case w_capability W name of
                 None \<Rightarrow> ret ()
               | Some cap \<Rightarrow> check_capability W (Some cap) name (py ''builtin'') args)
          (bindR (b_fn b args) finish_builtin)))"

definition guard_step_entry :: "function_info \<Rightarrow> unit run" where
  "guard_step_entry fi = (case fi_step_owner fi of
      None \<Rightarrow> ret ()
    | Some owner \<Rightarrow> runtime_error ''runtime'' (py ''Workflow step '' @ [39] @ owner @ [39] @
        py '' cannot be called directly '' @ [8212] @ py '' a step body runs only as part of its workflow, '' @
        py ''in dependency order. Use run_workflow() (or run_goal()) to execute the flow.''))"

definition new_frame :: "function_info \<Rightarrow> nat option \<Rightarrow> loc \<Rightarrow> nat option \<Rightarrow> frame" where
  "new_frame fi return_ip call_loc closure =
     \<lparr>fr_return_ip = return_ip, fr_locals = [], fr_fn_name = fi_name fi, fr_call_pos = snd call_loc,
      fr_call_path = fst call_loc, fr_closure = closure, fr_array = None, fr_slots = fi_local_slots fi,
      fr_ctx = None\<rparr>"

definition push_frame :: "frame \<Rightarrow> nat \<Rightarrow> unit run" where
  "push_frame f addr = reading (\<lambda>s. (case v_max_frames s of
        Some m \<Rightarrow> (if m < length (v_frames s) + 1 then runtime_error ''sandbox'' (py ''Call stack overflow'')
                   else modify (\<lambda>s. s\<lparr>v_frames := f # v_frames s, v_ip := Some addr\<rparr>))
      | None \<Rightarrow> modify (\<lambda>s. s\<lparr>v_frames := f # v_frames s, v_ip := Some addr\<rparr>)))"

definition call_closure :: "world \<Rightarrow> val \<Rightarrow> nat \<Rightarrow> unit run" where
  "call_closure W callee n = reading (\<lambda>s. (case closure_of (v_heap s) callee of
      Some fi \<Rightarrow>
        (if n \<noteq> length (fi_params fi)
         then arity_error (display_name (fi_name fi)) (str_nat (length (fi_params fi))) n
         else thenR (guard_step_entry fi)
           (push_frame (new_frame fi (next_ip s) (current_loc s) (Some (addr_of callee))) (fi_addr fi)))
    | None \<Rightarrow> bindR (text_of W callee True)
        (\<lambda>t. runtime_error ''call'' (py ''Cannot call non-function: '' @ t))))"

definition restore_execution_context :: "vm \<Rightarrow> vm \<Rightarrow> vm" where
  "restore_execution_context s t = t\<lparr>v_ip := v_ip s, v_stack := v_stack s, v_frames := v_frames s,
     v_handlers := v_handlers s, v_coroutine := v_coroutine s, v_deferred_return := v_deferred_return s,
     v_deferred_return_depth := v_deferred_return_depth s, v_deferred_error := v_deferred_error s,
     v_deferred_error_depth := v_deferred_error_depth s\<rparr>"

definition running_coroutine :: coroutine where
  "running_coroutine = \<lparr>co_state = py ''running'', co_ip = None, co_stack = [], co_frames = [],
     co_handlers = [], co_deferred_return = None, co_deferred_return_depth = 0,
     co_deferred_error = None, co_deferred_error_depth = 0, co_ctx = None\<rparr>"

text \<open>\<^verbatim>\<open>run_closure\<close>: run a closure to its end in the loop \<open>ex\<close>, and put the execution context back
  whether it returns or raises.\<close>

definition run_closure :: "signal run \<Rightarrow> val \<Rightarrow> val list \<Rightarrow> val run" where
  "run_closure ex closure args s = (case closure_of (v_heap s) closure of
      Some fi \<Rightarrow> thenR (guard_step_entry fi) (\<lambda>s.
        let t = s\<lparr>v_stack := rev args, v_frames := [new_frame fi None (None, None) (Some (addr_of closure))],
              v_handlers := [], v_deferred_return := None, v_deferred_return_depth := 0,
              v_deferred_error := None, v_deferred_error_depth := 0,
              v_coroutine := Some running_coroutine, v_ip := Some (fi_addr fi)\<rparr>;
            (r, u) = bindR ex (\<lambda>sig. case sig of
                SYield y \<Rightarrow> runtime_error ''runtime'' (py ''Task yielded during graph execution'')
              | SReturn v \<Rightarrow> ret v
              | SHalt \<Rightarrow> ret VNil) t
        in (r, restore_execution_context s u)) s
    | None \<Rightarrow> runtime_error ''call'' (py ''Task expects a function'') s)"


section \<open>Locals\<close>

definition top_frame :: "frame run" where
  "top_frame s = (case v_frames s of [] \<Rightarrow> raise (PyError index_text) s | f # _ \<Rightarrow> ret f s)"

definition op_frame_size :: "nat \<Rightarrow> unit run" where
  "op_frame_size n = bindR top_frame (\<lambda>_.
     thenR (update_top (\<lambda>f. f\<lparr>fr_array := Some (replicate n (Plain VNil))\<rparr>)) advance)"

text \<open>An element of \<^verbatim>\<open>frame.locals_array\<close>, which is \<^verbatim>\<open>None\<close> before \<^verbatim>\<open>FRAME_SIZE\<close>.\<close>

definition array_slot :: "nat \<Rightarrow> (slot list \<times> slot) run" where
  "array_slot i = bindR top_frame (\<lambda>f. case fr_array f of
      None \<Rightarrow> raise (PyError ([39] @ py ''NoneType'' @ [39] @ py '' object is not subscriptable''))
    | Some arr \<Rightarrow> (if i < length arr then ret (arr, arr ! i) else raise (PyError index_text)))"

definition op_load_local_idx :: "nat \<Rightarrow> unit run" where
  "op_load_local_idx i = bindR (array_slot i) (\<lambda>(arr, x).
     bindR (gets (\<lambda>s. slot_value (v_heap s) x)) (\<lambda>v. thenR (push v) advance))"

definition op_store_local_idx :: "nat \<Rightarrow> unit run" where
  "op_store_local_idx i = bindR pop (\<lambda>v. bindR (array_slot i) (\<lambda>(arr, x).
     thenR (case x of
              Boxed a \<Rightarrow> set_obj a (Cell v)
            | Plain _ \<Rightarrow> update_top (\<lambda>f. f\<lparr>fr_array := Some (arr[i := Plain v])\<rparr>)) advance))"

definition op_reset_local_idx :: "nat \<Rightarrow> unit run" where
  "op_reset_local_idx i = bindR top_frame (\<lambda>f. case fr_array f of
      None \<Rightarrow> raise (PyError ([39] @ py ''NoneType'' @ [39] @ py '' object does not support item assignment''))
    | Some arr \<Rightarrow>
        (if i < length arr
         then thenR (update_top (\<lambda>f. f\<lparr>fr_array := Some (arr[i := Plain VNil])\<rparr>)) advance
         else raise (PyError assign_text)))"

definition op_store_arg :: "pystr \<Rightarrow> unit run" where
  "op_store_arg name = bindR pop (\<lambda>v. reading (\<lambda>s. case v_frames s of
      [] \<Rightarrow> runtime_error ''runtime'' (py ''STORE_ARG used without a call frame'')
    | f # _ \<Rightarrow>
        thenR (case dict_get (=) name (fr_locals f) of
                 Some (Boxed a) \<Rightarrow> set_obj a (Cell v)
               | _ \<Rightarrow> set_local name (Plain v))
          (thenR (case (fr_array f, fr_slots f name) of
                    (Some arr, Some i) \<Rightarrow>
                      (if i < length arr then update_top (\<lambda>f. f\<lparr>fr_array := Some (arr[i := Plain v])\<rparr>)
                       else raise (PyError assign_text))
                  | _ \<Rightarrow> ret ()) advance)))"

section \<open>Arithmetic and comparison\<close>

definition overflow_text :: pystr where
  "overflow_text = py ''int too large to convert to float''"

definition push_num :: "pynum option \<Rightarrow> unit run" where
  "push_num r = (case r of None \<Rightarrow> raise (PyError overflow_text) | Some x \<Rightarrow> push (value_of_num x))"

definition repeat_list :: "'a list \<Rightarrow> int \<Rightarrow> 'a list" where
  "repeat_list xs n = concat (replicate (nat n) xs)"

fun str_of :: "val \<Rightarrow> pystr option" where
  "str_of (VStr t) = Some t"
| "str_of _ = None"

text \<open>Python's \<^verbatim>\<open>+\<close>, \<^verbatim>\<open>-\<close>, \<^verbatim>\<open>*\<close> on the values of the machine; \<open>fail\<close> stands for a \<^verbatim>\<open>TypeError\<close>.\<close>

definition add_values :: "val \<Rightarrow> val \<Rightarrow> unit run \<Rightarrow> unit run" where
  "add_values a b fail = reading (\<lambda>s. (case (num_value a, num_value b) of
      (Some x, Some y) \<Rightarrow> push_num (arith (+) float_add x y)
    | _ \<Rightarrow> (case (str_of a, str_of b) of
        (Some t, Some u) \<Rightarrow> push (VStr (t @ u))
      | _ \<Rightarrow> (case (list_of (v_heap s) a, list_of (v_heap s) b) of
          (Some xs, Some ys) \<Rightarrow> bindR (new_ref (OList (xs @ ys))) push
        | _ \<Rightarrow> fail))))"

definition sub_values :: "val \<Rightarrow> val \<Rightarrow> unit run \<Rightarrow> unit run" where
  "sub_values a b fail = (case (num_value a, num_value b) of
      (Some x, Some y) \<Rightarrow> push_num (arith (-) float_sub x y)
    | _ \<Rightarrow> fail)"

definition repeat_value :: "val \<Rightarrow> pynum option \<Rightarrow> unit run \<Rightarrow> unit run" where
  "repeat_value a n fail = reading (\<lambda>s. (case n of
      Some (NInt i) \<Rightarrow> (case str_of a of
          Some t \<Rightarrow> push (VStr (repeat_list t i))
        | None \<Rightarrow> (case list_of (v_heap s) a of
            Some xs \<Rightarrow> bindR (new_ref (OList (repeat_list xs i))) push
          | None \<Rightarrow> fail))
    | _ \<Rightarrow> fail))"

definition mul_values :: "val \<Rightarrow> val \<Rightarrow> unit run \<Rightarrow> unit run" where
  "mul_values a b fail = (case (num_value a, num_value b) of
      (Some x, Some y) \<Rightarrow> push_num (arith (*) float_mul x y)
    | (None, y) \<Rightarrow> repeat_value a y fail
    | (Some x, None) \<Rightarrow> repeat_value b (Some x) fail)"

definition binary :: "(val \<Rightarrow> val \<Rightarrow> unit run) \<Rightarrow> unit run" where
  "binary f = bindR pop (\<lambda>b. bindR pop (\<lambda>a. thenR (f a b) advance))"

definition op_add :: "unit run" where
  "op_add = binary (\<lambda>a b. add_values a b (binary_type_error ''add'' a b))"

definition op_sub :: "unit run" where
  "op_sub = binary (\<lambda>a b. sub_values a b (binary_type_error ''subtract'' a b))"

definition op_mul :: "unit run" where
  "op_mul = binary (\<lambda>a b. mul_values a b (binary_type_error ''multiply'' a b))"

text \<open>\<^verbatim>\<open>float(v)\<close> of a number.\<close>

definition to_float :: "val \<Rightarrow> pyfloat run" where
  "to_float v = (case float_value v of Inl e \<Rightarrow> raise (PyError e) | Inr f \<Rightarrow> ret f)"

definition divide_with :: "string \<Rightarrow> string \<Rightarrow> (int \<Rightarrow> int \<Rightarrow> int) \<Rightarrow> (pyfloat \<Rightarrow> pyfloat \<Rightarrow> pyfloat) \<Rightarrow>
    val \<Rightarrow> val \<Rightarrow> unit run" where
  "divide_with verb noun fi ff a b = (case (a, b) of
      (VInt i, VInt j) \<Rightarrow>
        (if j = 0 then runtime_error ''math'' (py ''Integer '' @ py noun @ py '' by zero'') else push (VInt (fi i j)))
    | _ \<Rightarrow>
        (if num_value a = None \<or> num_value b = None then binary_type_error verb a b
         else bindR (to_float b) (\<lambda>fb.
           if float_is_zero fb then runtime_error ''math'' (py ''Float '' @ py noun @ py '' by zero'')
           else bindR (to_float a) (\<lambda>fa. push (VFloat (ff fa fb))))))"

definition op_div :: "unit run" where
  "op_div = binary (divide_with ''divide'' ''division'' (div) float_div)"

definition op_mod :: "unit run" where
  "op_mod = binary (divide_with ''modulo'' ''modulo'' (mod) float_mod)"

definition equal_values :: "(bool \<Rightarrow> bool) \<Rightarrow> val \<Rightarrow> val \<Rightarrow> unit run" where
  "equal_values f a b = reading (\<lambda>s. (case nodus_eq (v_recursion s) (v_heap s) a b of
      Inl e \<Rightarrow> raise (PyError e) | Inr r \<Rightarrow> push (VBool (f r))))"

definition op_eq :: "unit run" where
  "op_eq = binary (equal_values id)"

definition op_ne :: "unit run" where
  "op_ne = binary (equal_values Not)"

definition op_compare :: "(int \<Rightarrow> bool) \<Rightarrow> unit run" where
  "op_compare test = binary (\<lambda>a b. reading (\<lambda>s.
     case py_order_values (v_recursion s) (v_heap s) test a b of
       CmpIs r \<Rightarrow> push (VBool r)
     | CmpTypeError \<Rightarrow> compare_type_error a b
     | CmpError e \<Rightarrow> raise (PyError e)))"

definition unary :: "(val \<Rightarrow> unit run) \<Rightarrow> unit run" where
  "unary f = bindR pop (\<lambda>a. thenR (f a) advance)"

definition op_to_bool :: "unit run" where
  "op_to_bool = unary (\<lambda>a. reading (\<lambda>s. push (VBool (is_truthy (v_heap s) a))))"

definition op_not :: "unit run" where
  "op_not = unary (\<lambda>a. reading (\<lambda>s. push (VBool (\<not> is_truthy (v_heap s) a))))"

definition op_neg :: "unit run" where
  "op_neg = unary (\<lambda>a. case num_value a of
      Some (NInt i) \<Rightarrow> push (VInt (- i))
    | Some (NFloat f) \<Rightarrow> push (VFloat (float_neg f))
    | None \<Rightarrow> unary_type_error ''negate'' a)"

section \<open>Jumps and iteration\<close>

definition op_jump_if :: "bool \<Rightarrow> nat option \<Rightarrow> unit run" where
  "op_jump_if sense target = bindR pop (\<lambda>c. bindR (gets (\<lambda>s. is_truthy (v_heap s) c)) (\<lambda>b.
     if b = sense then jump_to target else advance))"

definition push_iterator :: "iter_source \<Rightarrow> unit run" where
  "push_iterator src = thenR (bindR (new_ref (Iterator src False)) push) advance"

definition not_iterable :: "val \<Rightarrow> unit run" where
  "not_iterable v = reading (\<lambda>s. (case dict_items (v_heap s) v of
      Some _ \<Rightarrow> runtime_error ''type'' (py ''maps are not directly iterable; use '' @ [39] @
        py ''for k in keys(m)'' @ [39] @ py '' to iterate keys or '' @ [39] @ py ''for v in values(m)'' @ [39] @
        py '' for values'')
    | None \<Rightarrow> runtime_error ''type'' (py ''Value is not iterable'')))"

text \<open>The iterator of a record: one that has \<^verbatim>\<open>__next__\<close>.\<close>

definition next_of :: "heap \<Rightarrow> val \<Rightarrow> val option" where
  "next_of h v = (case record_of h v of
      Some (kind, fs) \<Rightarrow> dict_get (=) (py ''__next__'') fs | None \<Rightarrow> None)"

definition iterator_from :: "val \<Rightarrow> unit run" where
  "iterator_from r = reading (\<lambda>s. (if list_of (v_heap s) r \<noteq> None then push_iterator (ListIterator (addr_of r) 0)
      else if next_of (v_heap s) r \<noteq> None then push_iterator (RecordIterator (addr_of r))
      else runtime_error ''type'' (py ''__iter__ must return a list or a record with __next__'')))"

definition op_get_iter :: "signal run \<Rightarrow> unit run" where
  "op_get_iter ex = bindR pop (\<lambda>v. reading (\<lambda>s.
     if list_of (v_heap s) v \<noteq> None then push_iterator (ListIterator (addr_of v) 0)
     else case record_of (v_heap s) v of
         Some (kind, fs) \<Rightarrow> (case dict_get (=) (py ''__iter__'') fs of
             Some fn \<Rightarrow> bindR (run_closure ex fn [v]) iterator_from
           | None \<Rightarrow> (if next_of (v_heap s) v \<noteq> None then push_iterator (RecordIterator (addr_of v))
                      else not_iterable v))
       | None \<Rightarrow> not_iterable v))"

text \<open>\<^verbatim>\<open>Iterator.advance\<close>: the next item, or \<open>None\<close> once exhausted and from then on.\<close>

definition advance_iterator :: "signal run \<Rightarrow> nat \<Rightarrow> iter_source \<Rightarrow> bool \<Rightarrow> val option run" where
  "advance_iterator ex it src exhausted = reading (\<lambda>s. (if exhausted then ret None
      else case src of
          ListIterator a i \<Rightarrow>
            (case list_of (v_heap s) (VRef a) of
               Some xs \<Rightarrow>
                 (if length xs \<le> i then thenR (set_obj it (Iterator src True)) (ret None)
                  else thenR (set_obj it (Iterator (ListIterator a (i + 1)) False)) (ret (Some (xs ! i))))
             | None \<Rightarrow> ret None)
        | RecordIterator a \<Rightarrow>
            (case next_of (v_heap s) (VRef a) of
               None \<Rightarrow> raise (PyError (quoted ''__next__''))
             | Some fn \<Rightarrow> bindR (run_closure ex fn [VRef a]) (\<lambda>r.
                 if r = VNil then thenR (set_obj it (Iterator src True)) (ret None)
                 else ret (Some r)))))"

definition op_iter_next :: "signal run \<Rightarrow> nat option \<Rightarrow> unit run" where
  "op_iter_next ex end_ip = reading (\<lambda>s. (case v_stack s of
      [] \<Rightarrow> runtime_error ''runtime'' (py ''ITER_NEXT without iterator'')
    | v # _ \<Rightarrow> (case iterator_of (v_heap s) v of
        Some (src, exhausted) \<Rightarrow>
          bindR (advance_iterator ex (addr_of v) src exhausted) (\<lambda>r. case r of
              None \<Rightarrow> thenR (modify (\<lambda>s. s\<lparr>v_stack := tl (v_stack s)\<rparr>)) (jump_to end_ip)
            | Some x \<Rightarrow> thenR (push x) advance)
      | None \<Rightarrow> runtime_error ''type'' (py ''Iterator is not supported''))))"

end
