(* ===== verification/VM_Loop.thy ===== *)
theory VM_Loop
  imports VM_Exec
begin

text \<open>
  The handlers for \<^verbatim>\<open>try\<close> regions, containers, calls and returns, the dispatch and the loop \<^verbatim>\<open>execute\<close>
  of \<^verbatim>\<open>src/nodus/vm/vm.py\<close>. The loop has a bound on the instructions it runs; reaching it is
  \<open>Unfinished\<close>.
\<close>

section \<open>Protected regions\<close>

definition op_setup_try :: "nat option \<Rightarrow> nat option option \<Rightarrow> unit run" where
  "op_setup_try handler_ip f =
     thenR (setup_try handler_ip (case f of None \<Rightarrow> Some 0 | Some x \<Rightarrow> x)) advance"

definition op_pop_try :: "unit run" where
  "op_pop_try = bindR pop_try (\<lambda>f. if f \<noteq> Some 0 then jump_to f else advance)"

text \<open>The end of a call, shared by \<^verbatim>\<open>RETURN\<close> and the deferred return of \<^verbatim>\<open>FINALLY_END\<close>: the frame is
  already popped.\<close>

definition leave_frame :: "frame \<Rightarrow> val \<Rightarrow> signal option run" where
  "leave_frame f v s =
     (let t = drop_handlers (s\<lparr>v_returns := Suc (v_returns s)\<rparr>)
      in case (v_coroutine t, fr_return_ip f) of
           (Some c, None) \<Rightarrow>
             ret (Some (SReturn v)) (t\<lparr>v_coroutine := Some (c\<lparr>co_state := py ''finished'', co_ip := None,
                co_stack := [], co_frames := [], co_handlers := []\<rparr>)\<rparr>)
         | _ \<Rightarrow> ret None (t\<lparr>v_stack := v # v_stack t, v_ip := fr_return_ip f\<rparr>))"

definition op_return :: "signal option run" where
  "op_return = bindR pop (\<lambda>v. reading (\<lambda>s. case v_frames s of
      [] \<Rightarrow> runtime_error ''runtime'' (py ''RETURN outside function'')
    | f # fs \<Rightarrow>
        (case v_handlers s of
           h # hs \<Rightarrow>
             (if h_frames h = length (v_frames s) \<and> h_finally h \<noteq> Some 0
              then thenR (modify (\<lambda>s. s\<lparr>v_handlers := hs, v_deferred_return := Some v,
                     v_deferred_return_depth := length hs, v_ip := h_finally h\<rparr>)) (ret None)
              else thenR (modify (\<lambda>s. restore_ctx f (s\<lparr>v_frames := fs\<rparr>))) (leave_frame f v))
         | [] \<Rightarrow> thenR (modify (\<lambda>s. restore_ctx f (s\<lparr>v_frames := fs\<rparr>))) (leave_frame f v))))"

definition pop_gate :: "vm \<Rightarrow> vm" where
  "pop_gate s = (case v_handlers s of
      h # hs \<Rightarrow> (if h_target h = Gate then s\<lparr>v_handlers := hs\<rparr> else s)
    | [] \<Rightarrow> s)"

definition op_finally_end :: "signal option run" where
  "op_finally_end s = (case v_deferred_error s of
      Some err \<Rightarrow>
        (case handle_exception err (s\<lparr>v_deferred_error := None\<rparr>) of
           (True, t) \<Rightarrow> ret None t
         | (False, t) \<Rightarrow> raise (Lang err) t)
    | None \<Rightarrow>
        (let s1 = pop_gate s
         in case v_deferred_return s1 of
              Some v \<Rightarrow>
                (let s2 = s1\<lparr>v_deferred_return := None\<rparr>
                 in case v_frames s2 of
                      [] \<Rightarrow> runtime_error ''runtime'' (py ''FINALLY_END deferred return outside function'') s2
                    | f # fs \<Rightarrow> leave_frame f v (s2\<lparr>v_frames := fs\<rparr>))
            | None \<Rightarrow> thenR advance (ret None) s1))"

definition op_throw :: "world \<Rightarrow> 'a run" where
  "op_throw W = bindR pop (\<lambda>v. case v of
      VStr t \<Rightarrow> raise_error (py ''thrown'') t VNil (py ''user'')
    | VNil \<Rightarrow> bindR (text_of W v False) (\<lambda>t. raise_error (py ''thrown'') t v (py ''user''))
    | VRef _ \<Rightarrow> bindR (text_of W v False) (\<lambda>t. raise_error (py ''thrown'') t v (py ''user''))
    | _ \<Rightarrow> bindR (text_of W v False) (\<lambda>t. raise_error (py ''thrown'') t VNil (py ''user'')))"

definition op_yield :: "signal option run" where
  "op_yield = bindR pop (\<lambda>v. reading (\<lambda>s.
     if v_coroutine s = None then runtime_error ''runtime'' (py ''yield outside coroutine'')
     else suspend (next_ip s) (YVal v)))"

section \<open>Containers\<close>

definition op_build_list :: "nat \<Rightarrow> unit run" where
  "op_build_list n = bindR (pop_args n) (\<lambda>xs. thenR (bindR (new_ref (OList xs)) push) advance)"

text \<open>Pop \<open>n\<close> pairs of a key and a value, the value first, checking each key as it is popped.\<close>

fun pop_pairs :: "(val \<Rightarrow> 'k option) \<Rightarrow> string \<Rightarrow> nat \<Rightarrow> ('k \<times> val) list \<Rightarrow> ('k \<times> val) list run" where
  "pop_pairs key msg 0 acc = ret acc"
| "pop_pairs key msg (Suc n) acc = bindR pop (\<lambda>v. bindR pop (\<lambda>k. case key k of
      None \<Rightarrow> runtime_error ''type'' (py msg)
    | Some x \<Rightarrow> pop_pairs key msg n ((x, v) # acc)))"

definition dict_of :: "('k \<Rightarrow> 'k \<Rightarrow> bool) \<Rightarrow> ('k \<times> val) list \<Rightarrow> ('k \<times> val) list" where
  "dict_of eq pairs = fold (\<lambda>(k, v) d. dict_set eq k v d) pairs []"

definition map_key :: "val \<Rightarrow> val option" where
  "map_key v = (if is_valid_map_key v then Some v else None)"

definition op_build_map :: "nat \<Rightarrow> unit run" where
  "op_build_map n = bindR (pop_pairs map_key ''Map keys must be strings or numbers'' n [])
     (\<lambda>ps. thenR (bindR (new_ref (ODict (dict_of key_eq ps))) push) advance)"

definition op_build_record :: "nat \<Rightarrow> unit run" where
  "op_build_record n = bindR (pop_pairs str_of ''Record keys must be strings'' n [])
     (\<lambda>ps. thenR (bindR (new_ref (Record (py ''record'') (dict_of (=) ps))) push) advance)"

definition op_build_module :: "nat \<Rightarrow> unit run" where
  "op_build_module n = bindR (pop_pairs str_of ''Module keys must be strings'' n [])
     (\<lambda>ps. thenR (bindR (new_ref (Record (py ''module'') (dict_of (=) ps))) push) advance)"

definition op_index :: "world \<Rightarrow> unit run" where
  "op_index W = bindR pop (\<lambda>idx. bindR pop (\<lambda>seq. thenR (bindR (read_index W seq idx) push) advance))"

definition op_index_set :: "unit run" where
  "op_index_set = bindR pop (\<lambda>v. bindR pop (\<lambda>idx. bindR pop (\<lambda>seq.
     thenR (bindR (write_index seq idx v) push) advance)))"

definition op_load_field :: "pystr \<Rightarrow> unit run" where
  "op_load_field name = bindR pop (\<lambda>v. reading (\<lambda>s. case record_of (v_heap s) v of
      Some (kind, fs) \<Rightarrow> (case dict_get (=) name fs of
          None \<Rightarrow> runtime_error ''key'' (py ''Missing record field: '' @ name)
        | Some x \<Rightarrow> thenR (push x) advance)
    | None \<Rightarrow> runtime_error ''type'' (py ''Field access is only supported on records'')))"

definition op_store_field :: "pystr \<Rightarrow> unit run" where
  "op_store_field name = bindR pop (\<lambda>v. bindR pop (\<lambda>r. reading (\<lambda>s. case record_of (v_heap s) r of
      Some (kind, fs) \<Rightarrow>
        thenR (set_obj (addr_of r) (Record kind (dict_set (=) name v fs))) (thenR (push v) advance)
    | None \<Rightarrow> runtime_error ''type'' (py ''Field assignment is only supported on records''))))"

section \<open>Calls\<close>

definition then_advance :: "signal option run \<Rightarrow> signal option run" where
  "then_advance m = bindR m (\<lambda>r. case r of Some x \<Rightarrow> ret (Some x) | None \<Rightarrow> thenR advance (ret None))"

definition op_call :: "world \<Rightarrow> pystr \<Rightarrow> nat \<Rightarrow> signal option run" where
  "op_call W fn_name n = thenR count_call (reading (\<lambda>s.
     if starts_with fn_name BUILTIN_CALL_PREFIX then
       (let name = drop (length BUILTIN_CALL_PREFIX) fn_name
        in case dict_get (=) name (w_builtins W) of
             Some b \<Rightarrow> then_advance (call_builtin W name b n)
           | None \<Rightarrow> runtime_error ''name'' (py ''Undefined function: '' @ name @
               py '' (required by a compiler-generated call)''))
     else case dict_get (=) fn_name (cx_functions (v_ctx s)) of
         Some fi \<Rightarrow>
           (if n \<noteq> length (fi_params fi) then arity_error fn_name (str_nat (length (fi_params fi))) n
            else if fi_upvalues fi \<noteq> []
            then runtime_error ''call'' (display_name fn_name @ py '' requires a closure'')
            else thenR (push_frame ((new_frame fi (next_ip s) (current_loc s) None)\<lparr>fr_fn_name := fn_name\<rparr>)
                   (fi_addr fi)) (ret None))
       | None \<Rightarrow> (case dict_get (=) fn_name (w_builtins W) of
           Some b \<Rightarrow> then_advance (call_builtin W fn_name b n)
         | None \<Rightarrow>
             (if local_slot fn_name s \<noteq> None \<or>
                 dict_get (=) fn_name (names_at (v_heap s) (cx_globals (v_ctx s))) \<noteq> None
              then bindR (load_name fn_name) (\<lambda>callee. thenR (call_closure W callee n) (ret None))
              else runtime_error ''name'' (py ''Undefined function: '' @ fn_name @ extern_hint fn_name s)))))"

definition op_call_value :: "world \<Rightarrow> nat \<Rightarrow> unit run" where
  "op_call_value W n = bindR (pop_args n) (\<lambda>args. bindR pop (\<lambda>callee.
     thenR count_call (thenR (push_all args) (call_closure W callee n))))"

text \<open>The cell of one captured variable: of the enclosing frame, or of the enclosing closure.\<close>

definition captured_cell :: "upvalue \<Rightarrow> nat run" where
  "captured_cell u = reading (\<lambda>s. (if up_is_local u then
        (case v_frames s of
           [] \<Rightarrow> runtime_error ''runtime'' (py ''Closure capture without frame'')
         | f # _ \<Rightarrow> capture_local f (up_name u))
      else case v_frames s of
          f # _ \<Rightarrow> (case fr_closure f of
              Some c \<Rightarrow>
                (case up_index u of
                   None \<Rightarrow> raise (PyError (py ''list indices must be integers or slices, not NoneType''))
                 | Some i \<Rightarrow>
                     (if i < length (closure_cells (v_heap s) c) then ret (closure_cells (v_heap s) c ! i)
                      else raise (PyError index_text)))
            | None \<Rightarrow> runtime_error ''runtime'' (py ''Closure capture missing outer closure''))
        | [] \<Rightarrow> runtime_error ''runtime'' (py ''Closure capture missing outer closure'')))"

fun captured_cells :: "upvalue list \<Rightarrow> nat list \<Rightarrow> nat list run" where
  "captured_cells [] acc = ret (rev acc)"
| "captured_cells (u # us) acc = bindR (captured_cell u) (\<lambda>a. captured_cells us (a # acc))"

definition op_make_closure :: "pystr \<Rightarrow> unit run" where
  "op_make_closure fn_name = reading (\<lambda>s. (case dict_get (=) fn_name (cx_functions (v_ctx s)) of
      None \<Rightarrow> runtime_error ''runtime'' (py ''Unknown function for closure: '' @ fn_name)
    | Some fi \<Rightarrow> bindR (captured_cells (fi_upvalues fi) []) (\<lambda>cells.
        thenR (bindR (new_ref (Closure fi cells)) push) advance)))"

definition op_call_method :: "world \<Rightarrow> pystr \<Rightarrow> nat \<Rightarrow> signal option run" where
  "op_call_method W name n = bindR (pop_args n) (\<lambda>args. bindR pop (\<lambda>r. reading (\<lambda>s.
     case record_of (v_heap s) r of
       Some (kind, fs) \<Rightarrow> (case dict_get (=) name fs of
           None \<Rightarrow> runtime_error ''key'' (py ''Missing record field: '' @ name)
         | Some callee \<Rightarrow> thenR count_call (case method_of (v_heap s) callee of
             Some k \<Rightarrow> then_advance (bindR (w_method W k args) finish_builtin)
           | None \<Rightarrow>
               (if kind \<noteq> py ''module''
                then thenR (push_all (r # args)) (thenR (call_closure W callee (n + 1)) (ret None))
                else thenR (push_all args) (thenR (call_closure W callee n) (ret None)))))
     | None \<Rightarrow> runtime_error ''type'' (py ''Method calls are only supported on records''))))"

section \<open>Dispatch\<close>

definition no_signal :: "unit run \<Rightarrow> signal option run" where
  "no_signal m = thenR m (ret None)"

fun step :: "world \<Rightarrow> signal run \<Rightarrow> instr \<Rightarrow> signal option run" where
  "step W ex (PUSH_CONST c) = no_signal (thenR (push (const_value c)) advance)"
| "step W ex (FRAME_SIZE n) = no_signal (op_frame_size n)"
| "step W ex (LOAD name) = no_signal (thenR (bindR (load_name name) push) advance)"
| "step W ex (LOAD_LOCAL_IDX i) = no_signal (op_load_local_idx i)"
| "step W ex (LOAD_UPVALUE i) = no_signal (thenR (bindR (load_upvalue i) push) advance)"
| "step W ex (STORE name) = no_signal (thenR (bindR pop (store_name name)) advance)"
| "step W ex (STORE_LOCAL_IDX i) = no_signal (op_store_local_idx i)"
| "step W ex (RESET_LOCAL_IDX i) = no_signal (op_reset_local_idx i)"
| "step W ex (STORE_UPVALUE i) = no_signal (thenR (bindR pop (store_upvalue i)) advance)"
| "step W ex (STORE_ARG name) = no_signal (op_store_arg name)"
| "step W ex POP = no_signal (thenR pop advance)"
| "step W ex ADD = no_signal op_add"
| "step W ex SUB = no_signal op_sub"
| "step W ex MUL = no_signal op_mul"
| "step W ex DIV = no_signal op_div"
| "step W ex MOD = no_signal op_mod"
| "step W ex EQ = no_signal op_eq"
| "step W ex NE = no_signal op_ne"
| "step W ex LT = no_signal (op_compare (\<lambda>c. c < 0))"
| "step W ex GT = no_signal (op_compare (\<lambda>c. c > 0))"
| "step W ex LE = no_signal (op_compare (\<lambda>c. c \<le> 0))"
| "step W ex GE = no_signal (op_compare (\<lambda>c. c \<ge> 0))"
| "step W ex (JUMP t) = no_signal (jump_to t)"
| "step W ex (JUMP_IF_FALSE t) = no_signal (op_jump_if False t)"
| "step W ex (JUMP_IF_TRUE t) = no_signal (op_jump_if True t)"
| "step W ex GET_ITER = no_signal (op_get_iter ex)"
| "step W ex (ITER_NEXT t) = no_signal (op_iter_next ex t)"
| "step W ex (SETUP_TRY h f) = no_signal (op_setup_try h f)"
| "step W ex POP_TRY = no_signal op_pop_try"
| "step W ex FINALLY_END = op_finally_end"
| "step W ex TO_BOOL = no_signal op_to_bool"
| "step W ex instr.NOT = no_signal op_not"
| "step W ex NEG = no_signal op_neg"
| "step W ex (BUILD_LIST n) = no_signal (op_build_list n)"
| "step W ex (BUILD_MAP n) = no_signal (op_build_map n)"
| "step W ex (BUILD_RECORD n) = no_signal (op_build_record n)"
| "step W ex (BUILD_MODULE n) = no_signal (op_build_module n)"
| "step W ex INDEX = no_signal (op_index W)"
| "step W ex INDEX_SET = no_signal op_index_set"
| "step W ex (LOAD_FIELD name) = no_signal (op_load_field name)"
| "step W ex (STORE_FIELD name) = no_signal (op_store_field name)"
| "step W ex (CALL name n) = op_call W name n"
| "step W ex (CALL_VALUE n) = no_signal (op_call_value W n)"
| "step W ex (MAKE_CLOSURE name) = no_signal (op_make_closure name)"
| "step W ex (CALL_METHOD name n) = op_call_method W name n"
| "step W ex THROW = op_throw W"
| "step W ex YIELD = op_yield"
| "step W ex RETURN = op_return"
| "step W ex HALT = ret (Some SHalt)"

section \<open>The loop\<close>

definition limit_exceeded :: "string \<Rightarrow> lang_err" where
  "limit_exceeded msg = \<lparr>e_kind = py ''sandbox'', e_message = py msg, e_path = None, e_pos = None,
     e_stack = [], e_payload = VNil, e_origin = py ''vm''\<rparr>"

definition record_instruction :: "unit run" where
  "record_instruction = thenR (modify (\<lambda>s.
     let t = s\<lparr>v_instructions := Suc (v_instructions s)\<rparr>
     in case v_task_step_budget t of
          None \<Rightarrow> t
        | Some b \<Rightarrow> t\<lparr>v_task_step_budget := Some (b - 1),
            v_budget_exceeded := (v_budget_exceeded t \<or> b - 1 \<le> 0)\<rparr>))
     (\<lambda>s. case v_max_steps s of
            Some m \<Rightarrow> (if m < v_instructions s
                       then raise (Lang (limit_exceeded ''Execution step limit exceeded'')) s else ret () s)
          | None \<Rightarrow> ret () s)"

text \<open>The exception handlers of the loop: what becomes of an error, and whether the loop goes on.\<close>

definition deliver :: "exn \<Rightarrow> vm \<Rightarrow> (exn + unit) \<times> vm" where
  "deliver e s = (case e of
      Lang err \<Rightarrow> (case handle_exception err (s\<lparr>v_exceptions := Suc (v_exceptions s)\<rparr>) of
          (True, t) \<Rightarrow> (Inr (), t) | (False, t) \<Rightarrow> (Inl (Lang err), t))
    | PyError msg \<Rightarrow>
        (let t = s\<lparr>v_exceptions := Suc (v_exceptions s)\<rparr>;
             err = build_runtime_error (py ''runtime'') msg VNil (py ''vm'') t
         in case handle_exception err t of
              (True, u) \<Rightarrow> (Inr (), u) | (False, u) \<Rightarrow> (Inl (Lang err), u))
    | _ \<Rightarrow> (Inl e, s))"

definition suspend_on_budget :: "signal run" where
  "suspend_on_budget s =
     (let t = s\<lparr>v_budget_exceeded := False, v_task_step_budget := None\<rparr>
      in thenR (if v_coroutine t = None then ret ()
                else thenR (set_coroutine_state ''suspended'') (save_current_coroutine_state (v_ip t)))
           (ret (SYield YBudget)) t)"

definition type_text :: pystr where
  "type_text = [39] @ py ''<'' @ [39] @ py '' not supported between instances of '' @ quoted ''NoneType'' @
     py '' and '' @ quoted ''int''"

fun execute :: "nat \<Rightarrow> world \<Rightarrow> signal run" where
  "execute 0 W s = raise Unfinished s"
| "execute (Suc n) W s = (case v_ip s of
      None \<Rightarrow> raise (PyError type_text) s
    | Some ip \<Rightarrow>
        (if \<not> ip < length (cx_code (v_ctx s)) then ret SHalt s
         else if v_budget_exceeded s then suspend_on_budget s
         else case record_instruction s of
             (Inl e, t) \<Rightarrow> (Inl e, t)
           | (Inr _, t) \<Rightarrow>
               (case step W (execute n W) (cx_code (v_ctx s) ! ip) t of
                  (Inr None, u) \<Rightarrow> execute n W u
                | (Inr (Some sig), u) \<Rightarrow> (Inr sig, u)
                | (Inl e, u) \<Rightarrow> (case deliver e u of
                      (Inr _, v) \<Rightarrow> execute n W v
                    | (Inl e', v) \<Rightarrow> (Inl e', v)))))"

section \<open>Construction\<close>

definition MAX_STACK_DEPTH :: nat where
  "MAX_STACK_DEPTH = 10000"

text \<open>A machine as \<^verbatim>\<open>VM(code, functions, code_locs, source_path=...)\<close> makes it, with empty namespaces at
  the first addresses of its heap, in a Python with the given limit on recursion.\<close>

definition new_vm :: "nat \<Rightarrow> instr list \<Rightarrow> (pystr \<times> function_info) list \<Rightarrow> loc list \<Rightarrow> pystr option \<Rightarrow> vm" where
  "new_vm recursion cs fns locs path =
     \<lparr>v_ctx = \<lparr>cx_code = cs, cx_functions = fns, cx_module_globals = 0, cx_globals = 0,
        cx_code_locs = (if locs = [] then replicate (length cs) (None, None) else locs), cx_source_path = path,
        cx_host_globals = 1, cx_version = BYTECODE_VERSION\<rparr>,
      v_ip = Some 0, v_stack = [], v_frames = [], v_handlers = [], v_deferred_return = None,
      v_deferred_return_depth = 0, v_deferred_error = None, v_deferred_error_depth = 0, v_cancelling = False,
      v_coroutine = None, v_heap = [Names [], Names []], v_max_frames = Some MAX_STACK_DEPTH, v_max_steps = None,
      v_instructions = 0, v_task_step_budget = None, v_budget_exceeded = False, v_function_calls = 0,
      v_returns = 0, v_exceptions = 0, v_bare_import_hints = [], v_externs = [], v_recursion = recursion\<rparr>"

end
