(* ===== verification/VM_Rules.thy ===== *)
theory VM_Rules
  imports VM_Loop
begin

text \<open>
  Predicates on the state of the machine that every instruction keeps. The locale \<open>kept\<close> lists what
  the machine does to its state; a predicate that survives each of these changes survives every
  handler and the whole loop, whatever code runs, if the builtins keep it too. Two instances follow:
  the handlers are nested in the frames, and the limits of a run only come closer.
\<close>

named_theorems keep_intro \<open>operations that keep the predicate\<close>

fun settles :: "(vm \<Rightarrow> bool) \<Rightarrow> (exn \<Rightarrow> bool) \<Rightarrow> (exn + 'a) \<times> vm \<Rightarrow> bool" where
  "settles P E (Inl e, s) \<longleftrightarrow> E e \<and> P s"
| "settles P E (Inr x, s) \<longleftrightarrow> P s"

definition builtins_keep :: "(vm \<Rightarrow> bool) \<Rightarrow> (exn \<Rightarrow> bool) \<Rightarrow> world \<Rightarrow> bool" where
  "builtins_keep P E W \<longleftrightarrow>
     (\<forall>(name, b) \<in> set (w_builtins W). \<forall>args s. P s \<longrightarrow> settles P E (b_fn b args s)) \<and>
     (\<forall>k args s. P s \<longrightarrow> settles P E (w_method W k args s))"

lemma settles_snd: "settles P E r \<Longrightarrow> P (snd r)"
  by (cases "(P, E, r)" rule: settles.cases) auto

lemma dict_get_mem: "dict_get (=) k d = Some v \<Longrightarrow> (k, v) \<in> set d"
  by (induction d) (auto split: if_splits)

lemma frames_same: "v_frames s = fs \<Longrightarrow> s\<lparr>v_frames := fs\<rparr> = s"
  by (cases s) simp

locale kept =
  fixes P :: "vm \<Rightarrow> bool" and E :: "exn \<Rightarrow> bool"
  assumes e_lang: "E (Lang err)"
    and e_py: "E (PyError msg)"
    and p_stack: "P s \<Longrightarrow> P (s\<lparr>v_stack := vs\<rparr>)"
    and p_ip: "P s \<Longrightarrow> P (s\<lparr>v_ip := i\<rparr>)"
    and p_heap: "P s \<Longrightarrow> P (s\<lparr>v_heap := hp\<rparr>)"
    and p_ctx: "P s \<Longrightarrow> P (s\<lparr>v_ctx := c\<rparr>)"
    and p_coroutine: "P s \<Longrightarrow> P (s\<lparr>v_coroutine := co\<rparr>)"
    and p_cancelling: "P s \<Longrightarrow> P (s\<lparr>v_cancelling := b\<rparr>)"
    and p_deferred: "P s \<Longrightarrow> P (s\<lparr>v_deferred_return := r\<rparr>)" "P s \<Longrightarrow> P (s\<lparr>v_deferred_return_depth := n\<rparr>)"
      "P s \<Longrightarrow> P (s\<lparr>v_deferred_error := e\<rparr>)" "P s \<Longrightarrow> P (s\<lparr>v_deferred_error_depth := n\<rparr>)"
    and p_counters: "P s \<Longrightarrow> P (s\<lparr>v_function_calls := n\<rparr>)" "P s \<Longrightarrow> P (s\<lparr>v_returns := n\<rparr>)"
      "P s \<Longrightarrow> P (s\<lparr>v_exceptions := n\<rparr>)"
    and p_budget: "P s \<Longrightarrow> P (s\<lparr>v_task_step_budget := tb\<rparr>)" "P s \<Longrightarrow> P (s\<lparr>v_budget_exceeded := b\<rparr>)"
    and p_instructions: "P s \<Longrightarrow> P (s\<lparr>v_instructions := Suc (v_instructions s)\<rparr>)"
    and p_top: "P s \<Longrightarrow> v_frames s = f # fs \<Longrightarrow> P (s\<lparr>v_frames := g # fs\<rparr>)"
    and p_push_frame: "P s \<Longrightarrow> (\<And>m. v_max_frames s = Some m \<Longrightarrow> length (v_frames s) < m) \<Longrightarrow>
      P (s\<lparr>v_frames := f # v_frames s\<rparr>)"
    and p_pop_frame: "P s \<Longrightarrow> v_frames s = f # fs \<Longrightarrow> P (drop_handlers (s\<lparr>v_frames := fs\<rparr>))"
    and p_unwind: "P s \<Longrightarrow> P (drop_handlers (s\<lparr>v_frames := drop n (v_frames s)\<rparr>))"
    and p_push_handler: "P s \<Longrightarrow> h_frames h = length (v_frames s) \<Longrightarrow> P (s\<lparr>v_handlers := h # v_handlers s\<rparr>)"
    and p_pop_handler: "P s \<Longrightarrow> P (s\<lparr>v_handlers := drop n (v_handlers s)\<rparr>)"
    and p_nested: "P s \<Longrightarrow> P (s\<lparr>v_frames := [f], v_handlers := []\<rparr>)"
    and p_restore: "P s \<Longrightarrow> P t \<Longrightarrow> P (t\<lparr>v_frames := v_frames s, v_handlers := v_handlers s\<rparr>)"
begin

subsection \<open>Sequencing\<close>

definition keeps :: "'a run \<Rightarrow> bool" where
  "keeps m \<longleftrightarrow> (\<forall>s. P s \<longrightarrow> settles P E (m s))"

lemma keepsD: "keeps m \<Longrightarrow> P s \<Longrightarrow> settles P E (m s)"
  by (simp add: keeps_def)

lemma keepsI: "(\<And>s. P s \<Longrightarrow> settles P E (m s)) \<Longrightarrow> keeps m"
  by (simp add: keeps_def)

lemma keep_bind [keep_intro]: "keeps m \<Longrightarrow> (\<And>x. keeps (f x)) \<Longrightarrow> keeps (bindR m f)"
  unfolding keeps_def bindR_def by (force split: prod.split sum.split)

lemma keep_ret [keep_intro]: "keeps (ret x)"
  by (simp add: keeps_def ret_def)

lemma keep_raise: "E e \<Longrightarrow> keeps (raise e)"
  by (simp add: keeps_def raise_def)

lemma keep_raises [keep_intro]: "keeps (raise (Lang err))" "keeps (raise (PyError msg))"
  by (simp_all add: keep_raise e_lang e_py)

lemma keep_modify [keep_intro]: "(\<And>s. P s \<Longrightarrow> P (f s)) \<Longrightarrow> keeps (modify f)"
  by (simp add: keeps_def modify_def)

lemma keep_gets [keep_intro]: "keeps (gets f)"
  by (simp add: keeps_def gets_def)

lemma keep_then [keep_intro]: "keeps m \<Longrightarrow> keeps n \<Longrightarrow> keeps (thenR m n)"
  unfolding thenR_def by (rule keep_bind)

lemma keep_reading [keep_intro]: "(\<And>s0. keeps (f s0)) \<Longrightarrow> keeps (reading f)"
  by (simp add: keeps_def reading_def)

lemma keep_option [keep_intro]: "keeps m \<Longrightarrow> (\<And>x. keeps (f x)) \<Longrightarrow> keeps (case x of None \<Rightarrow> m | Some y \<Rightarrow> f y)"
  by (cases x) auto

lemma keep_list [keep_intro]: "keeps m \<Longrightarrow> (\<And>y ys. keeps (f y ys)) \<Longrightarrow> keeps (case x of [] \<Rightarrow> m | y # ys \<Rightarrow> f y ys)"
  by (cases x) auto

lemma keep_prod [keep_intro]: "(\<And>y z. keeps (f y z)) \<Longrightarrow> keeps (case x of (y, z) \<Rightarrow> f y z)"
  by (cases x) auto

lemma keep_slot [keep_intro]: "(\<And>v. keeps (f v)) \<Longrightarrow> (\<And>a. keeps (g a)) \<Longrightarrow> keeps (case x of Plain v \<Rightarrow> f v | Boxed a \<Rightarrow> g a)"
  by (cases x) auto

lemma keep_num [keep_intro]: "(\<And>v. keeps (f v)) \<Longrightarrow> (\<And>a. keeps (g a)) \<Longrightarrow> keeps (case x of NInt v \<Rightarrow> f v | NFloat a \<Rightarrow> g a)"
  by (cases x) auto

lemma keep_sum [keep_intro]: "(\<And>v. keeps (f v)) \<Longrightarrow> (\<And>a. keeps (g a)) \<Longrightarrow> keeps (case x of Inl v \<Rightarrow> f v | Inr a \<Rightarrow> g a)"
  by (cases x) auto

lemma keep_val [keep_intro]:
  assumes "keeps a" "\<And>x. keeps (b x)" "\<And>x. keeps (c x)" "\<And>x. keeps (d x)" "\<And>x. keeps (e x)" "\<And>x. keeps (f x)"
  shows "keeps (case v of VNil \<Rightarrow> a | VBool x \<Rightarrow> b x | VInt x \<Rightarrow> c x | VFloat x \<Rightarrow> d x | VStr x \<Rightarrow> e x | VRef x \<Rightarrow> f x)"
  using assms by (cases v) auto

lemma keep_if [keep_intro]: "keeps m \<Longrightarrow> keeps n \<Longrightarrow> keeps (if b then m else n)"
  by simp

subsection \<open>Primitive operations\<close>

lemmas p_fields = p_stack p_ip p_heap p_ctx p_coroutine p_cancelling p_deferred p_counters p_budget p_instructions

lemma keep_push [keep_intro]: "keeps (push v)"
  by (simp add: push_def keep_modify p_stack)

lemma keep_advance [keep_intro]: "keeps advance"
  by (simp add: advance_def keep_modify p_ip)

lemma keep_jump_to [keep_intro]: "keeps (jump_to a)"
  by (simp add: jump_to_def keep_modify p_ip)

lemma keep_alloc [keep_intro]: "keeps (alloc x)"
  by (simp add: keeps_def alloc_def p_heap)

lemma keep_set_obj [keep_intro]: "keeps (set_obj a x)"
  by (simp add: set_obj_def keep_modify p_heap)

lemma keep_new_ref [keep_intro]: "keeps (new_ref x)"
  unfolding new_ref_def by (intro keep_intro)

lemma keep_raise_error [keep_intro]: "keeps (raise_error k m p w)"
  by (simp add: keeps_def raise_error_def raise_def e_lang)

lemma keep_runtime_error [keep_intro]: "keeps (runtime_error k m)"
  unfolding runtime_error_def by (rule keep_raise_error)

lemma keep_pop [keep_intro]: "keeps pop"
  by (rule keepsI) (auto simp: pop_def p_stack split: list.split intro: keepsD[OF keep_runtime_error])

lemma keep_pop_args [keep_intro]: "keeps (pop_args n)"
proof -
  have "keeps (pop_acc n acc)" for acc by (induction n arbitrary: acc) (auto intro!: keep_intro)
  then show ?thesis by (simp add: pop_args_def)
qed

lemma keep_push_all [keep_intro]: "keeps (push_all vs)"
  by (induction vs) (auto intro!: keep_intro)

lemma keep_update_top [keep_intro]: "keeps (update_top g)"
  unfolding update_top_def by (rule keep_modify) (auto simp: frames_same split: list.split intro: p_top)

lemma keep_type_errors [keep_intro]:
  "keeps (binary_type_error oper a b)" "keeps (compare_type_error a b)" "keeps (unary_type_error oper a)"
  by (rule keepsI, simp add: binary_type_error_def compare_type_error_def unary_type_error_def
      keepsD[OF keep_runtime_error])+


subsection \<open>Variables\<close>

lemma keep_undefined_variable [keep_intro]: "keeps (undefined_variable name)"
  unfolding undefined_variable_def by (intro keep_intro)

lemma keep_load_name [keep_intro]: "keeps (load_name name)"
  unfolding load_name_def by (intro keep_intro)

lemma keep_set_local [keep_intro]: "keeps (set_local name x)"
  unfolding set_local_def by (rule keep_update_top)

lemma keep_set_global [keep_intro]: "keeps (set_global name x)"
  unfolding set_global_def Let_def by (intro keep_intro)

lemma keep_store_name [keep_intro]: "keeps (store_name name v)"
  unfolding store_name_def by (auto split: option.split namespace.split slot.split intro!: keep_intro)

lemma keep_upvalue_cell [keep_intro]: "keeps (upvalue_cell oper i)"
  unfolding upvalue_cell_def by (intro keep_intro)

lemma keep_upvalues [keep_intro]: "keeps (load_upvalue i)" "keeps (store_upvalue i v)"
  unfolding load_upvalue_def store_upvalue_def by (intro keep_intro)+

lemma keep_capture_local [keep_intro]: "keeps (capture_local f name)"
  unfolding capture_local_def by (intro keep_intro)

lemma keep_arity_error [keep_intro]: "keeps (arity_error n x i)"
  unfolding arity_error_def by (rule keep_runtime_error)

subsection \<open>Exceptions\<close>

lemma p_restore_ctx: "P s \<Longrightarrow> P (restore_ctx f s)"
  by (auto simp: restore_ctx_def p_ctx split: option.split)

lemma restore_ctx_frames: "restore_ctx f s\<lparr>v_frames := fs\<rparr> = restore_ctx f (s\<lparr>v_frames := fs\<rparr>)"
  by (simp add: restore_ctx_def split: option.split)

text \<open>Popping frames keeps an end of the list of frames and changes only the module context besides.\<close>

lemma pop_frames_drop: "\<exists>n c. pop_frames d fs s = s\<lparr>v_frames := drop n fs, v_ctx := c\<rparr>"
proof (induction fs arbitrary: s)
  case Nil
  have "pop_frames d [] s = s\<lparr>v_frames := drop 0 [], v_ctx := v_ctx s\<rparr>" by simp
  then show ?case by blast
next
  case (Cons f fs)
  show ?case
  proof (cases "d < length (f # fs)")
    case True
    obtain n c where n: "pop_frames d fs (restore_ctx f s) = (restore_ctx f s)\<lparr>v_frames := drop n fs, v_ctx := c\<rparr>"
      using Cons.IH by blast
    then have "pop_frames d (f # fs) s = s\<lparr>v_frames := drop (Suc n) (f # fs), v_ctx := c\<rparr>"
      using True by (auto simp: restore_ctx_def split: option.splits)
    then show ?thesis by blast
  next
    case False
    then have "pop_frames d (f # fs) s = s\<lparr>v_frames := drop 0 (f # fs), v_ctx := v_ctx s\<rparr>" by simp
    then show ?thesis by blast
  qed
qed

lemma p_unwind_to:
  assumes "P s"
  shows "P (unwind_to fd sd s)"
proof -
  obtain n c where n: "pop_frames fd (v_frames s) s = s\<lparr>v_frames := drop n (v_frames s), v_ctx := c\<rparr>"
    using pop_frames_drop by blast
  have "drop_handlers (s\<lparr>v_frames := drop n (v_frames s), v_ctx := c\<rparr>) =
      (drop_handlers (s\<lparr>v_frames := drop n (v_frames s)\<rparr>))\<lparr>v_ctx := c\<rparr>"
    by (simp add: drop_handlers_def)
  then have "P (drop_handlers (pop_frames fd (v_frames s) s))"
    using p_ctx[OF p_unwind[OF assms]] n by simp
  then show ?thesis by (simp add: unwind_to_def Let_def p_stack)
qed

lemma p_discard: "P s \<Longrightarrow> P (discard_stale_deferrals s)"
  by (simp add: discard_stale_deferrals_def Let_def p_deferred)

lemma discard_frames [simp]: "v_frames (discard_stale_deferrals s) = v_frames s"
  by (simp add: discard_stale_deferrals_def Let_def)

lemma p_enter_finally: "P s \<Longrightarrow> P (enter_finally err h s)"
  by (simp add: enter_finally_def Let_def p_deferred p_ip p_unwind_to)

lemma p_push_handler':
  "P s \<Longrightarrow> h_frames h = length (v_frames s) \<Longrightarrow> hs = v_handlers s \<Longrightarrow> P (s\<lparr>v_handlers := h # hs\<rparr>)"
  by (simp add: p_push_handler)

lemma p_enter_catch: "P s \<Longrightarrow> P (enter_catch err h i s)"
  by (auto simp: enter_catch_def Let_def intro!: p_push_handler' p_fields p_discard p_unwind_to)

lemma next_handler_drop: "next_handler c hs = Some (h, rest) \<Longrightarrow> \<exists>n. rest = drop n hs"
proof (induction hs)
  case (Cons k hs)
  show ?case
  proof (cases "c \<and> h_target k \<noteq> Gate \<and> h_finally k = Some 0")
    case True
    with Cons obtain n where "rest = drop n hs" by auto
    then have "rest = drop (Suc n) (k # hs)" by simp
    then show ?thesis by blast
  next
    case False
    with Cons.prems have "rest = drop 1 (k # hs)" by auto
    then show ?thesis by blast
  qed
qed simp

lemma p_handle_exception:
  assumes "P s"
  shows "P (snd (handle_exception err s))"
proof (cases "next_handler (v_cancelling s) (v_handlers s)")
  case None
  with p_pop_handler[OF assms, of "length (v_handlers s)"] show ?thesis by (simp add: handle_exception_def)
next
  case (Some hr)
  obtain h rest where hr: "hr = (h, rest)" by force
  obtain n where "rest = drop n (v_handlers s)" using next_handler_drop Some hr by blast
  then have "P (s\<lparr>v_handlers := rest\<rparr>)" using p_pop_handler[OF assms] by simp
  with Some hr show ?thesis
    by (auto simp: handle_exception_def Let_def p_enter_finally p_enter_catch split: handler_target.split)
qed

lemma keep_setup_try [keep_intro]: "keeps (setup_try a b)"
  unfolding setup_try_def by (rule keep_modify) (simp add: p_push_handler)

lemma keep_pop_try [keep_intro]: "keeps pop_try"
  by (rule keepsI) (auto simp: pop_try_def keepsD[OF keep_runtime_error] split: list.split dest: p_pop_handler[of _ 1])


subsection \<open>Calls\<close>

lemma keep_text_of [keep_intro]: "keeps (text_of W v q)"
  unfolding text_of_def by (intro keep_intro)

lemma keep_in_bounds [keep_intro]: "keeps (in_bounds w n v)"
  unfolding in_bounds_def to_list_index_def by (intro keep_intro)

lemma keep_read_index [keep_intro]: "keeps (read_index W seq idx)"
  unfolding read_index_def by (intro keep_intro)

lemma keep_write_index [keep_intro]: "keeps (write_index seq idx v)"
  unfolding write_index_def by (intro keep_intro)

lemma keep_save_coroutine [keep_intro]: "keeps (save_current_coroutine_state i)"
  unfolding save_current_coroutine_state_def
  by (rule keep_modify) (auto split: option.split intro!: p_fields)

lemma keep_set_coroutine [keep_intro]: "keeps (set_coroutine_state st)"
  unfolding set_coroutine_state_def by (rule keep_modify) (rule p_coroutine)

lemma keep_suspend [keep_intro]: "keeps (suspend i y)"
  unfolding suspend_def by (intro keep_intro)

lemma keep_count_call [keep_intro]: "keeps count_call"
  unfolding count_call_def by (rule keep_modify) (rule p_counters)

lemma keep_check_capability [keep_intro]: "keeps (check_capability W c t k args)"
  unfolding check_capability_def Let_def by (auto split: option.split verdict.split intro!: keep_intro)

lemma keep_augment [keep_intro]: "keeps (augment_stdlib_err fs)"
  unfolding augment_stdlib_err_def Let_def by (intro keep_intro)

lemma keep_finish_builtin [keep_intro]: "keeps (finish_builtin r)"
  unfolding finish_builtin_def by (cases r) (auto intro!: keep_intro)

lemma keep_guard [keep_intro]: "keeps (guard_step_entry fi)"
  unfolding guard_step_entry_def by (intro keep_intro)

lemma keep_push_frame [keep_intro]: "keeps (push_frame f a)"
  by (rule keepsI) (auto simp: push_frame_def reading_def modify_def keepsD[OF keep_runtime_error]
      split: option.split intro!: p_ip p_push_frame)

lemma keep_call_closure [keep_intro]: "keeps (call_closure W callee n)"
  unfolding call_closure_def by (intro keep_intro)


lemma p_restore_execution_context:
  assumes "P s" and "P t"
  shows "P (restore_execution_context s t)"
proof -
  have "restore_execution_context s t = (t\<lparr>v_frames := v_frames s, v_handlers := v_handlers s\<rparr>)
      \<lparr>v_ip := v_ip s, v_stack := v_stack s, v_coroutine := v_coroutine s, v_deferred_return := v_deferred_return s,
       v_deferred_return_depth := v_deferred_return_depth s, v_deferred_error := v_deferred_error s,
       v_deferred_error_depth := v_deferred_error_depth s\<rparr>"
    by (simp add: restore_execution_context_def)
  then show ?thesis by (simp only:) (intro p_fields p_restore assms)
qed

lemma settles_restore: "P s \<Longrightarrow> settles P E r \<Longrightarrow> settles P E (apsnd (restore_execution_context s) r)"
  by (cases "(P, E, r)" rule: settles.cases) (auto simp: p_restore_execution_context)

lemma keep_run_closure:
  assumes "keeps ex"
  shows "keeps (run_closure ex closure args)"
proof -
  let ?fin = "\<lambda>sig. case sig of
      SYield y \<Rightarrow> runtime_error ''runtime'' (py ''Task yielded during graph execution'')
    | SReturn v \<Rightarrow> ret v | SHalt \<Rightarrow> ret VNil"
  have fin: "keeps (bindR ex ?fin)"
    by (rule keep_bind[OF assms]) (auto split: signal.split intro!: keep_intro)
  have "settles P E (run_closure ex closure args s)" if "P s" for s
  proof (cases "closure_of (v_heap s) closure")
    case None
    with that show ?thesis by (simp add: run_closure_def keepsD[OF keep_runtime_error])
  next
    case (Some fi)
    define body where "body = (\<lambda>s.
        let t = s\<lparr>v_stack := rev args, v_frames := [new_frame fi None (None, None) (Some (addr_of closure))],
              v_handlers := [], v_deferred_return := None, v_deferred_return_depth := 0,
              v_deferred_error := None, v_deferred_error_depth := 0,
              v_coroutine := Some running_coroutine, v_ip := Some (fi_addr fi)\<rparr>;
            (r, u) = bindR ex ?fin t
        in (r, restore_execution_context s u))"
    have "keeps body"
    proof (rule keepsI)
      fix s assume s: "P s"
      let ?t = "s\<lparr>v_stack := rev args, v_frames := [new_frame fi None (None, None) (Some (addr_of closure))],
         v_handlers := [], v_deferred_return := None, v_deferred_return_depth := 0,
         v_deferred_error := None, v_deferred_error_depth := 0,
         v_coroutine := Some running_coroutine, v_ip := Some (fi_addr fi)\<rparr>"
      have "?t = (s\<lparr>v_frames := [new_frame fi None (None, None) (Some (addr_of closure))], v_handlers := []\<rparr>)
        \<lparr>v_stack := rev args, v_deferred_return := None, v_deferred_return_depth := 0,
         v_deferred_error := None, v_deferred_error_depth := 0,
         v_coroutine := Some running_coroutine, v_ip := Some (fi_addr fi)\<rparr>" by simp
      moreover have "P \<dots>" by (intro p_fields p_nested s)
      ultimately have "P ?t" by (simp only:)
      from keepsD[OF fin this] have "settles P E (apsnd (restore_execution_context s) (bindR ex ?fin ?t))"
        by (rule settles_restore[OF s])
      moreover have "body s = apsnd (restore_execution_context s) (bindR ex ?fin ?t)"
        unfolding body_def Let_def split_beta apsnd_def map_prod_def by (simp only: id_apply)
      ultimately show "settles P E (body s)" by (simp only:)
    qed
    then have "keeps (thenR (guard_step_entry fi) body)" by (intro keep_intro)
    from keepsD[OF this that] show ?thesis by (simp add: run_closure_def Some body_def)
  qed
  then show ?thesis by (rule keepsI)
qed

subsection \<open>Handlers\<close>

lemma keep_top_frame [keep_intro]: "keeps top_frame"
  by (rule keepsI) (simp add: top_frame_def ret_def raise_def e_py split: list.split)

lemma keep_array_slot [keep_intro]: "keeps (array_slot i)"
  unfolding array_slot_def by (intro keep_intro)

lemma keep_local_ops [keep_intro]: "keeps (op_frame_size n)" "keeps (op_load_local_idx n)"
  "keeps (op_store_local_idx n)" "keeps (op_reset_local_idx n)" "keeps (op_store_arg name)"
  unfolding op_frame_size_def op_load_local_idx_def op_store_local_idx_def op_reset_local_idx_def op_store_arg_def
  by (intro keep_intro)+

lemma keep_push_num [keep_intro]: "keeps (push_num r)"
  unfolding push_num_def by (intro keep_intro)

lemma keep_arith [keep_intro]: "keeps fail \<Longrightarrow> keeps (add_values a b fail)"
  "keeps fail \<Longrightarrow> keeps (sub_values a b fail)" "keeps fail \<Longrightarrow> keeps (repeat_value a n fail)"
  unfolding add_values_def sub_values_def repeat_value_def by (intro keep_intro; assumption)+

lemma keep_mul_values [keep_intro]: "keeps fail \<Longrightarrow> keeps (mul_values a b fail)"
  unfolding mul_values_def by (intro keep_intro; assumption)

lemma keep_binary [keep_intro]: "(\<And>a b. keeps (f a b)) \<Longrightarrow> keeps (binary f)"
  unfolding binary_def by (intro keep_intro)

lemma keep_unary [keep_intro]: "(\<And>a. keeps (f a)) \<Longrightarrow> keeps (unary f)"
  unfolding unary_def by (intro keep_intro)

lemma keep_divide [keep_intro]: "keeps (divide_with verb noun fi ff a b)"
  unfolding divide_with_def to_float_def by (intro keep_intro)

lemma keep_equal_values [keep_intro]: "keeps (equal_values f a b)"
  unfolding equal_values_def by (intro keep_intro)

lemma keep_compare [keep_intro]: "keeps (op_compare test)"
  unfolding op_compare_def by (intro keep_intro) (auto split: cmp_result.split intro!: keep_intro)

lemma keep_arith_ops [keep_intro]: "keeps op_add" "keeps op_sub" "keeps op_mul" "keeps op_div" "keeps op_mod"
  "keeps op_eq" "keeps op_ne" "keeps op_to_bool" "keeps op_not" "keeps op_neg"
  unfolding op_add_def op_sub_def op_mul_def op_div_def op_mod_def op_eq_def op_ne_def op_to_bool_def
    op_not_def op_neg_def
  by (intro keep_intro)+

lemma keep_jump_if [keep_intro]: "keeps (op_jump_if b t)"
  unfolding op_jump_if_def by (intro keep_intro)

lemma keep_iterators [keep_intro]: "keeps (push_iterator src)" "keeps (not_iterable v)" "keeps (iterator_from v)"
  unfolding push_iterator_def not_iterable_def iterator_from_def push_iterator_def by (intro keep_intro)+

lemma keep_get_iter: "keeps ex \<Longrightarrow> keeps (op_get_iter ex)"
  unfolding op_get_iter_def by (intro keep_intro keep_run_closure)

lemma keep_advance_iterator: "keeps ex \<Longrightarrow> keeps (advance_iterator ex it src b)"
  unfolding advance_iterator_def by (cases src) (auto intro!: keep_intro keep_run_closure)

lemma keep_iter_next: "keeps ex \<Longrightarrow> keeps (op_iter_next ex t)"
  unfolding op_iter_next_def by (intro keep_intro keep_advance_iterator p_stack)


subsection \<open>Protected regions and returns\<close>

lemma keep_try_ops [keep_intro]: "keeps (op_setup_try a b)" "keeps op_pop_try"
  unfolding op_setup_try_def op_pop_try_def by (intro keep_intro)+

text \<open>A call ends with the frame and the handlers of the frame gone.\<close>

lemma p_leave_frame:
  assumes "P s" and "v_frames s = f # fs" and "t = s\<lparr>v_frames := fs, v_ctx := c\<rparr>"
  shows "settles P E (leave_frame f v t)"
proof -
  have "drop_handlers (t\<lparr>v_returns := Suc (v_returns t)\<rparr>) =
      (drop_handlers (s\<lparr>v_frames := fs\<rparr>))\<lparr>v_ctx := c, v_returns := Suc (v_returns s)\<rparr>"
    by (simp add: drop_handlers_def assms(3))
  moreover have "P \<dots>" by (intro p_fields p_pop_frame[OF assms(1,2)])
  ultimately have "P (drop_handlers (t\<lparr>v_returns := Suc (v_returns t)\<rparr>))" by (simp only:)
  then show ?thesis
    unfolding leave_frame_def Let_def ret_def by (auto split: option.split intro!: p_fields)
qed

lemma restore_ctx_eq: "\<exists>c. restore_ctx f (s\<lparr>v_frames := fs\<rparr>) = s\<lparr>v_frames := fs, v_ctx := c\<rparr>"
proof (cases "fr_ctx f")
  case None
  then have "restore_ctx f (s\<lparr>v_frames := fs\<rparr>) = s\<lparr>v_frames := fs, v_ctx := v_ctx s\<rparr>"
    by (simp add: restore_ctx_def)
  then show ?thesis by blast
qed (auto simp: restore_ctx_def)

lemma keep_return [keep_intro]: "keeps op_return"
proof -
  have leave: "settles P E (thenR (modify (\<lambda>s. restore_ctx f (s\<lparr>v_frames := fs\<rparr>))) (leave_frame f v) s)"
    if "P s" and "v_frames s = f # fs" for s f fs v
    using restore_ctx_eq[of f fs s] p_leave_frame[OF that] by (auto simp: thenR_def bindR_def modify_def)
  have postpone: "P (s\<lparr>v_handlers := hs, v_deferred_return := r, v_deferred_return_depth := d, v_ip := i\<rparr>)"
    if "P s" and "v_handlers s = h # hs" for s h hs r d i
  proof -
    have "P (s\<lparr>v_handlers := hs\<rparr>)" using p_pop_handler[OF that(1), of 1] that(2) by simp
    then show ?thesis by (intro p_fields)
  qed
  show ?thesis
    unfolding op_return_def
    by (intro keep_bind keep_pop keepsI)
      (auto simp: reading_def leave postpone thenR_def[of _ "ret None"] bindR_def modify_def ret_def
        keepsD[OF keep_runtime_error] split: list.split)
qed

lemma p_pop_gate: "P s \<Longrightarrow> P (pop_gate s)"
  using p_pop_handler[of s 1] by (auto simp: pop_gate_def split: list.split)

lemma keep_finally_end [keep_intro]: "keeps op_finally_end"
proof (rule keepsI)
  fix s assume s: "P s"
  have fin: "settles P E (leave_frame f v (t\<lparr>v_frames := fs\<rparr>))" if "P t" and "v_frames t = f # fs" for t f fs v
    by (rule p_leave_frame[OF that, of _ "v_ctx t"]) simp
  show "settles P E (op_finally_end s)"
  proof (cases "v_deferred_error s")
    case (Some err)
    obtain b t where bt: "handle_exception err (s\<lparr>v_deferred_error := None\<rparr>) = (b, t)" by force
    with p_handle_exception[OF p_deferred(3)[OF s], of err None] have "P t" by simp
    with Some bt show ?thesis by (cases b) (simp_all add: op_finally_end_def ret_def raise_def e_lang)
  next
    case None
    have g: "P (pop_gate s)" by (rule p_pop_gate[OF s])
    then have g': "P ((pop_gate s)\<lparr>v_deferred_return := None\<rparr>)" by (rule p_deferred)
    from None show ?thesis
      using fin[OF g'] g g'
      by (auto simp: op_finally_end_def Let_def thenR_def bindR_def advance_def modify_def ret_def p_ip
          keepsD[OF keep_runtime_error]
          split: option.split list.split)
  qed
qed

lemma keep_throw [keep_intro]: "keeps (op_throw W)"
  unfolding op_throw_def by (intro keep_intro)

lemma keep_yield [keep_intro]: "keeps op_yield"
  unfolding op_yield_def by (intro keep_intro)

subsection \<open>Containers\<close>

lemma keep_pop_pairs [keep_intro]: "keeps (pop_pairs key msg n acc)"
  by (induction n arbitrary: acc) (auto intro!: keep_intro)

lemma keep_builds [keep_intro]: "keeps (op_build_list n)" "keeps (op_build_map n)" "keeps (op_build_record n)"
  "keeps (op_build_module n)"
  unfolding op_build_list_def op_build_map_def op_build_record_def op_build_module_def by (intro keep_intro)+

lemma keep_accesses [keep_intro]: "keeps (op_index W)" "keeps op_index_set" "keeps (op_load_field name)"
  "keeps (op_store_field name)"
  unfolding op_index_def op_index_set_def op_load_field_def op_store_field_def by (intro keep_intro)+

subsection \<open>Calls\<close>

lemma keep_then_advance [keep_intro]: "keeps m \<Longrightarrow> keeps (then_advance m)"
  unfolding then_advance_def by (intro keep_intro; assumption)

lemma keep_captured [keep_intro]: "keeps (captured_cell u)" "keeps (captured_cells us acc)"
proof -
  show one: "keeps (captured_cell u)" for u unfolding captured_cell_def by (intro keep_intro)
  show "keeps (captured_cells us acc)" by (induction us arbitrary: acc) (auto intro!: keep_intro one)
qed

lemma keep_closures [keep_intro]: "keeps (op_make_closure name)" "keeps (op_call_value W n)"
  unfolding op_make_closure_def op_call_value_def by (intro keep_intro)+

lemma keep_b_fn: "builtins_keep P E W \<Longrightarrow> (name, b) \<in> set (w_builtins W) \<Longrightarrow> keeps (b_fn b args)"
  unfolding builtins_keep_def keeps_def by auto

lemma keep_method: "builtins_keep P E W \<Longrightarrow> keeps (w_method W k args)"
  unfolding builtins_keep_def keeps_def by auto

lemma keep_call_builtin:
  assumes "builtins_keep P E W" and "dict_get (=) name (w_builtins W) = Some b"
  shows "keeps (call_builtin W shown b n)"
  unfolding call_builtin_def by (intro keep_intro keep_b_fn[OF assms(1) dict_get_mem[OF assms(2)]])

lemma keep_call:
  assumes "builtins_keep P E W"
  shows "keeps (op_call W name n)"
  unfolding op_call_def Let_def
  by (intro keep_then keep_count_call keep_reading)
    (auto intro!: keep_intro keep_call_builtin[OF assms] split: option.split)

lemma keep_call_method:
  assumes "builtins_keep P E W"
  shows "keeps (op_call_method W name n)"
  unfolding op_call_method_def by (intro keep_intro keep_method[OF assms])

subsection \<open>The loop\<close>

lemma keep_step:
  assumes W: "builtins_keep P E W" and ex: "keeps ex"
  shows "keeps (step W ex i)"
  by (cases i) (auto simp: no_signal_def intro!: keep_intro keep_call[OF W] keep_call_method[OF W]
      keep_get_iter[OF ex] keep_iter_next[OF ex])

lemma keep_record_instruction [keep_intro]: "keeps record_instruction"
  unfolding record_instruction_def
  by (rule keep_then, rule keep_modify, (auto simp: Let_def split: option.split intro!: p_fields)[1],
      rule keepsI, simp add: ret_def raise_def e_lang split: option.split)

lemma settles_deliver:
  assumes "P s" and "E e"
  shows "settles P E (deliver e s)"
proof -
  have h: "handle_exception err (s\<lparr>v_exceptions := n\<rparr>) = (b, t) \<Longrightarrow> P t" for err n b t
    using p_handle_exception[OF p_counters(3)[OF assms(1)], of err n] by simp
  show ?thesis using assms
    by (auto simp: deliver_def Let_def e_lang split: exn.split prod.split bool.split intro: h)
qed

lemma keep_suspend_on_budget [keep_intro]: "keeps suspend_on_budget"
proof (rule keepsI)
  fix s assume s: "P s"
  let ?t = "s\<lparr>v_budget_exceeded := False, v_task_step_budget := None\<rparr>"
  have "P ?t" by (intro p_fields s)
  moreover have "keeps (thenR (if v_coroutine ?t = None then ret ()
      else thenR (set_coroutine_state ''suspended'') (save_current_coroutine_state (v_ip ?t))) (ret (SYield YBudget)))"
    by (intro keep_intro)
  ultimately show "settles P E (suspend_on_budget s)"
    unfolding suspend_on_budget_def Let_def by (rule keepsD[rotated])
qed

text \<open>What the loop does after an instruction was counted.\<close>

lemma settles_after_step:
  assumes t: "P t" and W: "builtins_keep P E W" and ex: "keeps (execute n W)"
  shows "settles P E (case step W (execute n W) i t of
      (Inr None, u) \<Rightarrow> execute n W u
    | (Inr (Some sig), u) \<Rightarrow> (Inr sig, u)
    | (Inl e, u) \<Rightarrow> (case deliver e u of (Inr _, v) \<Rightarrow> execute n W v | (Inl e', v) \<Rightarrow> (Inl e', v)))"
proof -
  obtain r u where u: "step W (execute n W) i t = (r, u)" by force
  have st: "settles P E (r, u)" using keepsD[OF keep_step[OF W ex] t] u by metis
  then have pu: "P u" by (rule settles_snd[where r = "(r, u)", simplified])
  have delivered: "settles P E (deliver e u)" if "r = Inl e" for e using st that by (simp add: settles_deliver)
  have go: "settles P E (execute n W v)" if "P v" for v by (rule keepsD[OF ex that])
  show ?thesis
    using st delivered go pu u by (auto split: option.split sum.split prod.split)
qed

lemma settles_execute_step:
  assumes s: "P s" and W: "builtins_keep P E W" and ex: "keeps (execute n W)"
  shows "settles P E (execute (Suc n) W s)"
proof -
  obtain r t where rt: "record_instruction s = (r, t)" by force
  have rec: "settles P E (r, t)" using keepsD[OF keep_record_instruction s] rt by simp
  then have t: "P t" by (rule settles_snd[where r = "(r, t)", simplified])
  show ?thesis
    using s rec rt keepsD[OF keep_suspend_on_budget s] settles_after_step[OF t W ex]
    by (cases r) (simp_all add: ret_def raise_def e_py split: option.split)
qed

lemma keep_execute:
  assumes W: "builtins_keep P E W" and bound: "E Unfinished"
  shows "keeps (execute n W)"
proof (induction n)
  case 0
  show ?case by (simp add: keeps_def raise_def bound)
next
  case (Suc n)
  show ?case by (rule keepsI) (rule settles_execute_step[OF _ W Suc.IH])
qed

end

end
