(* ===== verification/VM_Invariants.thy ===== *)
theory VM_Invariants
  imports VM_Rules
begin

text \<open>
  Instances of \<open>kept\<close>: the handlers are nested in the frames, the call depth stays below its limit, and
  a run with a limit on its steps ends. Then what more fuel changes in a run: nothing, once it ended.
\<close>

section \<open>Handlers are nested in frames\<close>

text \<open>The handlers are pushed in the order of the frames they belong to, and the frame of each handler
  is still there.\<close>

definition nested_handlers :: "handler list \<Rightarrow> nat \<Rightarrow> bool" where
  "nested_handlers hs d \<longleftrightarrow> sorted_wrt (\<lambda>h k. h_frames k \<le> h_frames h) hs \<and> (\<forall>h \<in> set hs. h_frames h \<le> d)"

definition handlers_nested :: "vm \<Rightarrow> bool" where
  "handlers_nested s \<longleftrightarrow> nested_handlers (v_handlers s) (length (v_frames s))"

lemma nested_handlers_simps [simp]:
  "nested_handlers [] d"
  "nested_handlers (h # hs) d \<longleftrightarrow> h_frames h \<le> d \<and> nested_handlers hs (h_frames h)"
  by (auto simp: nested_handlers_def)

lemma nested_handlers_mono: "nested_handlers hs d \<Longrightarrow> d \<le> e \<Longrightarrow> nested_handlers hs e"
  by (force simp: nested_handlers_def)

lemma nested_handlers_drop: "nested_handlers hs d \<Longrightarrow> nested_handlers (drop n hs) d"
  unfolding nested_handlers_def by (auto intro: sorted_wrt_drop dest: in_set_dropD)

lemma nested_handlers_dropWhile:
  "nested_handlers hs d \<Longrightarrow> nested_handlers (dropWhile (\<lambda>h. e < h_frames h) hs) e"
  by (induction hs arbitrary: d) (auto simp: not_less)

interpretation nesting: kept handlers_nested "\<lambda>_. True"
proof unfold_locales
  fix s f and fs :: "frame list"
  assume "handlers_nested s" and "v_frames s = f # fs"
  then show "handlers_nested (drop_handlers (s\<lparr>v_frames := fs\<rparr>))"
    by (simp add: handlers_nested_def drop_handlers_def nested_handlers_dropWhile)
next
  fix s n
  assume "handlers_nested s"
  then show "handlers_nested (drop_handlers (s\<lparr>v_frames := drop n (v_frames s)\<rparr>))"
    by (simp add: handlers_nested_def drop_handlers_def nested_handlers_dropWhile)
qed (auto simp: handlers_nested_def nested_handlers_drop elim: nested_handlers_mono)

section \<open>Call depth\<close>

definition depth_within :: "nat option \<Rightarrow> vm \<Rightarrow> bool" where
  "depth_within c s \<longleftrightarrow> v_max_frames s = c \<and> (\<forall>m. c = Some m \<longrightarrow> length (v_frames s) \<le> max 1 m)"

lemma drop_handlers_fields [simp]: "v_max_frames (drop_handlers s) = v_max_frames s"
  "v_frames (drop_handlers s) = v_frames s" "v_max_steps (drop_handlers s) = v_max_steps s"
  "v_instructions (drop_handlers s) = v_instructions s"
  by (simp_all add: drop_handlers_def)

interpretation depth: kept "depth_within c" "\<lambda>_. True" for c
  by unfold_locales (auto simp: depth_within_def)

section \<open>The limit on steps\<close>

definition counted :: "nat \<Rightarrow> nat \<Rightarrow> vm \<Rightarrow> bool" where
  "counted m k s \<longleftrightarrow> v_max_steps s = Some m \<and> k \<le> v_instructions s"

definition ended :: "exn \<Rightarrow> bool" where
  "ended e \<longleftrightarrow> e \<noteq> Unfinished"

interpretation limit: kept "counted m k" ended for m k
  by unfold_locales (auto simp: counted_def ended_def)

lemma settles_mono: "settles P E r \<Longrightarrow> (\<And>s. P s \<Longrightarrow> Q s) \<Longrightarrow> settles Q E r"
  by (cases "(P, E, r)" rule: settles.cases) auto

lemma record_instruction_limit:
  assumes "v_max_steps s = Some m"
  shows "record_instruction s = (r, t) \<Longrightarrow> v_instructions t = Suc (v_instructions s) \<and> v_max_steps t = Some m \<and>
    (case r of Inl e \<Rightarrow> e \<noteq> Unfinished | Inr _ \<Rightarrow> v_instructions s < m)"
  using assms by (auto simp: record_instruction_def thenR_def bindR_def modify_def Let_def ret_def raise_def
      split: option.splits if_splits)

lemma limit_keeps_execute:
  assumes W: "\<And>k. builtins_keep (counted m k) ended W"
  shows "m < k + n \<Longrightarrow> 0 < n \<Longrightarrow> limit.keeps m k (execute n W)"
proof (induction n arbitrary: k)
  case (Suc n)
  show ?case
  proof (rule limit.keepsI)
    fix s assume s: "counted m k s"
    then have m: "v_max_steps s = Some m" and k: "k \<le> v_instructions s" by (auto simp: counted_def)
    obtain r t where rt: "record_instruction s = (r, t)" by force
    note rec = record_instruction_limit[OF m rt]
    have after: "settles (counted m k) ended (case step W (execute n W) i t of
        (Inr None, u) \<Rightarrow> execute n W u
      | (Inr (Some sig), u) \<Rightarrow> (Inr sig, u)
      | (Inl e, u) \<Rightarrow> (case deliver e u of (Inr _, v) \<Rightarrow> execute n W v | (Inl e', v) \<Rightarrow> (Inl e', v)))"
      if "r = Inr x" for i x
    proof -
      from that rec have lt: "v_instructions s < m" by simp
      with k Suc.prems have "0 < n" by simp
      with Suc.IH[of "Suc k"] Suc.prems have ex: "limit.keeps m (Suc k) (execute n W)" by simp
      have "counted m (Suc k) t" using rec k by (auto simp: counted_def)
      from limit.settles_after_step[OF this W ex] show ?thesis
        by (rule settles_mono) (simp add: counted_def)
    qed
    have "counted m k t" using rec k by (auto simp: counted_def)
    then show "settles (counted m k) ended (execute (Suc n) W s)"
      using s rt rec after limit.keepsD[OF limit.keep_suspend_on_budget s]
      by (cases r) (auto simp: ret_def raise_def ended_def split: option.split)
  qed
qed simp

section \<open>Fuel\<close>

text \<open>A run of the loop with more fuel agrees with one that ended.\<close>

definition extends :: "'a run \<Rightarrow> 'a run \<Rightarrow> bool" where
  "extends m m' \<longleftrightarrow> (\<forall>s. fst (m s) \<noteq> Inl Unfinished \<longrightarrow> m' s = m s)"

lemma extends_refl [simp]: "extends m m"
  by (simp add: extends_def)

lemma extendsI: "(\<And>s r t. m s = (r, t) \<Longrightarrow> r \<noteq> Inl Unfinished \<Longrightarrow> m' s = (r, t)) \<Longrightarrow> extends m m'"
  unfolding extends_def by (metis prod.collapse)

lemma extendsD: "extends m m' \<Longrightarrow> m s = (r, t) \<Longrightarrow> r \<noteq> Inl Unfinished \<Longrightarrow> m' s = (r, t)"
  by (auto simp: extends_def)

lemma extends_trans: "extends m m' \<Longrightarrow> extends m' m'' \<Longrightarrow> extends m m''"
  by (rule extendsI) (blast dest: extendsD)

lemma extends_bind:
  assumes "extends m m'" and "\<And>x. extends (f x) (f' x)"
  shows "extends (bindR m f) (bindR m' f')"
proof (rule extendsI)
  fix s r t assume run: "bindR m f s = (r, t)" and r: "r \<noteq> Inl Unfinished"
  obtain a u where u: "m s = (a, u)" by force
  from run r u have "a \<noteq> Inl Unfinished" by (auto simp: bindR_def)
  with assms(1) u have "m' s = (a, u)" by (rule extendsD)
  with run r u show "bindR m' f' s = (r, t)"
    by (cases a) (auto simp: bindR_def intro: extendsD[OF assms(2)])
qed

lemma extends_then: "extends m m' \<Longrightarrow> extends n n' \<Longrightarrow> extends (thenR m n) (thenR m' n')"
  unfolding thenR_def by (intro extends_bind)

lemma extends_reading: "(\<And>s. extends (f s) (g s)) \<Longrightarrow> extends (reading f) (reading g)"
  by (simp add: extends_def reading_def)

lemmas extends_intro = extends_refl extends_bind extends_then extends_reading

lemma extends_run_closure:
  assumes "extends ex ex'"
  shows "extends (run_closure ex closure args) (run_closure ex' closure args)"
proof -
  let ?fin = "\<lambda>sig. case sig of
      SYield y \<Rightarrow> runtime_error ''runtime'' (py ''Task yielded during graph execution'')
    | SReturn v \<Rightarrow> ret v | SHalt \<Rightarrow> ret VNil"
  have fin: "extends (bindR ex ?fin) (bindR ex' ?fin)" by (intro extends_bind assms extends_refl)
  then show ?thesis
    unfolding extends_def run_closure_def thenR_def bindR_def[of "guard_step_entry _"] Let_def
    by (auto simp: split_beta split: option.split sum.split)
qed

lemma extends_get_iter: "extends ex ex' \<Longrightarrow> extends (op_get_iter ex) (op_get_iter ex')"
  unfolding op_get_iter_def
  by (intro extends_intro) (auto split: option.split intro!: extends_intro extends_run_closure)

lemma extends_advance_iterator:
  "extends ex ex' \<Longrightarrow> extends (advance_iterator ex it src b) (advance_iterator ex' it src b)"
  unfolding advance_iterator_def
  by (intro extends_intro) (auto split: option.split iter_source.split intro!: extends_intro extends_run_closure)

lemma extends_iter_next: "extends ex ex' \<Longrightarrow> extends (op_iter_next ex t) (op_iter_next ex' t)"
  unfolding op_iter_next_def
  by (intro extends_intro) (auto split: option.split list.split intro!: extends_intro extends_advance_iterator)

lemma extends_step: "extends ex ex' \<Longrightarrow> extends (step W ex i) (step W ex' i)"
  by (cases i) (auto simp: no_signal_def intro!: extends_then extends_get_iter extends_iter_next)

lemma extends_execute_Suc: "extends (execute n W) (execute (Suc n) W)"
proof (induction n)
  case 0
  show ?case by (simp add: extends_def raise_def)
next
  case (Suc n)
  show ?case
  proof (rule extendsI)
    fix s r t
    assume run: "execute (Suc n) W s = (r, t)" and r: "r \<noteq> Inl Unfinished"
    obtain q u where q: "record_instruction s = (q, u)" by force
    obtain x v where x: "step W (execute n W) (cx_code (v_ctx s) ! the (v_ip s)) u = (x, v)" by force
    show "execute (Suc (Suc n)) W s = (r, t)"
    proof (cases "\<exists>ip y. v_ip s = Some ip \<and> ip < length (cx_code (v_ctx s)) \<and> \<not> v_budget_exceeded s \<and> q = Inr y")
      case False
      with run q show ?thesis by (cases q) (auto split: option.splits)
    next
      case True
      then obtain ip y where ip: "v_ip s = Some ip" "ip < length (cx_code (v_ctx s))" "\<not> v_budget_exceeded s"
        and y: "q = Inr y" by blast
      from run ip y q x have run': "(case (x, v) of
          (Inr None, u) \<Rightarrow> execute n W u
        | (Inr (Some sig), u) \<Rightarrow> (Inr sig, u)
        | (Inl e, u) \<Rightarrow> (case deliver e u of (Inr _, v) \<Rightarrow> execute n W v | (Inl e', v) \<Rightarrow> (Inl e', v))) = (r, t)"
        by simp
      have "x \<noteq> Inl Unfinished" using run' r by (auto simp: deliver_def)
      then have x': "step W (execute (Suc n) W) (cx_code (v_ctx s) ! ip) u = (x, v)"
        using x ip(1) by (intro extendsD[OF extends_step[OF Suc.IH]]) simp_all
      have more: "execute n W w = (r, t) \<Longrightarrow> execute (Suc n) W w = (r, t)" for w
        using extendsD[OF Suc.IH _ r] .
      have "(case (x, v) of
          (Inr None, u) \<Rightarrow> execute (Suc n) W u
        | (Inr (Some sig), u) \<Rightarrow> (Inr sig, u)
        | (Inl e, u) \<Rightarrow> (case deliver e u of (Inr _, v) \<Rightarrow> execute (Suc n) W v | (Inl e', v) \<Rightarrow> (Inl e', v))) = (r, t)"
        using run' more by (auto simp del: execute.simps split: option.splits sum.splits prod.splits)
      with ip y q x' show ?thesis by (simp del: execute.simps add: execute.simps(2)[of "Suc n"])
    qed
  qed
qed

lemma extends_execute: "n \<le> k \<Longrightarrow> extends (execute n W) (execute k W)"
proof (induction k rule: dec_induct)
  case (step k)
  then show ?case using extends_trans extends_execute_Suc by blast
qed simp

end
