(* ===== verification/VM_Props.thy ===== *)
theory VM_Props
  imports VM_Invariants
begin

text \<open>
  The properties of the machine: the invariants of its stacks, limits, the delivery of exceptions and
  the returns through \<^verbatim>\<open>finally\<close> blocks.
\<close>

section \<open>A machine without builtins\<close>

definition empty_world :: world where
  "empty_world = \<lparr>w_builtins = [], w_method = (\<lambda>_ _. ret (BValue VNil)), w_capability = (\<lambda>_. None),
     w_decide = (\<lambda>_ _ _ _. None), w_approve = None, w_default_str = (\<lambda>_. [])\<rparr>"

lemma empty_world_keeps: "builtins_keep P E empty_world"
  by (simp add: builtins_keep_def empty_world_def ret_def)

text \<open>\<^verbatim>\<open>try { throw nil } catch e {}\<close>, one instruction after the other.\<close>

definition throwing_code :: "instr list" where
  "throwing_code = [SETUP_TRY (Some 4) None, PUSH_CONST CNil, THROW, POP_TRY, POP, HALT]"

definition throwing_vm :: vm where
  "throwing_vm = new_vm 10 throwing_code [] [] None"

definition endless_vm :: vm where
  "endless_vm = (new_vm 10 [JUMP (Some 0)] [] [] None)\<lparr>v_max_steps := Some 5\<rparr>"

section \<open>Invariants of a run\<close>

text \<open>C5: The exception handlers stay nested in the call frames: in every state a run reaches (whatever
  the code, with a bound on the instructions), each handler belongs to a frame that is still there, and a
  handler further up belongs to no outer frame than one below. Builtins must not break the nesting.\<close>

theorem handlers_stay_nested:
  assumes "builtins_keep handlers_nested (\<lambda>_. True) W" and "handlers_nested s"
  shows "handlers_nested (snd (execute n W s))"
  using nesting.keepsD[OF nesting.keep_execute[OF assms(1)] assms(2)] settles_snd by blast

theorem handlers_stay_nested_witness:
  "handlers_nested (snd (execute 3 empty_world throwing_vm)) \<and> handlers_nested throwing_vm"
  using handlers_stay_nested[OF empty_world_keeps, of throwing_vm 3]
  by (simp add: handlers_nested_def throwing_vm_def new_vm_def)

text \<open>C8: The call depth never passes the limit \<^verbatim>\<open>max_frames\<close>, nor 1, which a closure run by the iterator
  protocol takes.\<close>

theorem call_depth_bounded:
  assumes "builtins_keep (depth_within (Some m)) (\<lambda>_. True) W"
    and "v_max_frames s = Some m" and "length (v_frames s) \<le> m"
  shows "length (v_frames (snd (execute n W s))) \<le> max 1 m"
proof -
  have "depth_within (Some m) s" using assms(2,3) by (simp add: depth_within_def)
  from depth.keepsD[OF depth.keep_execute[OF assms(1)] this] have "depth_within (Some m) (snd (execute n W s))"
    using settles_snd by blast
  then show ?thesis by (simp add: depth_within_def)
qed

theorem call_depth_bounded_witness:
  "length (v_frames (snd (execute 3 empty_world throwing_vm))) \<le> max 1 10000"
  using call_depth_bounded[OF empty_world_keeps, of throwing_vm 10000 3]
  by (simp add: throwing_vm_def new_vm_def MAX_STACK_DEPTH_def)

text \<open>C7: A run with a limit on its steps ends. With \<^verbatim>\<open>max_steps\<close> set to \<open>m\<close>, whatever the code does
  (loops, recursion, closures run by the iterator protocol included), there is one result of the run, and
  every bound above \<open>m + 1\<close> on the number of instructions gives that result.\<close>

theorem step_limit_ends_run:
  assumes "\<And>k. builtins_keep (counted m k) ended W" and "v_max_steps s = Some m"
  shows "\<exists>r t. r \<noteq> Inl Unfinished \<and> (\<forall>n > m. execute n W s = (r, t))"
proof -
  have "counted m 0 s" using assms(2) by (simp add: counted_def)
  from limit.keepsD[OF limit_keeps_execute[OF assms(1)] this, of "Suc m"]
  have "settles (counted m 0) ended (execute (Suc m) W s)" by simp
  moreover obtain r t where rt: "execute (Suc m) W s = (r, t)" by force
  ultimately have r: "r \<noteq> Inl Unfinished" by (cases r) (auto simp: ended_def simp del: execute.simps)
  have "execute n W s = (r, t)" if "n > m" for n
    using extendsD[OF extends_execute rt r] that by (simp add: Suc_le_eq)
  with r show ?thesis by blast
qed

theorem step_limit_ends_run_witness:
  "\<exists>r t. r \<noteq> Inl Unfinished \<and> (\<forall>n > 5. execute n empty_world endless_vm = (r, t))"
  using step_limit_ends_run[OF empty_world_keeps, of endless_vm 5] by (simp add: endless_vm_def new_vm_def)

section \<open>Delivery of exceptions\<close>

lemma pop_frames_length: "d \<le> length fs \<Longrightarrow> v_frames (pop_frames d fs s) = drop (length fs - d) fs"
  by (induction fs arbitrary: s) (auto simp: Suc_diff_le)

lemma pop_frames_other [simp]: "v_stack (pop_frames d fs s) = v_stack s" "v_heap (pop_frames d fs s) = v_heap s"
  "v_handlers (pop_frames d fs s) = v_handlers s"
proof -
  obtain n c where "pop_frames d fs s = s\<lparr>v_frames := drop n fs, v_ctx := c\<rparr>" using nesting.pop_frames_drop by blast
  then show "v_stack (pop_frames d fs s) = v_stack s" "v_heap (pop_frames d fs s) = v_heap s"
    "v_handlers (pop_frames d fs s) = v_handlers s" by simp_all
qed

lemma unwind_to_depths:
  assumes "d \<le> length (v_frames s)"
  shows "v_frames (unwind_to d k s) = drop (length (v_frames s) - d) (v_frames s)"
    "v_stack (unwind_to d k s) = drop (length (v_stack s) - k) (v_stack s)"
    "v_heap (unwind_to d k s) = v_heap s"
  using assms by (simp_all add: unwind_to_def Let_def drop_handlers_def pop_frames_length)

lemma discard_other [simp]: "v_stack (discard_stale_deferrals s) = v_stack s"
  "v_heap (discard_stale_deferrals s) = v_heap s" "v_handlers (discard_stale_deferrals s) = v_handlers s"
  "v_frames (discard_stale_deferrals s) = v_frames s"
  by (simp_all add: discard_stale_deferrals_def Let_def)

lemma next_handler_mem: "next_handler c hs = Some (h, rest) \<Longrightarrow> h \<in> set hs"
  by (induction hs) (auto split: if_splits)

lemma next_handler_running [simp]: "next_handler False hs = (case hs of [] \<Rightarrow> None | h # rest \<Rightarrow> Some (h, rest))"
  by (cases hs) auto

text \<open>C6: A thrown value reaches its catch block. The exception goes to the innermost handler; its catch
  block starts with exactly the frames the handler was set up with and the operand stack cut back to the
  depth of the \<^verbatim>\<open>try\<close>, below a fresh error record that carries the kind, the message and the thrown
  payload itself. The older part of the heap is unchanged.\<close>

theorem exception_reaches_catch:
  assumes "handlers_nested s" and "\<not> v_cancelling s" and "v_handlers s = h # rest" and "h_target h = At ip"
  shows "\<exists>t a fs. handle_exception err s = (True, t) \<and> v_ip t = ip \<and> length (v_frames t) = h_frames h \<and>
    v_frames t = drop (length (v_frames s) - h_frames h) (v_frames s) \<and>
    v_stack t = VRef a # drop (length (v_stack s) - h_stack h) (v_stack s) \<and> length (v_heap s) < a \<and>
    record_of (v_heap t) (VRef a) = Some (py ''error'', fs) \<and>
    dict_get (=) (py ''kind'') fs = Some (VStr (e_kind err)) \<and>
    dict_get (=) (py ''message'') fs = Some (VStr (e_message err)) \<and>
    dict_get (=) (py ''payload'') fs = Some (e_payload err) \<and>
    take (length (v_heap s)) (v_heap t) = v_heap s"
proof -
  let ?s = "s\<lparr>v_handlers := rest\<rparr>"
  have d: "h_frames h \<le> length (v_frames ?s)" using assms(1,3) by (simp add: handlers_nested_def)
  note un = unwind_to_depths[OF d, of "h_stack h"]
  let ?t = "enter_catch err h ip ?s"
  have "handle_exception err s = (True, ?t)" using assms(2-4) by (simp add: handle_exception_def)
  moreover have "v_ip ?t = ip" "v_frames ?t = drop (length (v_frames s) - h_frames h) (v_frames s)"
    "v_stack ?t = VRef (length (v_heap s) + 1) # drop (length (v_stack s) - h_stack h) (v_stack s)"
    "v_heap ?t = v_heap s @ [OList (map VStr (e_stack err)), Record (py ''error'') (error_fields err (length (v_heap s)))]"
    using un by (simp_all add: enter_catch_def Let_def)
  moreover from this have "record_of (v_heap ?t) (VRef (length (v_heap s) + 1)) =
      Some (py ''error'', error_fields err (length (v_heap s)))"
    by (simp add: record_of_def obj_of_def get_obj_def nth_append)
  moreover have "dict_get (=) (py ''kind'') (error_fields err a) = Some (VStr (e_kind err))"
    "dict_get (=) (py ''message'') (error_fields err a) = Some (VStr (e_message err))"
    "dict_get (=) (py ''payload'') (error_fields err a) = Some (e_payload err)" for a
    by (simp_all add: error_fields_def py_def)
  ultimately show ?thesis using d
    by (intro exI[of _ ?t] exI[of _ "length (v_heap s) + 1"] exI[of _ "error_fields err (length (v_heap s))"]) simp
qed

definition in_try_vm :: vm where
  "in_try_vm = throwing_vm\<lparr>v_ip := Some 2, v_stack := [VNil],
     v_handlers := [\<lparr>h_target = At (Some 4), h_finally = Some 0, h_stack = 0, h_frames = 0\<rparr>]\<rparr>"

theorem exception_reaches_catch_witness:
  "\<exists>t a. handle_exception (limit_exceeded ''x'') in_try_vm = (True, t) \<and> v_ip t = Some 4 \<and> v_stack t = [VRef a]"
  using exception_reaches_catch[of in_try_vm "hd (v_handlers in_try_vm)" "[]" "Some 4" "limit_exceeded ''x''"]
  by (fastforce simp: in_try_vm_def throwing_vm_def new_vm_def handlers_nested_def)

text \<open>C9: A cancellation passes by every catch block. While a coroutine is being cancelled, an exception
  only ever continues at the finally block of a handler (never one without), and stays pending there, so
  that the end of that block raises it again; if no handler has a finally block it leaves the machine.\<close>

theorem cancellation_skips_catch:
  assumes "v_cancelling s" and "handle_exception err s = (b, t)"
  shows "if b then v_deferred_error t = Some err \<and>
      (\<exists>h \<in> set (v_handlers s). v_ip t = h_finally h \<and> (h_target h = Gate \<or> h_finally h \<noteq> Some 0))
    else (\<forall>h \<in> set (v_handlers s). h_target h \<noteq> Gate \<and> h_finally h = Some 0) \<and> v_handlers t = []"
proof -
  have none: "next_handler True hs = None \<longleftrightarrow> (\<forall>h \<in> set hs. h_target h \<noteq> Gate \<and> h_finally h = Some 0)" for hs
    by (induction hs) auto
  have some: "next_handler True hs = Some (h, rest) \<Longrightarrow> h_target h = Gate \<or> h_finally h \<noteq> Some 0" for hs h rest
    by (induction hs) (auto split: if_splits)
  show ?thesis
  proof (cases "next_handler True (v_handlers s)")
    case None
    with assms none show ?thesis by (auto simp: handle_exception_def)
  next
    case (Some hr)
    obtain h rest where hr: "hr = (h, rest)" by force
    with Some some next_handler_mem have h: "h \<in> set (v_handlers s)" "h_target h = Gate \<or> h_finally h \<noteq> Some 0"
      by blast+
    from assms Some hr have b: "b" "t = enter_finally err h (s\<lparr>v_handlers := rest\<rparr>)"
      by (auto simp: handle_exception_def Let_def split: handler_target.splits)
    then have "v_deferred_error t = Some err" "v_ip t = h_finally h" by (simp_all add: enter_finally_def Let_def)
    with b h show ?thesis by auto
  qed
qed


definition cancelled_vm :: vm where
  "cancelled_vm = in_try_vm\<lparr>v_cancelling := True, v_handlers := v_handlers in_try_vm @
     [\<lparr>h_target = At (Some 4), h_finally = Some 5, h_stack = 0, h_frames = 0\<rparr>]\<rparr>"

theorem cancellation_skips_catch_witness:
  "v_cancelling cancelled_vm \<and> fst (handle_exception (limit_exceeded ''x'') cancelled_vm) \<and>
   v_deferred_error (snd (handle_exception (limit_exceeded ''x'') cancelled_vm)) = Some (limit_exceeded ''x'')"
proof -
  have "v_cancelling cancelled_vm" by (simp add: cancelled_vm_def)
  moreover have "fst (handle_exception (limit_exceeded ''x'') cancelled_vm)"
    by (simp add: handle_exception_def cancelled_vm_def in_try_vm_def Let_def)
  ultimately show ?thesis
    using cancellation_skips_catch[of cancelled_vm "limit_exceeded ''x''" True
        "snd (handle_exception (limit_exceeded ''x'') cancelled_vm)"] by (simp add: prod_eq_iff)
qed

section \<open>Returns through finally blocks\<close>

lemma drop_handlers_same: "(\<forall>h \<in> set (v_handlers s). h_frames h \<le> length (v_frames s)) \<Longrightarrow> drop_handlers s = s"
  by (cases "v_handlers s") (auto simp: drop_handlers_def)

text \<open>C10: A return inside a \<^verbatim>\<open>try\<close> with a finally block runs the block and then completes. \<^verbatim>\<open>RETURN\<close> goes
  to the finally block and keeps the frame. Let \<open>t\<close> be any state at the end of the block that has the
  same callers and handlers, no deferred error and the return still deferred: \<^verbatim>\<open>FINALLY_END\<close> does there what
  \<^verbatim>\<open>RETURN\<close> does on the returned value without the handlers of the frame. So all enclosing handlers of the
  same frame, with their finally blocks, are dropped, not run. The frame must restore no module context,
  and the handler that is left on top must not be the gate of a caller, which would be popped.\<close>

theorem return_through_finally:
  assumes "v_stack s = v # vs" and "v_frames s = f # fs" and "v_handlers s = h # hs"
    and "h_frames h = length (v_frames s)" and "h_finally h \<noteq> Some 0"
    and "v_frames t = f' # fs" and "fr_ctx f' = None" and "v_handlers t = hs"
    and "v_deferred_return t = v_deferred_return (snd (op_return s))" and "v_deferred_error t = None"
    and "hs \<noteq> [] \<and> h_target (hd hs) = Gate \<longrightarrow> h_frames (hd hs) = length (v_frames s)"
  shows "v_ip (snd (op_return s)) = h_finally h \<and> v_frames (snd (op_return s)) = v_frames s \<and>
    op_finally_end t = op_return (t\<lparr>v_stack := v # v_stack t, v_deferred_return := None,
      v_handlers := dropWhile (\<lambda>k. length fs < h_frames k) hs\<rparr>)"
proof -
  let ?hs = "dropWhile (\<lambda>k. length fs < h_frames k) hs"
  have r: "op_return s = (Inr None, s\<lparr>v_stack := vs, v_handlers := hs, v_deferred_return := Some v,
      v_deferred_return_depth := length hs, v_ip := h_finally h\<rparr>)"
    using assms(1-5) by (simp add: op_return_def bindR_def pop_def reading_def thenR_def modify_def ret_def)
  have gate: "dropWhile (\<lambda>k. length fs < h_frames k) (v_handlers (pop_gate t)) = ?hs"
    using assms(2,8,11) by (auto simp: pop_gate_def split: list.splits)
  have pg: "pop_gate t = t\<lparr>v_handlers := v_handlers (pop_gate t)\<rparr>"
    by (simp add: pop_gate_def split: list.split)
  have top: "op_return (t\<lparr>v_stack := v # v_stack t, v_deferred_return := None, v_handlers := ?hs\<rparr>) =
      leave_frame f' v (t\<lparr>v_deferred_return := None, v_handlers := ?hs, v_frames := fs\<rparr>)"
  proof (cases ?hs)
    case Nil
    show ?thesis unfolding Nil using assms(6,7)
      by (simp add: op_return_def bindR_def pop_def reading_def thenR_def modify_def restore_ctx_def)
  next
    case (Cons k ks)
    then have "\<not> length fs < h_frames k" by (metis hd_dropWhile list.discI list.sel(1))
    then show ?thesis unfolding Cons using assms(6,7)
      by (simp add: op_return_def bindR_def pop_def reading_def thenR_def modify_def restore_ctx_def)
  qed
  have "op_finally_end t = leave_frame f' v (pop_gate t\<lparr>v_deferred_return := None, v_frames := fs\<rparr>)"
    using assms(6,9,10) r by (simp add: op_finally_end_def Let_def pop_gate_def split: list.split)
  also have "\<dots> = leave_frame f' v (t\<lparr>v_deferred_return := None, v_handlers := ?hs, v_frames := fs\<rparr>)"
    unfolding leave_frame_def drop_handlers_def using gate
    by (subst pg) (simp add: pop_gate_def split: list.split)
  finally show ?thesis using r top by simp
qed

definition plain_frame :: frame where
  "plain_frame = \<lparr>fr_return_ip = Some 3, fr_locals = [], fr_fn_name = py ''f'', fr_call_pos = None,
     fr_call_path = None, fr_closure = None, fr_array = None, fr_slots = Map.empty, fr_ctx = None\<rparr>"

definition returning_vm :: vm where
  "returning_vm = throwing_vm\<lparr>v_stack := [VInt 1], v_frames := [plain_frame],
     v_handlers := [\<lparr>h_target = At (Some 4), h_finally = Some 5, h_stack = 0, h_frames = 1\<rparr>]\<rparr>"

definition after_finally_vm :: vm where
  "after_finally_vm = (snd (op_return returning_vm))\<lparr>v_stack := [VInt 9], v_frames := [plain_frame\<lparr>fr_locals := []\<rparr>]\<rparr>"

theorem return_through_finally_witness:
  "v_ip (snd (op_return returning_vm)) = Some 5 \<and>
   op_finally_end after_finally_vm = op_return (after_finally_vm\<lparr>v_stack := [VInt 1, VInt 9],
     v_deferred_return := None, v_handlers := []\<rparr>)"
proof -
  have s: "v_stack returning_vm = [VInt 1]" "v_frames returning_vm = [plain_frame]" "fr_ctx plain_frame = None"
    "v_handlers returning_vm = [\<lparr>h_target = At (Some 4), h_finally = Some 5, h_stack = 0, h_frames = 1\<rparr>]"
    "v_deferred_error returning_vm = None"
    by (simp_all add: returning_vm_def plain_frame_def throwing_vm_def new_vm_def)
  then have t: "v_handlers after_finally_vm = []" "v_deferred_error after_finally_vm = None"
    "v_deferred_return after_finally_vm = v_deferred_return (snd (op_return returning_vm))"
    by (simp_all add: after_finally_vm_def op_return_def bindR_def pop_def reading_def thenR_def modify_def ret_def)
  have st: "v_stack after_finally_vm = [VInt 9]" "v_frames after_finally_vm = [plain_frame\<lparr>fr_locals := []\<rparr>]"
    by (simp_all add: after_finally_vm_def)
  show ?thesis
    using return_through_finally[OF s(1,2,4), of after_finally_vm "plain_frame\<lparr>fr_locals := []\<rparr>"] s t st
    by simp
qed

text \<open>C11: A return through a finally block does not restore the module of the caller. When the frame
  carries the context of a caller in another module, \<^verbatim>\<open>RETURN\<close> goes back to it, but the deferred return
  of \<^verbatim>\<open>FINALLY_END\<close> pops the same frame, goes to the address in the caller and keeps the code, functions
  and globals of the callee.\<close>

theorem deferred_return_keeps_callee_context:
  assumes "v_stack s = v # vs" and "v_frames s = f # fs" and "v_handlers s = h # hs"
    and "h_frames h = length (v_frames s)" and "h_finally h \<noteq> Some 0" and "fr_ctx f = Some c"
    and "fr_return_ip f = Some i" and "v_deferred_error s = None"
  shows "v_ctx (snd (bindR op_return (\<lambda>_. op_finally_end) s)) = v_ctx s \<and>
    v_ip (snd (bindR op_return (\<lambda>_. op_finally_end) s)) = Some i \<and>
    v_ctx (snd (op_return (s\<lparr>v_handlers := []\<rparr>))) = c \<and> v_ip (snd (op_return (s\<lparr>v_handlers := []\<rparr>))) = Some i"
proof (intro conjI)
  have gate: "v_ctx (pop_gate t) = v_ctx t" "v_frames (pop_gate t) = v_frames t"
    "v_deferred_return (pop_gate t) = v_deferred_return t" for t
    by (simp_all add: pop_gate_def split: list.split)
  have "op_return s = (Inr None, s\<lparr>v_stack := vs, v_handlers := hs, v_deferred_return := Some v,
      v_deferred_return_depth := length hs, v_ip := h_finally h\<rparr>)"
    using assms(1-5) by (simp add: op_return_def bindR_def pop_def reading_def thenR_def modify_def ret_def)
  then show "v_ctx (snd (bindR op_return (\<lambda>_. op_finally_end) s)) = v_ctx s"
    "v_ip (snd (bindR op_return (\<lambda>_. op_finally_end) s)) = Some i"
    using assms by (simp_all add: bindR_def op_finally_end_def gate leave_frame_def Let_def drop_handlers_def
        ret_def split: option.split)
  show "v_ctx (snd (op_return (s\<lparr>v_handlers := []\<rparr>))) = c"
    "v_ip (snd (op_return (s\<lparr>v_handlers := []\<rparr>))) = Some i"
    using assms by (simp_all add: op_return_def bindR_def pop_def reading_def thenR_def modify_def ret_def
        leave_frame_def Let_def restore_ctx_def drop_handlers_def split: option.split)
qed

definition other_module :: module_ctx where
  "other_module = (v_ctx throwing_vm)\<lparr>cx_code := [HALT]\<rparr>"

definition cross_module_vm :: vm where
  "cross_module_vm = returning_vm\<lparr>v_frames := [plain_frame\<lparr>fr_ctx := Some other_module\<rparr>]\<rparr>"

theorem deferred_return_keeps_callee_context_witness:
  "cx_code (v_ctx (snd (bindR op_return (\<lambda>_. op_finally_end) cross_module_vm))) = throwing_code \<and>
   cx_code (v_ctx (snd (op_return (cross_module_vm\<lparr>v_handlers := []\<rparr>)))) = [HALT]"
proof -
  let ?f = "plain_frame\<lparr>fr_ctx := Some other_module\<rparr>"
  have s: "v_stack cross_module_vm = [VInt 1]" "v_frames cross_module_vm = [?f]"
    "v_handlers cross_module_vm = [\<lparr>h_target = At (Some 4), h_finally = Some 5, h_stack = 0, h_frames = 1\<rparr>]"
    "v_deferred_error cross_module_vm = None" "cx_code (v_ctx cross_module_vm) = throwing_code"
    by (simp_all add: cross_module_vm_def returning_vm_def throwing_vm_def new_vm_def)
  note bug = deferred_return_keeps_callee_context[OF s(1,2,3), of other_module 3]
  show ?thesis using bug s by (simp add: plain_frame_def other_module_def)
qed

end
