(* ===== verification/VM_Finally.thy ===== *)
theory VM_Finally
  imports VM_Props Compiler_Props
begin

text \<open>
  The states in which \<^verbatim>\<open>finally\<close> blocks are lost although control enters and leaves their \<^verbatim>\<open>try\<close> statements,
  and two compiled programs that reach them. The programs are run symbolically: the compiler's output
  is computed first, then \<open>run_simps\<close> executes it one instruction at a time.
\<close>

section \<open>Finally blocks that do not run\<close>

text \<open>C12: \<^verbatim>\<open>RETURN\<close> skips outer finally blocks. It looks at the innermost handler only: when that handler has
  no finally block (and the call ends no coroutine), the call ends at once. The return is not deferred,
  the machine goes to the return address, and every handler of the frame is gone, those with a finally
  block included; exactly the handlers of the callers stay.\<close>

theorem return_skips_outer_finally:
  assumes "v_stack s = v # vs" and "v_frames s = f # fs" and "v_handlers s = h # hs"
    and "h_finally h = Some 0" and "handlers_nested s" and "v_coroutine s = None \<or> fr_return_ip f \<noteq> None"
    and "op_return s = (r, t)"
  shows "r = Inr None \<and> v_frames t = fs \<and> v_stack t = v # vs \<and> v_ip t = fr_return_ip f \<and>
    v_deferred_return t = v_deferred_return s \<and>
    (\<forall>k \<in> set (v_handlers s). k \<in> set (v_handlers t) \<longleftrightarrow> h_frames k \<le> length fs)"
proof -
  let ?hs = "dropWhile (\<lambda>k. length fs < h_frames k) (v_handlers s)"
  have r: "r = Inr None" "v_frames t = fs" "v_stack t = v # vs" "v_ip t = fr_return_ip f"
    "v_deferred_return t = v_deferred_return s" "v_handlers t = ?hs"
    using assms(1-4,6,7)
    by (auto simp: op_return_def bindR_def pop_def reading_def thenR_def modify_def ret_def leave_frame_def
        Let_def restore_ctx_def drop_handlers_def split: option.splits)
  have "\<forall>k \<in> set ?hs. h_frames k \<le> length fs"
    using nested_handlers_dropWhile[of "v_handlers s" "length (v_frames s)" "length fs"] assms(5)
    by (simp add: handlers_nested_def nested_handlers_def)
  moreover have "k \<in> set ?hs" if "k \<in> set (v_handlers s)" "h_frames k \<le> length fs" for k
    using that by (metis (no_types, lifting) Un_iff leD set_append set_takeWhileD takeWhile_dropWhile_id)
  ultimately show ?thesis using r by auto
qed

definition nested_try_vm :: vm where
  "nested_try_vm = returning_vm\<lparr>v_handlers :=
     [\<lparr>h_target = At (Some 4), h_finally = Some 0, h_stack = 0, h_frames = 1\<rparr>,
      \<lparr>h_target = At (Some 4), h_finally = Some 5, h_stack = 0, h_frames = 1\<rparr>]\<rparr>"

theorem return_skips_outer_finally_witness:
  "v_ip (snd (op_return nested_try_vm)) = Some 3 \<and> v_deferred_return (snd (op_return nested_try_vm)) = None \<and>
   \<lparr>h_target = At (Some 4), h_finally = Some 5, h_stack = 0, h_frames = 1\<rparr> \<notin> set (v_handlers (snd (op_return nested_try_vm)))"
proof -
  have s: "v_stack nested_try_vm = [VInt 1]" "v_frames nested_try_vm = [plain_frame]" "v_coroutine nested_try_vm = None"
    "v_deferred_return nested_try_vm = None"
    "v_handlers nested_try_vm = [\<lparr>h_target = At (Some 4), h_finally = Some 0, h_stack = 0, h_frames = 1\<rparr>,
      \<lparr>h_target = At (Some 4), h_finally = Some 5, h_stack = 0, h_frames = 1\<rparr>]"
    by (simp_all add: nested_try_vm_def returning_vm_def throwing_vm_def new_vm_def)
  then show ?thesis
    using return_skips_outer_finally[OF s(1,2,5), of "fst (op_return nested_try_vm)" "snd (op_return nested_try_vm)"]
    by (simp add: handlers_nested_def plain_frame_def)
qed

text \<open>C13: A catch block can lose its finally block. While a catch block runs, the gate \<open>g\<close> on top of the
  handlers sends an exception to the finally block of its \<^verbatim>\<open>try\<close>. Let the catch block contain a \<^verbatim>\<open>try\<close> with a
  finally block of its own that runs to its end: its body may do anything that leaves the handlers as
  \<^verbatim>\<open>SETUP_TRY\<close> made them, and its finally block anything that leaves them as \<^verbatim>\<open>POP_TRY\<close> made them with nothing
  deferred. Then its \<^verbatim>\<open>FINALLY_END\<close> pops \<open>g\<close>, and an exception raised in the rest of the catch block goes
  to the handlers below \<open>g\<close>; if there are none it is not handled, and the finally block never runs.\<close>

theorem inner_finally_consumes_gate:
  assumes "v_handlers s = g # hs" and "h_target g = Gate"
    and "v_handlers body_end = v_handlers (snd (op_setup_try catch_ip (Some fin_ip) s))"
    and "v_handlers fin_end = v_handlers (snd (op_pop_try body_end))"
    and "v_deferred_error fin_end = None" and "v_deferred_return fin_end = None"
    and "v_handlers rest = v_handlers (snd (op_finally_end fin_end))"
  shows "fst (handle_exception err s) \<and> v_ip (snd (handle_exception err s)) = h_finally g \<and>
    v_deferred_error (snd (handle_exception err s)) = Some err \<and>
    v_handlers rest = hs \<and> (hs = [] \<longrightarrow> handle_exception err rest = (False, rest))"
proof -
  have "v_handlers fin_end = g # hs" using assms(1,3,4)
    by (simp add: op_setup_try_def setup_try_def op_pop_try_def pop_try_def thenR_def bindR_def modify_def ret_def
        advance_def jump_to_def)
  then have "v_handlers rest = hs" using assms(2,5-7)
    by (simp add: op_finally_end_def pop_gate_def Let_def thenR_def bindR_def advance_def modify_def ret_def)
  then show ?thesis using assms(1,2) by (simp add: handle_exception_def enter_finally_def Let_def)
qed

definition in_catch_vm :: vm where
  "in_catch_vm = throwing_vm\<lparr>v_handlers := [\<lparr>h_target = Gate, h_finally = Some 16, h_stack = 0, h_frames = 0\<rparr>]\<rparr>"

definition some_error :: lang_err where
  "some_error = \<lparr>e_kind = py ''thrown'', e_message = py ''nil'', e_path = None, e_pos = None, e_stack = [],
     e_payload = VNil, e_origin = py ''user''\<rparr>"

theorem inner_finally_consumes_gate_witness:
  "v_ip (snd (handle_exception some_error in_catch_vm)) = Some 16 \<and>
   \<not> fst (handle_exception some_error (snd (op_finally_end (snd (op_pop_try
       (snd (op_setup_try (Some 10) (Some (Some 12)) in_catch_vm)))))))"
proof -
  let ?b = "snd (op_setup_try (Some 10) (Some (Some 12)) in_catch_vm)"
  have g: "v_handlers in_catch_vm = [\<lparr>h_target = Gate, h_finally = Some 16, h_stack = 0, h_frames = 0\<rparr>]"
    by (simp add: in_catch_vm_def)
  have "v_deferred_error (snd (op_pop_try ?b)) = None" "v_deferred_return (snd (op_pop_try ?b)) = None"
    by (simp_all add: in_catch_vm_def throwing_vm_def new_vm_def op_setup_try_def setup_try_def op_pop_try_def
        pop_try_def thenR_def bindR_def modify_def ret_def advance_def jump_to_def)
  from inner_finally_consumes_gate[OF g _ refl refl this refl, of some_error] show ?thesis by simp
qed

section \<open>Two compiled programs\<close>

definition run_program :: "nat \<Rightarrow> stmt list \<Rightarrow> cerr + (exn + signal) \<times> vm" where
  "run_program n stmts = map_sum id (\<lambda>t. execute n empty_world (new_vm 100 (code t) (c_functions t) (code_locs t) None))
     (compile_program stmts (new_compiler Map.empty Map.empty {}))"

definition global_value :: "pystr \<Rightarrow> vm \<Rightarrow> val option" where
  "global_value name s = map_option (slot_value (v_heap s))
     (dict_get (=) name (names_at (v_heap s) (cx_module_globals (v_ctx s))))"

definition blk :: "stmt list \<Rightarrow> stmt" where
  "blk = Block here_meta"

definition int_lit :: "int \<Rightarrow> expr" where
  "int_lit i = IntE here_meta i None"

definition mark_x :: stmt where
  "mark_x = ExprStmt here_meta (Assign here_meta (py ''x'') (int_lit 1))"

text \<open>\<^verbatim>\<open>let x = 0  fn f() { try { try { return 1 } catch e {} } catch e {} finally { x = 1 } }  f()\<close>\<close>

definition return_program :: "stmt list" where
  "return_program = [LetS here_meta (py ''x'') (int_lit 0) None False,
     FnDef here_meta (py ''f'') []
       (blk [TryCatch here_meta
          (blk [TryCatch here_meta (blk [Return here_meta (Some (int_lit 1))]) (Some (py ''e'')) (Some (blk [])) None])
          (Some (py ''e'')) (Some (blk [])) (Some (blk [mark_x]))]) None False [] None,
     ExprStmt here_meta (Call here_meta (Var here_meta (py ''f'')) [])]"

text \<open>\<^verbatim>\<open>let x = 0  try { throw nil } catch e { try {} catch e {} finally {}  throw nil } finally { x = 1 }\<close>\<close>

definition rethrow_program :: "stmt list" where
  "rethrow_program = [LetS here_meta (py ''x'') (int_lit 0) None False,
     TryCatch here_meta (blk [Throw here_meta (NilE here_meta)]) (Some (py ''e''))
       (Some (blk [TryCatch here_meta (blk []) (Some (py ''e'')) (Some (blk [])) (Some (blk [])),
                   Throw here_meta (NilE here_meta)]))
       (Some (blk [mark_x]))]"

lemmas execute_numeral = execute.simps(2)[of "pred_numeral k" for k, folded numeral_eq_Suc]

lemma nil_text: "0 < n \<Longrightarrow> value_to_string n d h VNil q = Some (py ''nil'')"
  by (cases n) simp_all

lemmas run_simps = execute_numeral record_instruction_def thenR_def bindR_def modify_def ret_def no_signal_def
  reading_def Let_def py_def raise_def raise_error_def push_def pop_def advance_def jump_to_def
  store_name_def set_global_def set_obj_def binding_namespace_def local_slot_def current_locals_def
  names_at_def get_obj_def op_setup_try_def setup_try_def op_pop_try_def pop_try_def op_throw_def text_of_def nil_text
  deliver_def handle_exception_def enter_catch_def unwind_to_def discard_stale_deferrals_def drop_handlers_def
  op_finally_end_def pop_gate_def op_return_def leave_frame_def restore_ctx_def op_call_def count_call_def
  push_frame_def new_frame_def op_frame_size_def top_frame_def update_top_def next_ip_def
  new_vm_def MAX_STACK_DEPTH_def global_value_def slot_value_def

definition return_code :: "instr list" where
  "return_code = [JUMP (Some 19), FRAME_SIZE 2, SETUP_TRY (Some 10) (Some (Some 12)),
      SETUP_TRY (Some 8) None, PUSH_CONST (CInt 1), RETURN, POP_TRY,
      JUMP (Some 9), STORE_LOCAL_IDX 0, POP_TRY, STORE_LOCAL_IDX 1,
      JUMP (Some 12), PUSH_CONST (CInt 1), STORE (py ''x''), LOAD (py ''x''), POP,
      FINALLY_END, PUSH_CONST CNil, RETURN, PUSH_CONST (CInt 0),
      STORE (py ''x''), CALL (py ''f'') 0, POP, HALT]"

lemma return_compiles: "map_sum id (\<lambda>t. (code t, map (\<lambda>(g, fi). (g, fi_addr fi, fi_params fi, fi_upvalues fi)) (c_functions t), code_locs t = []))
     (compile_program return_program (new_compiler Map.empty Map.empty {})) =
   Inr (return_code, [(py ''f'', 1, [], [])], False)"
  by code_simp

lemma return_runs:
  assumes "locs \<noteq> []" and "fi_addr fi = 1" and "fi_params fi = []" and "fi_upvalues fi = []"
  shows "(case execute 11 empty_world (new_vm 100 return_code [(py ''f'', fi)] locs None) of
     (r, s) \<Rightarrow> (r, global_value (py ''x'') s)) = (Inr SHalt, Some (VInt 0))"
  using assms by (simp add: run_simps return_code_def BUILTIN_CALL_PREFIX_def)

text \<open>The function returns from inside a \<^verbatim>\<open>try\<close> without a finally block that is nested in one with a finally
  block: the call ends, the program halts, and the block never ran.\<close>

lemma return_program_skips_finally:
  "map_sum id (\<lambda>(r, s). (r, global_value (py ''x'') s)) (run_program 11 return_program) =
   Inr (Inr SHalt, Some (VInt 0))"
proof -
  from return_compiles obtain t fi where "compile_program return_program (new_compiler Map.empty Map.empty {}) = Inr t"
    and "code t = return_code" and "c_functions t = [(py ''f'', fi)]" and "code_locs t \<noteq> []"
    and "fi_addr fi = 1" "fi_params fi = []" "fi_upvalues fi = []"
    by (cases "compile_program return_program (new_compiler Map.empty Map.empty {})") auto
  with return_runs[of "code_locs t" fi] show ?thesis by (simp add: run_program_def)
qed

definition rethrow_code :: "instr list" where
  "rethrow_code = [JUMP (Some 1), PUSH_CONST (CInt 0), STORE (py ''x''),
      SETUP_TRY (Some 7) (Some (Some 16)), PUSH_CONST CNil, THROW, POP_TRY,
      STORE (py ''e''), SETUP_TRY (Some 10) (Some (Some 12)), POP_TRY,
      STORE (py ''e''), JUMP (Some 12), FINALLY_END, PUSH_CONST CNil, THROW,
      JUMP (Some 16), PUSH_CONST (CInt 1), STORE (py ''x''), LOAD (py ''x''), POP,
      FINALLY_END, HALT]"

lemma rethrow_compiles:
  "map_sum id (\<lambda>t. (code t, map fst (c_functions t), code_locs t = []))
     (compile_program rethrow_program (new_compiler Map.empty Map.empty {})) = Inr (rethrow_code, [], False)"
  by code_simp

lemma rethrow_runs:
  "locs \<noteq> [] \<Longrightarrow> (case execute 13 empty_world (new_vm 100 rethrow_code [] locs None) of
     (r, s) \<Rightarrow> (r = Inl Unfinished, r = Inr SHalt, global_value (py ''x'') s)) = (False, False, Some (VInt 0))"
  by (simp add: run_simps rethrow_code_def)

text \<open>The catch block contains another \<^verbatim>\<open>try\<close> with a finally block: the exception thrown after it ends the
  program without running the outer finally block.\<close>

lemma rethrow_program_loses_finally:
  "map_sum id (\<lambda>(r, s). (r = Inl Unfinished, r = Inr SHalt, global_value (py ''x'') s))
     (run_program 13 rethrow_program) = Inr (False, False, Some (VInt 0))"
proof -
  from rethrow_compiles obtain t where "compile_program rethrow_program (new_compiler Map.empty Map.empty {}) = Inr t"
    and "code t = rethrow_code" and "c_functions t = []" and "code_locs t \<noteq> []"
    by (cases "compile_program rethrow_program (new_compiler Map.empty Map.empty {})") auto
  with rethrow_runs[of "code_locs t"] show ?thesis by (simp add: run_program_def)
qed

end
