(* ===== verification/Expr_Spec.thy ===== *)
theory Expr_Spec
  imports VM_Props Compiler
begin

text \<open>
  What expressions mean, and which code they become. \<open>eval\<close> is an evaluator on the syntax tree for
  literals, local variables, operators, short circuits, list literals and indexing: a value and a heap,
  or a fault (the kind and the message of an error). \<open>expr_code\<close> is the code of an expression as a
  function of its address. The theories \<open>Expr_Compile\<close> and \<open>Expr_Run\<close> relate them to the compiler
  and to the machine.
\<close>

type_synonym fault = "pystr \<times> pystr"

type_synonym answer = "fault + val \<times> heap"

section \<open>Operators on values\<close>

definition type_fault :: "string \<Rightarrow> val \<Rightarrow> val \<Rightarrow> heap \<Rightarrow> answer" where
  "type_fault verb a b h = Inl (py ''type'', py ''Cannot '' @ py verb @ py '' '' @ builtin_type h a @
     py '' and '' @ builtin_type h b)"

definition py_fault :: "pystr \<Rightarrow> answer" where
  "py_fault msg = Inl (py ''runtime'', msg)"

definition new_object :: "obj \<Rightarrow> heap \<Rightarrow> answer" where
  "new_object x h = Inr (VRef (length h), h @ [x])"

definition num_answer :: "pynum option \<Rightarrow> heap \<Rightarrow> answer" where
  "num_answer r h = (case r of None \<Rightarrow> py_fault overflow_text | Some x \<Rightarrow> Inr (value_of_num x, h))"

definition add_answer :: "val \<Rightarrow> val \<Rightarrow> heap \<Rightarrow> answer" where
  "add_answer a b h = (case (num_value a, num_value b) of
      (Some x, Some y) \<Rightarrow> num_answer (arith (+) float_add x y) h
    | _ \<Rightarrow> (case (str_of a, str_of b) of
        (Some t, Some u) \<Rightarrow> Inr (VStr (t @ u), h)
      | _ \<Rightarrow> (case (list_of h a, list_of h b) of
          (Some xs, Some ys) \<Rightarrow> new_object (OList (xs @ ys)) h
        | _ \<Rightarrow> type_fault ''add'' a b h)))"

definition sub_answer :: "val \<Rightarrow> val \<Rightarrow> heap \<Rightarrow> answer" where
  "sub_answer a b h = (case (num_value a, num_value b) of
      (Some x, Some y) \<Rightarrow> num_answer (arith (-) float_sub x y) h
    | _ \<Rightarrow> type_fault ''subtract'' a b h)"

text \<open>A sequence times an integer, in either order.\<close>

definition repeat_answer :: "val \<Rightarrow> pynum option \<Rightarrow> answer \<Rightarrow> heap \<Rightarrow> answer" where
  "repeat_answer a n fail h = (case n of
      Some (NInt i) \<Rightarrow> (case str_of a of
          Some t \<Rightarrow> Inr (VStr (concat (replicate (nat i) t)), h)
        | None \<Rightarrow> (case list_of h a of
            Some xs \<Rightarrow> new_object (OList (concat (replicate (nat i) xs))) h
          | None \<Rightarrow> fail))
    | _ \<Rightarrow> fail)"

definition mul_answer :: "val \<Rightarrow> val \<Rightarrow> heap \<Rightarrow> answer" where
  "mul_answer a b h = (let fail = type_fault ''multiply'' a b h in case (num_value a, num_value b) of
      (Some x, Some y) \<Rightarrow> num_answer (arith (*) float_mul x y) h
    | (None, y) \<Rightarrow> repeat_answer a y fail h
    | (Some x, None) \<Rightarrow> repeat_answer b (Some x) fail h)"

text \<open>Integers divide to integers, rounding down; everything else divides as floats.\<close>

definition divide_answer :: "string \<Rightarrow> string \<Rightarrow> (int \<Rightarrow> int \<Rightarrow> int) \<Rightarrow> (pyfloat \<Rightarrow> pyfloat \<Rightarrow> pyfloat) \<Rightarrow>
    val \<Rightarrow> val \<Rightarrow> heap \<Rightarrow> answer" where
  "divide_answer verb noun fi ff a b h = (case (a, b) of
      (VInt i, VInt j) \<Rightarrow>
        (if j = 0 then Inl (py ''math'', py ''Integer '' @ py noun @ py '' by zero'') else Inr (VInt (fi i j), h))
    | _ \<Rightarrow> (case (float_value a, float_value b) of
        (Inr x, Inr y) \<Rightarrow>
          (if float_is_zero y then Inl (py ''math'', py ''Float '' @ py noun @ py '' by zero'')
           else Inr (VFloat (ff x y), h))
      | (x, y) \<Rightarrow>
          (if num_value a = None \<or> num_value b = None then type_fault verb a b h
           else case y of
               Inr y \<Rightarrow> (if float_is_zero y then Inl (py ''math'', py ''Float '' @ py noun @ py '' by zero'')
                          else py_fault overflow_text)
             | Inl e \<Rightarrow> py_fault overflow_text)))"

definition equal_answer :: "nat \<Rightarrow> (bool \<Rightarrow> bool) \<Rightarrow> val \<Rightarrow> val \<Rightarrow> heap \<Rightarrow> answer" where
  "equal_answer n f a b h = (case nodus_eq n h a b of Inl e \<Rightarrow> py_fault e | Inr r \<Rightarrow> Inr (VBool (f r), h))"

definition order_answer :: "nat \<Rightarrow> (int \<Rightarrow> bool) \<Rightarrow> val \<Rightarrow> val \<Rightarrow> heap \<Rightarrow> answer" where
  "order_answer n test a b h = (case py_order_values n h test a b of
      CmpIs r \<Rightarrow> Inr (VBool r, h)
    | CmpTypeError \<Rightarrow> type_fault ''compare'' a b h
    | CmpError e \<Rightarrow> py_fault e)"

text \<open>The strict binary operators, by their instruction.\<close>

definition binary_answer :: "nat \<Rightarrow> instr \<Rightarrow> val \<Rightarrow> val \<Rightarrow> heap \<Rightarrow> answer" where
  "binary_answer n i = (case i of
      ADD \<Rightarrow> add_answer | SUB \<Rightarrow> sub_answer | MUL \<Rightarrow> mul_answer
    | DIV \<Rightarrow> divide_answer ''divide'' ''division'' (div) float_div
    | MOD \<Rightarrow> divide_answer ''modulo'' ''modulo'' (mod) float_mod
    | EQ \<Rightarrow> equal_answer n id | NE \<Rightarrow> equal_answer n Not
    | LT \<Rightarrow> order_answer n (\<lambda>c. c < 0) | GT \<Rightarrow> order_answer n (\<lambda>c. c > 0)
    | LE \<Rightarrow> order_answer n (\<lambda>c. c \<le> 0) | GE \<Rightarrow> order_answer n (\<lambda>c. c \<ge> 0)
    | _ \<Rightarrow> (\<lambda>a b h. py_fault []))"

definition negate_answer :: "val \<Rightarrow> heap \<Rightarrow> answer" where
  "negate_answer a h = (case num_value a of
      Some (NInt i) \<Rightarrow> Inr (VInt (- i), h)
    | Some (NFloat f) \<Rightarrow> Inr (VFloat (float_neg f), h)
    | None \<Rightarrow> Inl (py ''type'', py ''Cannot negate '' @ builtin_type h a))"

definition index_fault :: "string \<Rightarrow> nat \<Rightarrow> val \<Rightarrow> (nat \<Rightarrow> val) \<Rightarrow> heap \<Rightarrow> answer" where
  "index_fault what len idx f h = (case (case idx of
        VInt i \<Rightarrow> Some i
      | VFloat x \<Rightarrow> (if float_is_integer x then Some (the (int_of_float x)) else None)
      | _ \<Rightarrow> None) of
      None \<Rightarrow> Inl (py ''index'', py ''List index must be an integer'')
    | Some i \<Rightarrow>
        (if i < 0 \<or> int len \<le> i then Inl (py ''index'', py what @ py '' index out of range: '' @ str_int i)
         else Inr (f (nat i), h)))"

definition index_answer :: "nat \<Rightarrow> (nat \<Rightarrow> pystr) \<Rightarrow> val \<Rightarrow> val \<Rightarrow> heap \<Rightarrow> answer" where
  "index_answer n dflt seq idx h = (case list_of h seq of
      Some xs \<Rightarrow> index_fault ''List'' (length xs) idx (\<lambda>i. xs ! i) h
    | None \<Rightarrow> (case dict_items h seq of
        Some d \<Rightarrow>
          (if \<not> is_valid_map_key idx then Inl (py ''type'', py ''Map keys must be strings or numbers'')
           else case dict_get key_eq idx d of
               Some v \<Rightarrow> Inr (v, h)
             | None \<Rightarrow> (case value_to_string n dflt h idx True of
                 None \<Rightarrow> py_fault (py ''maximum recursion depth exceeded'')
               | Some t \<Rightarrow> Inl (py ''key'', py ''Missing map key: '' @ t)))
      | None \<Rightarrow> (case str_of seq of
          Some t \<Rightarrow> index_fault ''String'' (length t) idx (\<lambda>i. VStr [t ! i]) h
        | None \<Rightarrow> Inl (py ''type'', py ''Indexing is only supported on lists, maps, and strings'' @ thrown_hint h seq))))"

section \<open>Expressions\<close>

text \<open>The evaluator: \<open>n\<close> bounds Python's recursion in comparisons, \<open>dflt\<close> prints opaque objects, \<open>arr\<close> holds
  the local variables and \<open>env\<close> their positions.\<close>

fun eval :: "nat \<Rightarrow> (nat \<Rightarrow> pystr) \<Rightarrow> slot list \<Rightarrow> (pystr \<rightharpoonup> nat) \<Rightarrow> expr \<Rightarrow> heap \<Rightarrow> answer"
  and eval_list :: "nat \<Rightarrow> (nat \<Rightarrow> pystr) \<Rightarrow> slot list \<Rightarrow> (pystr \<rightharpoonup> nat) \<Rightarrow> expr list \<Rightarrow> heap \<Rightarrow> fault + val list \<times> heap"
where
  "eval n dflt arr env (IntE m v u) h = Inr (VInt v, h)"
| "eval n dflt arr env (Num m v u) h = Inr (VFloat v, h)"
| "eval n dflt arr env (BoolE m v) h = Inr (VBool v, h)"
| "eval n dflt arr env (Str m v) h = Inr (VStr v, h)"
| "eval n dflt arr env (NilE m) h = Inr (VNil, h)"
| "eval n dflt arr env (Var m x) h = Inr (slot_value h (arr ! the (env x)), h)"
| "eval n dflt arr env (Unary m op e) h = bindE (eval n dflt arr env e h) (\<lambda>(v, h).
     if op = py ''!'' then Inr (VBool (\<not> is_truthy h v), h) else negate_answer v h)"
| "eval n dflt arr env (Bin m op a b) h = bindE (eval n dflt arr env a h) (\<lambda>(x, h).
     if op = py ''&&'' then
       (if is_truthy h x
        then bindE (eval n dflt arr env b h) (\<lambda>(y, h). Inr (VBool (is_truthy h y), h)) else Inr (VBool False, h))
     else if op = py ''||'' then
       (if is_truthy h x then Inr (VBool True, h)
        else bindE (eval n dflt arr env b h) (\<lambda>(y, h). Inr (VBool (is_truthy h y), h)))
     else bindE (eval n dflt arr env b h) (\<lambda>(y, h). binary_answer n (the (op_instr op)) x y h))"
| "eval n dflt arr env (ListLit m es) h =
     bindE (eval_list n dflt arr env es h) (\<lambda>(vs, h). new_object (OList vs) h)"
| "eval n dflt arr env (Index m a i) h = bindE (eval n dflt arr env a h) (\<lambda>(x, h).
     bindE (eval n dflt arr env i h) (\<lambda>(y, h). index_answer n dflt x y h))"
| "eval n dflt arr env e h = py_fault []"
| "eval_list n dflt arr env [] h = Inr ([], h)"
| "eval_list n dflt arr env (e # es) h = bindE (eval n dflt arr env e h) (\<lambda>(v, h).
     bindE (eval_list n dflt arr env es h) (\<lambda>(vs, h). Inr (v # vs, h)))"

text \<open>The expressions of the fragment, over the given local variables.\<close>

fun simple_expr :: "(pystr \<rightharpoonup> nat) \<Rightarrow> expr \<Rightarrow> bool" where
  "simple_expr env (IntE m v u) = True"
| "simple_expr env (Num m v u) = True"
| "simple_expr env (BoolE m v) = True"
| "simple_expr env (Str m v) = True"
| "simple_expr env (NilE m) = True"
| "simple_expr env (Var m x) = (env x \<noteq> None)"
| "simple_expr env (Unary m op e) = (op \<in> {py ''!'', py ''-''} \<and> simple_expr env e)"
| "simple_expr env (Bin m op a b) =
     ((op \<in> {py ''&&'', py ''||''} \<or> op_instr op \<noteq> None) \<and> simple_expr env a \<and> simple_expr env b)"
| "simple_expr env (ListLit m es) = list_all (simple_expr env) es"
| "simple_expr env (Index m a i) = (simple_expr env a \<and> simple_expr env i)"
| "simple_expr env e = False"

text \<open>The code of an expression placed at an address.\<close>

fun expr_code :: "(pystr \<rightharpoonup> nat) \<Rightarrow> nat \<Rightarrow> expr \<Rightarrow> instr list"
  and list_code :: "(pystr \<rightharpoonup> nat) \<Rightarrow> nat \<Rightarrow> expr list \<Rightarrow> instr list"
where
  "expr_code env p (IntE m v u) = [PUSH_CONST (CInt v)]"
| "expr_code env p (Num m v u) = [PUSH_CONST (CFloat v)]"
| "expr_code env p (BoolE m v) = [PUSH_CONST (CBool v)]"
| "expr_code env p (Str m v) = [PUSH_CONST (CStr v)]"
| "expr_code env p (NilE m) = [PUSH_CONST CNil]"
| "expr_code env p (Var m x) = [LOAD_LOCAL_IDX (the (env x))]"
| "expr_code env p (Unary m op e) = expr_code env p e @ [if op = py ''!'' then instr.NOT else NEG]"
| "expr_code env p (Bin m op a b) =
     (let ca = expr_code env p a; q = p + length ca
      in if op = py ''&&'' \<or> op = py ''||'' then
           (let cb = expr_code env (q + 1) b; r = q + length cb + 3
            in ca @ [if op = py ''&&'' then JUMP_IF_FALSE (Some r) else JUMP_IF_TRUE (Some r)] @ cb @
               [TO_BOOL, JUMP (Some (r + 1)), PUSH_CONST (CBool (op = py ''||''))])
         else ca @ expr_code env q b @ [the (op_instr op)])"
| "expr_code env p (ListLit m es) = list_code env p es @ [BUILD_LIST (length es)]"
| "expr_code env p (Index m a i) =
     (let ca = expr_code env p a in ca @ expr_code env (p + length ca) i @ [INDEX])"
| "expr_code env p e = []"
| "list_code env p [] = []"
| "list_code env p (e # es) = (let c = expr_code env p e in c @ list_code env (p + length c) es)"

end
