(* ===== verification/Expr_Compile.thy ===== *)
theory Expr_Compile
  imports Expr_Spec
begin

text \<open>
  The compiler's \<^verbatim>\<open>compile_expr\<close>, which emits and patches instructions in its state, appends exactly
  \<open>expr_code\<close>.
\<close>

text \<open>The compiler is in a function of the module, where \<open>env\<close> gives the slots of the local variables.\<close>

definition compiling :: "pystr \<Rightarrow> (pystr \<rightharpoonup> nat) \<Rightarrow> comp \<Rightarrow> bool" where
  "compiling M env s \<longleftrightarrow> current_module s = Some M \<and> symbols s = Some (Some M) \<and>
     (\<exists>st. symbol_tables s (Some M) = Some st \<and> in_function st \<and>
       (\<forall>x i. env x = Some i \<longrightarrow>
          (\<exists>y. resolve_local x st = Some y \<and> sym_scope y = Local \<and> sym_index y = Some i)))"

text \<open>Only the code, its locations and the current location differ.\<close>

definition emitted :: "comp \<Rightarrow> instr list \<Rightarrow> comp \<Rightarrow> bool" where
  "emitted s cs t \<longleftrightarrow>
     t = s\<lparr>code := code s @ cs, code_locs := code_locs t, current_loc := comp.current_loc t\<rparr>"

definition emits :: "pystr \<Rightarrow> (pystr \<rightharpoonup> nat) \<Rightarrow> caction \<Rightarrow> (nat \<Rightarrow> instr list) \<Rightarrow> bool" where
  "emits M env c f \<longleftrightarrow> (\<forall>s. compiling M env s \<longrightarrow> (\<exists>t. c s = Inr t \<and> emitted s (f (length (code s))) t))"

lemma emitted_compiling: "emitted s cs t \<Longrightarrow> compiling M env s \<Longrightarrow> compiling M env t"
  by (cases s; cases t) (auto simp: emitted_def compiling_def)

lemma emitted_trans: "emitted s cs t \<Longrightarrow> emitted t ds u \<Longrightarrow> emitted s (cs @ ds) u"
  by (cases s; cases t; cases u) (simp add: emitted_def)

lemma emitted_code: "emitted s cs t \<Longrightarrow> code t = code s @ cs"
  by (cases s; cases t) (simp add: emitted_def)

lemma emitsD:
  assumes "emits M env c f" and "compiling M env s"
  obtains t where "c s = Inr t" and "emitted s (f (length (code s))) t"
  using assms unfolding emits_def by blast

lemma emits_seqs_Nil: "emits M env (seqs []) (\<lambda>p. [])"
  by (auto simp: emits_def emitted_def)

lemma emits_seqs_Cons:
  assumes "emits M env c f" and "emits M env (seqs cs) g"
  shows "emits M env (seqs (c # cs)) (\<lambda>p. f p @ g (p + length (f p)))"
  unfolding emits_def
proof (intro allI impI)
  fix s assume s: "compiling M env s"
  from assms(1) s obtain t where t: "c s = Inr t" "emitted s (f (length (code s))) t" by (rule emitsD)
  from assms(2) emitted_compiling[OF t(2) s] obtain u
    where u: "seqs cs t = Inr u" "emitted t (g (length (code t))) u" by (rule emitsD)
  have "emitted s (f (length (code s)) @ g (length (code s) + length (f (length (code s))))) u"
    using emitted_trans[OF t(2) u(2)] emitted_code[OF t(2)] by simp
  with t u show "\<exists>t. seqs (c # cs) s = Inr t \<and>
      emitted s (f (length (code s)) @ g (length (code s) + length (f (length (code s))))) t" by auto
qed

lemma emits_emitA: "emits M env (emitA i) (\<lambda>p. [i])"
  by (auto simp: emits_def emitA_def emit_def emitted_def)

lemma emits_visit: "in_module M m \<Longrightarrow> emits M env (visit m) (\<lambda>p. [])"
  unfolding emits_def
proof (intro allI impI)
  fix s assume "in_module M m" and s: "compiling M env s"
  then have "set_current_module m s = Inr s"
    by (auto simp: in_module_def set_current_module_def compiling_def)
  then show "\<exists>t. visit m s = Inr t \<and> emitted s [] t"
    by (auto simp: visit_def set_current_loc_def emitted_def split: option.split)
qed

lemma emits_cong: "emits M env c f \<Longrightarrow> (\<And>p. f p = g p) \<Longrightarrow> emits M env c g"
  by (simp add: emits_def)

lemma emits_var:
  assumes "env x = Some i"
  shows "emits M env (compile_var m x) (\<lambda>p. [LOAD_LOCAL_IDX i])"
  unfolding emits_def
proof (intro allI impI)
  fix s assume "compiling M env s"
  then obtain st y where st: "current_module s = Some M" "symbols s = Some (Some M)" "symbol_tables s (Some M) = Some st"
      "in_function st" and y: "resolve_local x st = Some y" "sym_scope y = Local" "sym_index y = Some i"
    using assms unfolding compiling_def by blast
  have "set_table st s = s" using st by (auto simp: set_table_def fun_upd_idem)
  then have "resolve_symbol x s = (Some y, s)"
    using st y by (simp add: resolve_symbol_def cur_table_def resolve_def)
  moreover have "in_function_scope s" using st by (simp add: in_function_scope_def cur_table_def)
  ultimately show "\<exists>t. compile_var m x s = Inr t \<and> emitted s [LOAD_LOCAL_IDX i] t"
    using y by (auto simp: compile_var_def resolving_def emitA_def emit_def emitted_def)
qed

text \<open>A short circuit: the jump over the second operand is patched when its target is known.\<close>

lemma emits_short_circuit:
  assumes a: "emits M env a f" and b: "emits M env b g"
    and ins: "ins \<in> {JUMP_IF_FALSE, JUMP_IF_TRUE}"
  shows "emits M env (seqs [a, emit_idx (ins None) (\<lambda>j. seqs
          [b, emitA TO_BOOL, emit_idx (JUMP None) (\<lambda>k. here (\<lambda>addr. seqs
            [emitA (PUSH_CONST (CBool v)), patchA j (ins (Some addr)),
             here (\<lambda>fin. patchA k (JUMP (Some fin)))]))])])
    (\<lambda>p. let ca = f p; q = p + length ca; cb = g (q + 1); r = q + length cb + 3
         in ca @ [ins (Some r)] @ cb @ [TO_BOOL, JUMP (Some (r + 1)), PUSH_CONST (CBool v)])"
    (is "emits M env ?c ?f")
  unfolding emits_def
proof (intro allI impI)
  fix s assume s: "compiling M env s"
  let ?p = "length (code s)"
  from a s obtain t where t: "a s = Inr t" "emitted s (f ?p) t" by (rule emitsD)
  let ?t = "emit (ins None) t"
  have t': "emitted s (f ?p @ [ins None]) ?t"
    using t(2) by (cases s; cases t) (auto simp: emitted_def emit_def)
  from b emitted_compiling[OF t' s] obtain u where u: "b ?t = Inr u" "emitted ?t (g (length (code ?t))) u"
    by (rule emitsD)
  let ?q = "?p + length (f ?p)"
  have lt: "length (code t) = ?q" "length (code ?t) = ?q + 1"
    using emitted_code[OF t(2)] emitted_code[OF t'] by simp_all
  have u': "emitted s (f ?p @ [ins None] @ g (?q + 1)) u"
    using emitted_trans[OF t' u(2)] lt by simp
  let ?cb = "g (?q + 1)"
  let ?r = "?q + length ?cb + 3"
  let ?done = "emit (PUSH_CONST (CBool v)) (emit (JUMP None) (emit TO_BOOL u))"
  let ?fin = "?done\<lparr>code := (code ?done)[?q := ins (Some ?r), ?r - 1 := JUMP (Some (?r + 1))]\<rparr>"
  have cu: "code u = code s @ f ?p @ [ins None] @ ?cb" using emitted_code[OF u'] by simp
  have run: "?c s = Inr ?fin"
    using t(1) u(1) lt cu
    by (simp add: emit_idx_def here_def emitA_def patchA_def emit_def add.assoc eval_nat_numeral)
  have "emitted s (?f ?p) ?fin"
    using u' by (cases s; cases u) (auto simp: emitted_def emit_def Let_def list_update_append add.assoc)
  with run show "\<exists>t. ?c s = Inr t \<and> emitted s (?f ?p) t" by blast
qed

lemma emits_compile_list:
  assumes "\<And>e. e \<in> set es \<Longrightarrow> emits M env (compile_expr e) (\<lambda>p. expr_code env p e)"
  shows "emits M env (seqs (map compile_expr es)) (\<lambda>p. list_code env p es)"
  using assms
proof (induction es)
  case Nil
  show ?case using emits_seqs_Nil[of M env] by (simp only: list.map list_code.simps)
next
  case (Cons e es)
  show ?case
    by (rule emits_cong[OF emits_seqs_Cons[of M env "compile_expr e" "\<lambda>p. expr_code env p e"
          "map compile_expr es" "\<lambda>p. list_code env p es", folded list.map(2)[of compile_expr]]])
      (use Cons in \<open>simp_all add: Let_def\<close>)
qed

lemma emits_seqs2:
  assumes "emits M env a f" and "emits M env b g"
  shows "emits M env (seqs [a, b]) (\<lambda>p. f p @ g (p + length (f p)))"
  by (rule emits_cong[OF emits_seqs_Cons[OF assms(1) emits_seqs_Cons[OF assms(2) emits_seqs_Nil]]]) simp

lemma emits_seqs3:
  assumes "emits M env a f" and "emits M env b g" and "emits M env c h"
  shows "emits M env (seqs [a, b, c])
    (\<lambda>p. f p @ g (p + length (f p)) @ h (p + length (f p) + length (g (p + length (f p)))))"
  by (rule emits_cong[OF emits_seqs_Cons[OF assms(1) emits_seqs2[OF assms(2,3)]]]) (simp add: add.assoc)

lemma emits_after_visit:
  assumes "in_module M m" and "emits M env c f"
  shows "emits M env (seqs [visit m, c]) f"
  by (rule emits_cong[OF emits_seqs2[OF emits_visit[OF assms(1)] assms(2)]]) simp

lemma emits_bin:
  assumes "emits M env a (\<lambda>p. expr_code env p x)" and "emits M env b (\<lambda>p. expr_code env p y)"
    and "op \<in> {py ''&&'', py ''||''} \<or> op_instr op \<noteq> None"
  shows "emits M env (bin_with op a b) (\<lambda>p. expr_code env p (Bin m op x y))"
proof -
  have ne: "py ''&&'' \<noteq> py ''||''" by (simp add: py_def)
  consider "op = py ''&&''" | "op = py ''||''" | i where "op \<noteq> py ''&&''" "op \<noteq> py ''||''" "op_instr op = Some i"
    using assms(3) by blast
  then show ?thesis
  proof cases
    case 1
    then show ?thesis
      using emits_short_circuit[OF assms(1,2), of JUMP_IF_FALSE False] ne by (simp add: bin_with_def Let_def)
  next
    case 2
    then show ?thesis
      using emits_short_circuit[OF assms(1,2), of JUMP_IF_TRUE True] ne by (simp add: bin_with_def Let_def)
  next
    case 3
    then show ?thesis
      using emits_seqs3[OF assms(1,2) emits_emitA, of i] by (simp add: bin_with_def Let_def)
  qed
qed

lemma emits_compile_expr:
  "simple_expr env e \<Longrightarrow> module_expr M e \<Longrightarrow> emits M env (compile_expr e) (\<lambda>p. expr_code env p e)"
proof (induction env e rule: simple_expr.induct)
  case (6 env m x)
  then obtain i where "env x = Some i" by auto
  with 6 emits_after_visit[OF _ emits_var[of env x i]] show ?case by (simp del: seqs.simps)
next
  case (7 env m op e)
  then have e: "emits M env (compile_expr e) (\<lambda>p. expr_code env p e)" and m: "in_module M m" by auto
  have "emits M env (unary_with op (compile_expr e)) (\<lambda>p. expr_code env p (Unary m op e))"
    using 7(2) emits_seqs2[OF e emits_emitA] by (auto simp: unary_with_def py_def)
  from emits_after_visit[OF m this] show ?case by (simp only: compile_expr.simps)
next
  case (8 env m op a b)
  then have "emits M env (compile_expr a) (\<lambda>p. expr_code env p a)" "emits M env (compile_expr b) (\<lambda>p. expr_code env p b)"
    and m: "in_module M m" by auto
  from emits_after_visit[OF m emits_bin[OF this(1,2), of op m]] 8(3)
  show ?case by (simp del: expr_code.simps seqs.simps)
next
  case (9 env m es)
  then have "emits M env (compile_expr e) (\<lambda>p. expr_code env p e)" if "e \<in> set es" for e
    using that by (auto simp: list_all_iff)
  from emits_compile_list[OF this] 9
    emits_cong[OF emits_seqs_Cons[OF emits_visit emits_seqs2[OF _ emits_emitA]], of M m env "seqs (map compile_expr es)"
      "\<lambda>p. list_code env p es" "BUILD_LIST (length es)" "\<lambda>p. expr_code env p (ListLit m es)"]
  show ?case by (simp del: seqs.simps)
next
  case (10 env m a i)
  then have "emits M env (compile_expr a) (\<lambda>p. expr_code env p a)" "emits M env (compile_expr i) (\<lambda>p. expr_code env p i)"
    and m: "in_module M m" by auto
  from emits_cong[OF emits_seqs_Cons[OF emits_visit[OF m] emits_seqs3[OF this(1,2) emits_emitA[of _ _ INDEX]]],
      of "\<lambda>p. expr_code env p (Index m a i)"]
  show ?case by (simp add: Let_def del: seqs.simps)
qed (auto simp del: seqs.simps intro: emits_after_visit[OF _ emits_emitA])

end
