(* ===== verification/Expr_Run.thy ===== *)
theory Expr_Run
  imports Expr_Spec
begin

text \<open>
  The machine runs \<open>expr_code\<close> as \<open>eval\<close> says: it pushes the value and goes on behind the code, or it raises
  an error of the kind and with the message of the fault.
\<close>

section \<open>Runs\<close>

text \<open>A run of the loop from one state comes to another, whatever it does then.\<close>

definition runs :: "world \<Rightarrow> vm \<Rightarrow> vm \<Rightarrow> bool" where
  "runs W s t \<longleftrightarrow> (\<exists>k. \<forall>n. execute (n + k) W s = execute n W t)"

fun fault_of :: "exn \<Rightarrow> fault option" where
  "fault_of (Lang err) = Some (e_kind err, e_message err)"
| "fault_of (PyError msg) = Some (py ''runtime'', msg)"
| "fault_of e = None"

text \<open>A run comes to an instruction that raises an error, which is delivered to the handlers.\<close>

definition faults :: "world \<Rightarrow> vm \<Rightarrow> fault \<Rightarrow> bool" where
  "faults W s ft \<longleftrightarrow> (\<exists>k e u. fault_of e = Some ft \<and> (\<forall>n. execute (n + k) W s =
     (case deliver e u of (Inr _, v) \<Rightarrow> execute n W v | (Inl e', v) \<Rightarrow> (Inl e', v))))"

lemma runs_refl: "runs W s s"
  unfolding runs_def by (rule exI[of _ 0]) simp

lemma runs_trans: "runs W s t \<Longrightarrow> runs W t u \<Longrightarrow> runs W s u"
  unfolding runs_def by (metis add.assoc)

lemma runs_faults:
  assumes "runs W s t" and "faults W t ft"
  shows "faults W s ft"
proof -
  from assms obtain k j e u where k: "execute (n + k) W s = execute n W t" and e: "fault_of e = Some ft"
    and j: "execute (n + j) W t = (case deliver e u of (Inr _, v) \<Rightarrow> execute n W v | (Inl e', v) \<Rightarrow> (Inl e', v))"
    for n unfolding runs_def faults_def by blast
  have "execute (n + (j + k)) W s = (case deliver e u of (Inr _, v) \<Rightarrow> execute n W v | (Inl e', v) \<Rightarrow> (Inl e', v))"
    for n using k[of "n + j"] j[of n] by (simp add: add.assoc)
  with e show ?thesis unfolding faults_def by blast
qed

text \<open>The limits on steps are off.\<close>

definition unlimited :: "vm \<Rightarrow> bool" where
  "unlimited s \<longleftrightarrow> v_max_steps s = None \<and> v_task_step_budget s = None \<and> \<not> v_budget_exceeded s"

definition at_instr :: "vm \<Rightarrow> nat \<Rightarrow> instr \<Rightarrow> bool" where
  "at_instr s p i \<longleftrightarrow> unlimited s \<and> v_ip s = Some p \<and> p < length (cx_code (v_ctx s)) \<and> cx_code (v_ctx s) ! p = i"

abbreviation ticked :: "vm \<Rightarrow> vm" where
  "ticked s \<equiv> s\<lparr>v_instructions := Suc (v_instructions s)\<rparr>"

lemma execute_at:
  assumes "at_instr s p i"
  shows "execute (Suc n) W s = (case step W (execute n W) i (ticked s) of
      (Inr None, u) \<Rightarrow> execute n W u
    | (Inr (Some sig), u) \<Rightarrow> (Inr sig, u)
    | (Inl e, u) \<Rightarrow> (case deliver e u of (Inr _, v) \<Rightarrow> execute n W v | (Inl e', v) \<Rightarrow> (Inl e', v)))"
  using assms by (simp add: at_instr_def unlimited_def record_instruction_def thenR_def bindR_def modify_def ret_def)

lemma runs_step:
  assumes "at_instr s p i" and "\<And>ex. step W ex i (ticked s) = (Inr None, t)"
  shows "runs W s t"
  unfolding runs_def by (rule exI[of _ 1]) (simp add: execute_at[OF assms(1)] assms(2) del: execute.simps)

lemma faults_step:
  assumes "at_instr s p i" and "\<And>ex. step W ex i (ticked s) = (Inl e, u)" and "fault_of e = Some ft"
  shows "faults W s ft"
  unfolding faults_def
  by (rule exI[of _ 1], rule exI[of _ e], rule exI[of _ u])
    (simp add: execute_at[OF assms(1)] assms(2,3) del: execute.simps)

section \<open>Operations that push an answer\<close>

definition answers :: "vm \<Rightarrow> unit run \<Rightarrow> answer \<Rightarrow> bool" where
  "answers s p r \<longleftrightarrow> (case r of
      Inr (v, h) \<Rightarrow> p s = (Inr (), s\<lparr>v_stack := v # v_stack s, v_heap := h\<rparr>)
    | Inl ft \<Rightarrow> (\<exists>e u. p s = (Inl e, u) \<and> fault_of e = Some ft))"

named_theorems answer_simps \<open>answers of the operations of the machine\<close>

lemma answers_primitive [answer_simps]:
  "answers s (push v) (Inr (v, v_heap s))"
  "answers s (bindR (new_ref x) push) (new_object x (v_heap s))"
  "answers s (raise (PyError m)) (py_fault m)"
  "answers s (runtime_error k m) (Inl (py k, m))"
  by (simp_all add: answers_def push_def modify_def new_object_def new_ref_def alloc_def bindR_def ret_def raise_def
      py_fault_def runtime_error_def raise_error_def build_runtime_error_def Let_def split_beta)

lemma answers_reading [answer_simps]: "answers s (reading p) r \<longleftrightarrow> answers s (p s) r"
  by (cases r) (auto simp: answers_def reading_def)

lemma answers_type_errors [answer_simps]:
  "answers s (binary_type_error verb a b) (type_fault verb a b (v_heap s))"
  "answers s (compare_type_error a b) (type_fault ''compare'' a b (v_heap s))"
  by (simp_all add: answers_def binary_type_error_def compare_type_error_def type_fault_def
      runtime_error_def raise_error_def raise_def build_runtime_error_def Let_def split_beta py_def)

lemma answers_num [answer_simps]: "answers s (push_num r) (num_answer r (v_heap s))"
  by (cases r) (simp_all add: push_num_def num_answer_def answers_primitive)

lemma answers_add: "answers s (add_values a b (binary_type_error ''add'' a b)) (add_answer a b (v_heap s))"
  by (simp add: add_values_def add_answer_def answer_simps split: option.split)

lemma answers_sub: "answers s (sub_values a b (binary_type_error ''subtract'' a b)) (sub_answer a b (v_heap s))"
  by (simp add: sub_values_def sub_answer_def answer_simps split: option.split)

lemma answers_repeat: "answers s fail r \<Longrightarrow> answers s (repeat_value a n fail) (repeat_answer a n r (v_heap s))"
  by (simp add: repeat_value_def repeat_answer_def repeat_list_def answer_simps split: option.split pynum.split)

lemma answers_mul: "answers s (mul_values a b (binary_type_error ''multiply'' a b)) (mul_answer a b (v_heap s))"
  by (auto simp: mul_values_def mul_answer_def Let_def answer_simps split: option.split intro!: answers_repeat)

lemma answers_divide:
  "answers s (divide_with verb noun fi ff a b) (divide_answer verb noun fi ff a b (v_heap s))"
proof -
  have num: "num_value v = None \<Longrightarrow> \<exists>e. float_value v = Inl e"
    "num_value v \<noteq> None \<Longrightarrow> float_value v = Inl e \<Longrightarrow> e = overflow_text" for v e
    by (auto simp: float_value_def overflow_text_def split: option.splits)
  show ?thesis
  proof (cases "\<exists>i j. a = VInt i \<and> b = VInt j")
    case True
    then show ?thesis by (auto simp: divide_with_def divide_answer_def answer_simps)
  next
    case False
    let ?floats = "bindR (to_float b) (\<lambda>fb.
           if float_is_zero fb then runtime_error ''math'' (py ''Float '' @ py noun @ py '' by zero'')
           else bindR (to_float a) (\<lambda>fa. push (VFloat (ff fa fb))))"
    let ?answer = "case (float_value a, float_value b) of
        (Inr x, Inr y) \<Rightarrow>
          (if float_is_zero y then Inl (py ''math'', py ''Float '' @ py noun @ py '' by zero'')
           else Inr (VFloat (ff x y), v_heap s))
      | (x, y) \<Rightarrow>
          (if num_value a = None \<or> num_value b = None then type_fault verb a b (v_heap s)
           else case y of
               Inr y \<Rightarrow> (if float_is_zero y then Inl (py ''math'', py ''Float '' @ py noun @ py '' by zero'')
                          else py_fault overflow_text)
             | Inl e \<Rightarrow> py_fault overflow_text)"
    from False have d: "divide_with verb noun fi ff a b =
        (if num_value a = None \<or> num_value b = None then binary_type_error verb a b else ?floats)"
      unfolding divide_with_def by (cases a; cases b) simp_all
    from False have r: "divide_answer verb noun fi ff a b (v_heap s) = ?answer"
      unfolding divide_answer_def by (cases a; cases b) simp_all
    have bind: "answers s (bindR (raise (PyError e)) f) (py_fault e)" "bindR (ret x) g = g x"
      for e f x and g :: "pyfloat \<Rightarrow> unit run"
      by (simp_all add: answers_def bindR_def raise_def py_fault_def ret_def fun_eq_iff)
    show ?thesis
    proof (cases "num_value a = None \<or> num_value b = None")
      case True
      with num(1)[of a] num(1)[of b] have "?answer = type_fault verb a b (v_heap s)" by (auto split: sum.split)
      with True show ?thesis unfolding d r by (simp add: answer_simps)
    next
      case False
      with num(2)[of a] num(2)[of b] show ?thesis
        unfolding d r to_float_def
        by (cases "float_value a"; cases "float_value b") (auto simp: bind answer_simps)
    qed
  qed
qed

lemma answers_equal:
  "answers s (equal_values f a b) (equal_answer (v_recursion s) f a b (v_heap s))"
  by (simp add: equal_values_def equal_answer_def answer_simps split: sum.split)

lemma answers_order: "answers s (reading (\<lambda>s. case py_order_values (v_recursion s) (v_heap s) test a b of
       CmpIs r \<Rightarrow> push (VBool r) | CmpTypeError \<Rightarrow> compare_type_error a b | CmpError e \<Rightarrow> raise (PyError e)))
    (order_answer (v_recursion s) test a b (v_heap s))"
  by (simp add: order_answer_def answer_simps split: cmp_result.split)

lemma answers_bind_error: "answers s (bindR (runtime_error k m) f) (Inl (py k, m))"
  "answers s (bindR (raise (PyError e)) f) (py_fault e)"
  by (simp_all add: answers_def bindR_def runtime_error_def raise_error_def raise_def py_fault_def
      build_runtime_error_def Let_def split_beta)

lemma bind_ret: "bindR (ret x) f = f x"
  by (simp add: bindR_def ret_def fun_eq_iff)

lemma bind_assoc: "bindR (bindR m f) g = bindR m (\<lambda>x. bindR (f x) g)"
  by (rule ext) (simp add: bindR_def split: prod.split sum.split)

lemma answers_bounds: "answers s (bindR (in_bounds what len idx) (\<lambda>i. push (f i)))
    (index_fault what len idx f (v_heap s))"
  unfolding in_bounds_def to_list_index_def index_fault_def bind_assoc bind_ret
  by (cases idx) (auto simp: bind_ret answers_bind_error answers_primitive)

lemma answers_index:
  "answers s (bindR (read_index W a b) push) (index_answer (v_recursion s) (w_default_str W) a b (v_heap s))"
proof -
  have *: "bindR (reading f) g = reading (\<lambda>s. bindR (f s) g)" for f :: "vm \<Rightarrow> 'a run" and g :: "'a \<Rightarrow> 'b run"
    by (simp add: fun_eq_iff bindR_def reading_def)
  have str: "(case a of VStr t \<Rightarrow> f t | _ \<Rightarrow> g) = (case str_of a of Some t \<Rightarrow> f t | None \<Rightarrow> g)" for f and g :: 'a
    by (cases a) simp_all
  show ?thesis
    unfolding read_index_def index_answer_def * answers_reading text_of_def str
    by (auto simp: answers_bounds answers_bind_error answers_primitive bind_ret bind_assoc * answers_reading
        split: option.split)
qed

lemma answers_unary: "answers s (case num_value a of
      Some (NInt i) \<Rightarrow> push (VInt (- i)) | Some (NFloat f) \<Rightarrow> push (VFloat (float_neg f))
    | None \<Rightarrow> unary_type_error ''negate'' a) (negate_answer a (v_heap s))"
  by (auto simp: negate_answer_def answer_simps split: option.split pynum.split)
    (simp add: answers_def unary_type_error_def runtime_error_def raise_error_def raise_def build_runtime_error_def
      Let_def split_beta py_def)

text \<open>Every strict binary operator is an instruction that pops two values and pushes the answer.\<close>

lemma binary_instr:
  assumes "op_instr op = Some i"
  shows "\<exists>f. (\<forall>W ex. step W ex i = no_signal (binary f)) \<and>
    (\<forall>s a b. answers s (f a b) (binary_answer (v_recursion s) i a b (v_heap s)))"
proof -
  from assms have "i \<in> {ADD, SUB, MUL, DIV, MOD, EQ, NE, LT, GT, LE, GE}"
    by (auto simp: op_instr_def split: if_splits)
  then show ?thesis
    by (elim insertE emptyE)
      (auto simp: binary_answer_def op_add_def op_sub_def op_mul_def op_div_def op_mod_def op_eq_def op_ne_def
        op_compare_def intro!: exI answers_add answers_sub answers_mul answers_divide answers_equal answers_order)
qed

section \<open>The simulation\<close>

definition code_at :: "instr list \<Rightarrow> nat \<Rightarrow> instr list \<Rightarrow> bool" where
  "code_at C p cs \<longleftrightarrow> (\<exists>pre post. C = pre @ cs @ post \<and> length pre = p)"

lemma code_at_append: "code_at C p (as @ bs) \<Longrightarrow> code_at C p as \<and> code_at C (p + length as) bs"
  unfolding code_at_def by (metis append.assoc length_append)

lemma code_at_Cons: "code_at C p (i # cs) \<Longrightarrow> p < length C \<and> C ! p = i \<and> code_at C (Suc p) cs"
  unfolding code_at_def
proof (elim exE conjE)
  fix pre post assume "C = pre @ (i # cs) @ post" "length pre = p"
  then show "p < length C \<and> C ! p = i \<and> (\<exists>pre post. C = pre @ cs @ post \<and> length pre = Suc p)"
    by (intro conjI exI[of _ "pre @ [i]"] exI[of _ post]) auto
qed

text \<open>A state in which values were pushed, at a new address, with a new heap.\<close>

definition pushed :: "vm \<Rightarrow> nat \<Rightarrow> val list \<Rightarrow> heap \<Rightarrow> nat \<Rightarrow> vm" where
  "pushed s q vs h j = s\<lparr>v_ip := Some q, v_stack := vs @ v_stack s, v_heap := h, v_instructions := j\<rparr>"

lemma pushed_fields [simp]: "v_ip (pushed s q vs h j) = Some q" "v_stack (pushed s q vs h j) = vs @ v_stack s"
  "v_heap (pushed s q vs h j) = h" "v_ctx (pushed s q vs h j) = v_ctx s" "v_frames (pushed s q vs h j) = v_frames s"
  "v_recursion (pushed s q vs h j) = v_recursion s" "v_instructions (pushed s q vs h j) = j"
  "unlimited (pushed s q vs h j) = unlimited s"
  by (simp_all add: pushed_def unlimited_def)

lemma pushed_pushed [simp]: "pushed (pushed s q vs h j) q' ws h' j' = pushed s q' (ws @ vs) h' j'"
  by (simp add: pushed_def)

lemma at_pushed: "unlimited s \<Longrightarrow> code_at (cx_code (v_ctx s)) q (i # cs) \<Longrightarrow> at_instr (pushed s q vs h j) q i"
  by (auto simp: at_instr_def dest: code_at_Cons)

text \<open>From one state, the machine comes to the answer on top of another state's stack, or faults.\<close>

definition arrives :: "world \<Rightarrow> vm \<Rightarrow> vm \<Rightarrow> nat \<Rightarrow> fault + val list \<times> heap \<Rightarrow> bool" where
  "arrives W t s q r \<longleftrightarrow> (case r of
      Inr (vs, h) \<Rightarrow> (\<exists>j. runs W t (pushed s q vs h j))
    | Inl ft \<Rightarrow> faults W t ft)"

abbreviation one :: "answer \<Rightarrow> fault + val list \<times> heap" where
  "one r \<equiv> map_sum id (\<lambda>(v, h). ([v], h)) r"

lemma arrives_runs: "runs W t u \<Longrightarrow> arrives W u s q r \<Longrightarrow> arrives W t s q r"
  unfolding arrives_def by (cases r) (auto intro: runs_trans runs_faults)

lemma arrives_base [simp]: "arrives W t (pushed s q [] h j) q' r \<longleftrightarrow> arrives W t s q' r"
  by (cases r) (auto simp: arrives_def)

lemma arrives_bind:
  assumes "arrives W t u q (one r)"
    and "\<And>v h j. r = Inr (v, h) \<Longrightarrow> arrives W (pushed u q [v] h j) s q' (one (k v h))"
  shows "arrives W t s q' (one (bindE r (\<lambda>(v, h). k v h)))"
proof (cases r)
  case (Inr vh)
  obtain v h where vh: "vh = (v, h)" by force
  with assms(1) Inr obtain j where "runs W t (pushed u q [v] h j)" by (auto simp: arrives_def)
  from arrives_runs[OF this assms(2)] Inr vh show ?thesis by simp
qed (use assms(1) in \<open>simp add: arrives_def\<close>)

lemma pushed_count: "(pushed s q vs h j)\<lparr>v_instructions := k\<rparr> = pushed s q vs h k"
  by (simp add: pushed_def)

text \<open>One instruction that answers from the top of the stack.\<close>

lemma arrives_answer:
  assumes "at_instr t p i" and "\<And>ex. step W ex i (ticked t) = no_signal (thenR f advance) u"
    and "u = pushed s q vs h j" and "answers u f r"
  shows "arrives W t s (Suc q) (map_sum id (\<lambda>(v, h). (v # vs, h)) r)"
proof (cases r)
  case (Inl ft)
  with assms(4) obtain e u' where "f u = (Inl e, u')" "fault_of e = Some ft" by (auto simp: answers_def)
  then show ?thesis using faults_step[OF assms(1), of W e u' ft] Inl assms(2)
    by (simp add: arrives_def no_signal_def thenR_def bindR_def)
next
  case (Inr vh)
  obtain v h' where vh: "vh = (v, h')" by force
  with assms(4) Inr have f: "f u = (Inr (), u\<lparr>v_stack := v # v_stack u, v_heap := h'\<rparr>)" by (simp add: answers_def)
  have "no_signal (thenR f advance) u = (Inr None, pushed s (Suc q) (v # vs) h' j)"
    using f by (simp add: no_signal_def thenR_def bindR_def advance_def modify_def ret_def assms(3) pushed_def)
  then have "runs W t (pushed s (Suc q) (v # vs) h' j)" using runs_step[OF assms(1)] assms(2) by simp
  with Inr vh show ?thesis by (auto simp: arrives_def)
qed

lemma arrives_binary:
  assumes "unlimited s" and "code_at (cx_code (v_ctx s)) q (i # cs)" and "\<And>ex. step W ex i = no_signal (binary f)"
    and "\<And>t. v_heap t = h \<Longrightarrow> v_recursion t = v_recursion s \<Longrightarrow> answers t (f a b) r"
  shows "arrives W (pushed s q [b, a] h j) s (Suc q) (one r)"
proof (rule arrives_answer[where vs = "[]", simplified])
  show "at_instr (pushed s q [b, a] h j) q i" by (rule at_pushed[OF assms(1,2)])
  show "step W ex i (ticked (pushed s q [b, a] h j)) = no_signal (thenR (f a b) advance) (pushed s q [] h (Suc j))" for ex
    by (simp add: assms(3) no_signal_def thenR_def[of _ "ret None"] binary_def bindR_def pop_def pushed_def)
  show "answers (pushed s q [] h (Suc j)) (f a b) r" by (rule assms(4)) simp_all
qed simp

lemma arrives_unary:
  assumes "unlimited s" and "code_at (cx_code (v_ctx s)) q (i # cs)" and "\<And>ex. step W ex i = no_signal (unary f)"
    and "\<And>t. v_heap t = h \<Longrightarrow> answers t (f a) r"
  shows "arrives W (pushed s q [a] h j) s (Suc q) (one r)"
proof (rule arrives_answer[where vs = "[]", simplified])
  show "at_instr (pushed s q [a] h j) q i" by (rule at_pushed[OF assms(1,2)])
  show "step W ex i (ticked (pushed s q [a] h j)) = no_signal (thenR (f a) advance) (pushed s q [] h (Suc j))" for ex
    by (simp add: assms(3) no_signal_def thenR_def[of _ "ret None"] unary_def bindR_def pop_def pushed_def)
  show "answers (pushed s q [] h (Suc j)) (f a) r" by (rule assms(4)) simp_all
qed simp

lemma at_start:
  assumes "unlimited s" and "v_ip s = Some p" and "code_at (cx_code (v_ctx s)) p (i # cs)"
  shows "at_instr s p i" and "ticked s = pushed s p [] (v_heap s) (Suc (v_instructions s))"
  using assms by (auto simp: at_instr_def pushed_def dest: code_at_Cons)

lemma arrives_const:
  assumes "unlimited s" and "v_ip s = Some p" and "code_at (cx_code (v_ctx s)) p (PUSH_CONST c # cs)"
  shows "arrives W s s (Suc p) (one (Inr (const_value c, v_heap s)))"
  by (rule arrives_answer[where vs = "[]" and f = "push (const_value c)" and u = "ticked s", simplified])
    (use at_start[OF assms] in \<open>auto simp: answers_def push_def modify_def\<close>)

lemma arrives_local:
  assumes "unlimited s" and "v_ip s = Some p" and "code_at (cx_code (v_ctx s)) p (LOAD_LOCAL_IDX i # cs)"
    and "v_frames s = f # fs" and "fr_array f = Some arr" and "i < length arr"
  shows "arrives W s s (Suc p) (one (Inr (slot_value (v_heap s) (arr ! i), v_heap s)))"
proof (rule arrives_answer[where vs = "[]" and i = "LOAD_LOCAL_IDX i" and f = "push (slot_value (v_heap s) (arr ! i))"
      and u = "ticked s", simplified])
  show "no_signal (op_load_local_idx i) (ticked s) =
      no_signal (thenR (push (slot_value (v_heap s) (arr ! i))) advance) (ticked s)"
    using assms(4-6) by (simp add: no_signal_def thenR_def[of _ "ret None"] op_load_local_idx_def array_slot_def
        top_frame_def bindR_def ret_def gets_def)
qed (use at_start[OF assms(1-3)] in \<open>auto simp: answers_def push_def modify_def\<close>)

text \<open>Jumps.\<close>

lemma runs_jump_if:
  assumes "unlimited s" and "code_at (cx_code (v_ctx s)) q (i # cs)"
    and "\<And>ex. step W ex i = no_signal (op_jump_if sense (Some r))"
  shows "runs W (pushed s q [v] h j) (pushed s (if is_truthy h v = sense then r else Suc q) [] h (Suc j))"
proof (rule runs_step[OF at_pushed[OF assms(1,2)]])
  show "step W ex i (ticked (pushed s q [v] h j)) =
      (Inr None, pushed s (if is_truthy h v = sense then r else Suc q) [] h (Suc j))" for ex
    by (simp add: assms(3) no_signal_def thenR_def bindR_def op_jump_if_def pop_def gets_def jump_to_def advance_def
        modify_def ret_def pushed_def)
qed

lemma runs_jump:
  assumes "unlimited s" and "code_at (cx_code (v_ctx s)) q (JUMP (Some r) # cs)"
  shows "runs W (pushed s q vs h j) (pushed s r vs h (Suc j))"
proof (rule runs_step[OF at_pushed[OF assms]])
  show "step W ex (JUMP (Some r)) (ticked (pushed s q vs h j)) = (Inr None, pushed s r vs h (Suc j))" for ex
    by (simp add: no_signal_def thenR_def bindR_def jump_to_def modify_def ret_def pushed_def)
qed

text \<open>The machine is at the code of an expression, in a frame that holds the local variables.\<close>

definition ready :: "(pystr \<rightharpoonup> nat) \<Rightarrow> slot list \<Rightarrow> vm \<Rightarrow> bool" where
  "ready env arr s \<longleftrightarrow> unlimited s \<and> (\<exists>f fs. v_frames s = f # fs \<and> fr_array f = Some arr) \<and>
     (\<forall>x i. env x = Some i \<longrightarrow> i < length arr)"

lemma ready_pushed [simp]: "ready env arr (pushed s q vs h j) = ready env arr s"
  by (simp add: ready_def)

definition simulated :: "world \<Rightarrow> (pystr \<rightharpoonup> nat) \<Rightarrow> expr \<Rightarrow> bool" where
  "simulated W env e \<longleftrightarrow> (\<forall>arr s p. ready env arr s \<longrightarrow> v_ip s = Some p \<longrightarrow>
     code_at (cx_code (v_ctx s)) p (expr_code env p e) \<longrightarrow>
     arrives W s s (p + length (expr_code env p e)) (one (eval (v_recursion s) (w_default_str W) arr env e (v_heap s))))"

lemma simulatedD:
  assumes "simulated W env e" and "ready env arr s" and "code_at (cx_code (v_ctx s)) q (expr_code env q e)"
  shows "arrives W (pushed s q vs h j) (pushed s q vs h j) (q + length (expr_code env q e))
    (one (eval (v_recursion s) (w_default_str W) arr env e h))"
  using assms unfolding simulated_def
  by (metis (no_types, lifting) pushed_fields(1,3,4,6) ready_pushed)

lemma simulatedD_start:
  assumes "simulated W env e" and "ready env arr s" and "v_ip s = Some p"
    and "code_at (cx_code (v_ctx s)) p (expr_code env p e)"
  shows "arrives W s s (p + length (expr_code env p e)) (one (eval (v_recursion s) (w_default_str W) arr env e (v_heap s)))"
  using assms unfolding simulated_def by blast

lemma ready_unlimited: "ready env arr s \<Longrightarrow> unlimited s"
  by (simp add: ready_def)

lemma simulated_unary:
  assumes e: "simulated W env e"
  shows "simulated W env (Unary m op e)"
  unfolding simulated_def
proof (intro allI impI)
  fix arr p and s :: vm
  let ?c = "expr_code env p e" and ?i = "if op = py ''!'' then instr.NOT else NEG"
  assume s: "ready env arr s" "v_ip s = Some p"
    and "code_at (cx_code (v_ctx s)) p (expr_code env p (Unary m op e))"
  then have c: "code_at (cx_code (v_ctx s)) p ?c" "code_at (cx_code (v_ctx s)) (p + length ?c) [?i]"
    by (auto simp del: append_Cons dest: code_at_append)
  have "arrives W s s (Suc (p + length ?c)) (one (bindE (eval (v_recursion s) (w_default_str W) arr env e (v_heap s))
      (\<lambda>(v, h). if op = py ''!'' then Inr (VBool (\<not> is_truthy h v), h) else negate_answer v h)))"
  proof (rule arrives_bind[OF simulatedD_start[OF e s c(1)]])
    fix v h j
    show "arrives W (pushed s (p + length ?c) [v] h j) s (Suc (p + length ?c))
        (one (if op = py ''!'' then Inr (VBool (\<not> is_truthy h v), h) else negate_answer v h))"
    proof (cases "op = py ''!''")
      case True
      have "arrives W (pushed s (p + length ?c) [v] h j) s (Suc (p + length ?c)) (one (Inr (VBool (\<not> is_truthy h v), h)))"
        by (rule arrives_unary[OF ready_unlimited[OF s(1)] c(2), where f = "\<lambda>a. reading (\<lambda>s. push (VBool (\<not> is_truthy (v_heap s) a)))"])
          (auto simp: True op_not_def answers_reading answers_primitive)
      with True show ?thesis by simp
    next
      case False
      have "arrives W (pushed s (p + length ?c) [v] h j) s (Suc (p + length ?c)) (one (negate_answer v h))"
        by (rule arrives_unary[OF ready_unlimited[OF s(1)] c(2), where f = "\<lambda>a. case num_value a of
            Some (NInt i) \<Rightarrow> push (VInt (- i)) | Some (NFloat f) \<Rightarrow> push (VFloat (float_neg f))
          | None \<Rightarrow> unary_type_error ''negate'' a"]) (use False answers_unary in \<open>auto simp: op_neg_def\<close>)
      with False show ?thesis by simp
    qed
  qed
  then show "arrives W s s (p + length (expr_code env p (Unary m op e)))
      (one (eval (v_recursion s) (w_default_str W) arr env (Unary m op e) (v_heap s)))" by simp
qed

lemma simulated_strict:
  assumes a: "simulated W env a" and b: "simulated W env b"
    and code: "\<And>p. expr_code env p e = expr_code env p a @ expr_code env (p + length (expr_code env p a)) b @ [i]"
    and eval: "\<And>n arr h. eval n (w_default_str W) arr env e h = bindE (eval n (w_default_str W) arr env a h)
      (\<lambda>(x, h). bindE (eval n (w_default_str W) arr env b h) (\<lambda>(y, h). k n x y h))"
    and i: "\<And>ex. step W ex i = no_signal (binary f)"
    and k: "\<And>t x y. answers t (f x y) (k (v_recursion t) x y (v_heap t))"
  shows "simulated W env e"
  unfolding simulated_def
proof (intro allI impI)
  fix arr p and s :: vm
  let ?ca = "expr_code env p a" let ?q = "p + length ?ca" let ?cb = "expr_code env ?q b"
  let ?r = "?q + length ?cb" and ?n = "v_recursion s" and ?d = "w_default_str W"
  assume s: "ready env arr s" "v_ip s = Some p" and "code_at (cx_code (v_ctx s)) p (expr_code env p e)"
  then have ca: "code_at (cx_code (v_ctx s)) p ?ca" and cb: "code_at (cx_code (v_ctx s)) ?q ?cb"
    and ci: "code_at (cx_code (v_ctx s)) ?r [i]"
    using code code_at_append by metis+
  have "arrives W s s (Suc ?r) (one (bindE (eval ?n ?d arr env a (v_heap s))
      (\<lambda>(x, h). bindE (eval ?n ?d arr env b h) (\<lambda>(y, h). k ?n x y h))))"
  proof (rule arrives_bind[OF simulatedD_start[OF a s ca]])
    fix x h j
    show "arrives W (pushed s ?q [x] h j) s (Suc ?r) (one (bindE (eval ?n ?d arr env b h) (\<lambda>(y, h). k ?n x y h)))"
    proof (rule arrives_bind[OF simulatedD[OF b s(1) cb]])
      fix y h' j'
      have "answers t (f x y) (k ?n x y h')" if "v_heap t = h'" "v_recursion t = ?n" for t
        using k[of t x y] that by simp
      from arrives_binary[OF ready_unlimited[OF s(1)] ci i this]
      show "arrives W (pushed (pushed s ?q [x] h j) ?r [y] h' j') s (Suc ?r) (one (k ?n x y h'))" by simp
    qed
  qed
  then show "arrives W s s (p + length (expr_code env p e)) (one (eval ?n ?d arr env e (v_heap s)))"
    by (simp add: code eval add.assoc)
qed

lemma simulated_short_circuit:
  assumes a: "simulated W env a" and b: "simulated W env b" and op: "op = py ''&&'' \<or> op = py ''||''"
  shows "simulated W env (Bin m op a b)"
  unfolding simulated_def
proof (intro allI impI)
  fix arr p and s :: vm
  let ?ca = "expr_code env p a" let ?q = "p + length ?ca" let ?cb = "expr_code env (?q + 1) b"
  let ?r = "?q + length ?cb + 3" and ?n = "v_recursion s" and ?d = "w_default_str W"
  let ?sense = "op = py ''||''"
  let ?jump = "if op = py ''&&'' then JUMP_IF_FALSE (Some ?r) else JUMP_IF_TRUE (Some ?r)"
  have ne: "py ''&&'' \<noteq> py ''||''" by (simp add: py_def)
  assume s: "ready env arr s" "v_ip s = Some p" and "code_at (cx_code (v_ctx s)) p (expr_code env p (Bin m op a b))"
  moreover have code: "expr_code env p (Bin m op a b) =
      ?ca @ [?jump] @ ?cb @ [TO_BOOL] @ [JUMP (Some (?r + 1))] @ [PUSH_CONST (CBool ?sense)]"
    unfolding expr_code.simps Let_def by (simp only: op if_True append_Cons append_Nil)
  ultimately have all: "code_at (cx_code (v_ctx s)) p
      (?ca @ [?jump] @ ?cb @ [TO_BOOL] @ [JUMP (Some (?r + 1))] @ [PUSH_CONST (CBool ?sense)])" by (simp only:)
  have ca: "code_at (cx_code (v_ctx s)) p ?ca" and cj: "code_at (cx_code (v_ctx s)) ?q [?jump]"
    and cb: "code_at (cx_code (v_ctx s)) (?q + 1) ?cb"
    and ct: "code_at (cx_code (v_ctx s)) (?q + 1 + length ?cb) [TO_BOOL]"
    and ce: "code_at (cx_code (v_ctx s)) (?q + 2 + length ?cb) [JUMP (Some (?r + 1))]"
    and cp: "code_at (cx_code (v_ctx s)) ?r [PUSH_CONST (CBool ?sense)]"
    using code_at_append[OF all] code_at_append[OF conjunct2[OF code_at_append[OF all]]]
      code_at_append[OF conjunct2[OF code_at_append[OF conjunct2[OF code_at_append[OF all]]]]]
      code_at_append[OF conjunct2[OF code_at_append[OF conjunct2[OF code_at_append[OF conjunct2[OF code_at_append[OF all]]]]]]]
      code_at_append[OF conjunct2[OF code_at_append[OF conjunct2[OF code_at_append[OF conjunct2[OF code_at_append[OF conjunct2[OF code_at_append[OF all]]]]]]]]]
    by (simp_all add: add.assoc eval_nat_numeral)
  note lim = ready_unlimited[OF s(1)]
  have sense: "step W ex ?jump = no_signal (op_jump_if ?sense (Some ?r))" for ex using op ne by auto
  have last: "arrives W (pushed s ?r [] h j) s (Suc ?r) (one (Inr (VBool ?sense, h)))" for h j
    using arrives_const[of "pushed s ?r [] h j" ?r "CBool ?sense"] lim cp by simp
  have second: "arrives W (pushed s (?q + 1) [] h j) s (Suc ?r)
      (one (bindE (eval ?n ?d arr env b h) (\<lambda>(y, h). Inr (VBool (is_truthy h y), h))))" for h j
  proof (rule arrives_bind[OF simulatedD[OF b s(1) cb]])
    fix y h' j'
    let ?t = "pushed s (?q + 1) [] h j" and ?e = "?q + 1 + length ?cb"
    have "arrives W (pushed s ?e [y] h' j') s (Suc ?e) (one (Inr (VBool (is_truthy h' y), h')))"
      by (rule arrives_unary[OF lim ct, where f = "\<lambda>a. reading (\<lambda>s. push (VBool (is_truthy (v_heap s) a)))"])
        (auto simp: op_to_bool_def answers_reading answers_primitive)
    then obtain i where "runs W (pushed s ?e [y] h' j') (pushed s (Suc ?e) [VBool (is_truthy h' y)] h' i)"
      by (auto simp: arrives_def)
    moreover have "runs W (pushed s (Suc ?e) [VBool (is_truthy h' y)] h' i)
        (pushed s (?r + 1) [VBool (is_truthy h' y)] h' (Suc i))"
      using runs_jump[OF lim ce] by (simp add: add.assoc)
    ultimately show "arrives W (pushed ?t ?e [y] h' j') s (Suc ?r) (one (Inr (VBool (is_truthy h' y), h')))"
      using runs_trans by (fastforce simp: arrives_def)
  qed
  have "arrives W s s (Suc ?r) (one (bindE (eval ?n ?d arr env a (v_heap s)) (\<lambda>(x, h).
      if is_truthy h x = ?sense then Inr (VBool ?sense, h)
      else bindE (eval ?n ?d arr env b h) (\<lambda>(y, h). Inr (VBool (is_truthy h y), h)))))"
  proof (rule arrives_bind[OF simulatedD_start[OF a s ca]])
    fix x h j
    show "arrives W (pushed s ?q [x] h j) s (Suc ?r) (one (if is_truthy h x = ?sense then Inr (VBool ?sense, h)
        else bindE (eval ?n ?d arr env b h) (\<lambda>(y, h). Inr (VBool (is_truthy h y), h))))"
      using arrives_runs[OF runs_jump_if[OF lim cj sense]] last second by auto
  qed
  moreover have "eval ?n ?d arr env (Bin m op a b) (v_heap s) = bindE (eval ?n ?d arr env a (v_heap s)) (\<lambda>(x, h).
      if is_truthy h x = ?sense then Inr (VBool ?sense, h)
      else bindE (eval ?n ?d arr env b h) (\<lambda>(y, h). Inr (VBool (is_truthy h y), h)))"
    using op ne by (auto intro!: bindE_cong)
  ultimately show "arrives W s s (p + length (expr_code env p (Bin m op a b)))
     (one (eval ?n ?d arr env (Bin m op a b) (v_heap s)))"
    unfolding code by (simp add: add.assoc eval_nat_numeral)
qed

lemma pop_acc_rev: "v_stack s = rev vs @ st \<Longrightarrow> pop_acc (length vs) acc s = (Inr (vs @ acc), s\<lparr>v_stack := st\<rparr>)"
proof (induction vs arbitrary: s acc rule: rev_induct)
  case Nil
  then show ?case by (cases s) (simp add: ret_def)
next
  case (snoc v vs)
  then show ?case by (simp add: bindR_def pop_def)
qed

lemma arrives_list:
  assumes "\<And>e. e \<in> set es \<Longrightarrow> simulated W env e" and s: "ready env arr s"
    and "code_at (cx_code (v_ctx s)) q (list_code env q es)"
  shows "arrives W (pushed s q us h j) (pushed s q us h j) (q + length (list_code env q es))
    (map_sum id (\<lambda>(vs, h). (rev vs, h)) (eval_list (v_recursion s) (w_default_str W) arr env es h))"
  using assms(1,3)
proof (induction es arbitrary: q us h j)
  case Nil
  show ?case by (auto simp: arrives_def intro: runs_refl)
next
  case (Cons e es)
  let ?c = "expr_code env q e" let ?r = "q + length ?c"
  from Cons.prems(2) have c: "code_at (cx_code (v_ctx s)) q ?c" "code_at (cx_code (v_ctx s)) ?r (list_code env ?r es)"
    by (auto simp: Let_def dest: code_at_append)
  have e: "arrives W (pushed s q us h j) (pushed s q us h j) ?r
      (one (eval (v_recursion s) (w_default_str W) arr env e h))"
    by (rule simulatedD[OF _ s c(1)]) (simp add: Cons.prems(1))
  show ?case
  proof (cases "eval (v_recursion s) (w_default_str W) arr env e h")
    case (Inl ft)
    with e show ?thesis by (simp add: arrives_def)
  next
    case (Inr vh)
    obtain v h' where vh: "vh = (v, h')" by force
    with e Inr obtain i where run: "runs W (pushed s q us h j) (pushed s ?r (v # us) h' i)" by (auto simp: arrives_def)
    have "arrives W (pushed s ?r (v # us) h' i) (pushed s ?r (v # us) h' i) (?r + length (list_code env ?r es))
        (map_sum id (\<lambda>(vs, h). (rev vs, h)) (eval_list (v_recursion s) (w_default_str W) arr env es h'))"
      by (rule Cons.IH) (use Cons.prems(1) c(2) in auto)
    with arrives_runs[OF run this] Inr vh show ?thesis
      by (cases "eval_list (v_recursion s) (w_default_str W) arr env es h'")
        (auto simp: arrives_def Let_def add.assoc)
  qed
qed

lemma eval_list_length: "eval_list n d arr env es h = Inr (vs, h') \<Longrightarrow> length vs = length es"
  by (induction es arbitrary: vs h h') (auto simp: bindE_Inr_iff)

lemma simulated_list:
  assumes "\<And>e. e \<in> set es \<Longrightarrow> simulated W env e"
  shows "simulated W env (ListLit m es)"
  unfolding simulated_def
proof (intro allI impI)
  fix arr p and s :: vm
  let ?c = "list_code env p es" let ?q = "p + length ?c"
  let ?r = "eval_list (v_recursion s) (w_default_str W) arr env es (v_heap s)"
  assume s: "ready env arr s" "v_ip s = Some p"
    and "code_at (cx_code (v_ctx s)) p (expr_code env p (ListLit m es))"
  then have c: "code_at (cx_code (v_ctx s)) p ?c" "code_at (cx_code (v_ctx s)) ?q [BUILD_LIST (length es)]"
    by (auto dest: code_at_append)
  have start: "s = pushed s p [] (v_heap s) (v_instructions s)" using s(2) by (simp add: pushed_def)
  have items: "arrives W s s ?q (map_sum id (\<lambda>(vs, h). (rev vs, h)) ?r)"
    using arrives_list[OF assms s(1) c(1), of "[]" "v_heap s" "v_instructions s"] start by simp
  note len = eval_list_length[of "v_recursion s" "w_default_str W" arr env es "v_heap s"]
  have build: "arrives W (pushed s ?q (rev vs) h j) s (Suc ?q) (one (new_object (OList vs) h))"
    if "length vs = length es" for vs h j
  proof (rule arrives_answer[where vs = "[]" and f = "bindR (new_ref (OList vs)) push", simplified])
    show "at_instr (pushed s ?q (rev vs) h j) ?q (BUILD_LIST (length es))"
      by (rule at_pushed[OF ready_unlimited[OF s(1)] c(2)])
    have "pop_args (length es) (pushed s ?q (rev vs) h (Suc j)) = (Inr vs, pushed s ?q [] h (Suc j))"
      using pop_acc_rev[of "pushed s ?q (rev vs) h (Suc j)" vs "v_stack s" "[]"] that
      by (simp add: pop_args_def pushed_def)
    then show "step W ex (BUILD_LIST (length es)) (ticked (pushed s ?q (rev vs) h j)) =
        no_signal (thenR (bindR (new_ref (OList vs)) push) advance) (pushed s ?q [] h (Suc j))" for ex
      by (simp add: pushed_count no_signal_def thenR_def[of _ "ret None"] op_build_list_def bindR_def[of "pop_args _"]
          bindR_def[of _ "\<lambda>_. ret None"])
    show "answers (pushed s ?q [] h (Suc j)) (bindR (new_ref (OList vs)) push) (new_object (OList vs) h)"
      using answers_primitive(2)[of "pushed s ?q [] h (Suc j)" "OList vs"] by simp
  qed simp
  show "arrives W s s (p + length (expr_code env p (ListLit m es)))
      (one (eval (v_recursion s) (w_default_str W) arr env (ListLit m es) (v_heap s)))"
  proof (cases ?r)
    case (Inl ft)
    with items show ?thesis by (simp add: arrives_def)
  next
    case (Inr vh)
    obtain vs h where vh: "vh = (vs, h)" by force
    with items Inr obtain j where "runs W s (pushed s ?q (rev vs) h j)" by (auto simp: arrives_def)
    from arrives_runs[OF this build[OF len]] Inr vh show ?thesis by simp
  qed
qed

lemma simulated_expr: "simple_expr env e \<Longrightarrow> simulated W env e"
proof (induction env e rule: simple_expr.induct)
  case (6 env m x)
  then obtain i where i: "env x = Some i" by auto
  show ?case
    unfolding simulated_def
  proof (intro allI impI)
    fix arr p and s :: vm
    assume s: "ready env arr s" "v_ip s = Some p" and c: "code_at (cx_code (v_ctx s)) p (expr_code env p (Var m x))"
    then obtain f fs where f: "v_frames s = f # fs" "fr_array f = Some arr" "i < length arr"
      using i by (auto simp: ready_def)
    show "arrives W s s (p + length (expr_code env p (Var m x)))
        (one (eval (v_recursion s) (w_default_str W) arr env (Var m x) (v_heap s)))"
      using arrives_local[OF ready_unlimited[OF s(1)] s(2) _ f] c i by simp
  qed
next
  case (7 env m op e)
  then show ?case using simulated_unary by simp
next
  case (8 env m op a b)
  then have ab: "simulated W env a" "simulated W env b" by simp_all
  show ?case
  proof (cases "op = py ''&&'' \<or> op = py ''||''")
    case True
    then show ?thesis by (rule simulated_short_circuit[OF ab])
  next
    case False
    with 8(3) obtain i where i: "op_instr op = Some i" by auto
    from binary_instr[OF i] obtain f where f: "\<And>W ex. step W ex i = no_signal (binary f)"
      "\<And>s a b. answers s (f a b) (binary_answer (v_recursion s) i a b (v_heap s))" by blast
    show ?thesis
      by (rule simulated_strict[OF ab _ _ f(1), where k = "\<lambda>n. binary_answer n i"])
        (use False i f(2) in \<open>auto simp: Let_def intro!: bindE_cong\<close>)
  qed
next
  case (9 env m es)
  then show ?case by (intro simulated_list) (auto simp: list_all_iff)
next
  case (10 env m a i)
  then have ab: "simulated W env a" "simulated W env i" by simp_all
  show ?case
    by (rule simulated_strict[OF ab, where i = INDEX and f = "\<lambda>x y. bindR (read_index W x y) push"
        and k = "\<lambda>n. index_answer n (w_default_str W)"])
      (auto simp: Let_def op_index_def binary_def answers_index)
qed (auto simp: simulated_def ready_def dest!: arrives_const[where W = W])

end
