(* ===== verification/Expr_Props.thy ===== *)
theory Expr_Props
  imports Expr_Compile Expr_Run Optimizer_Props
begin

text \<open>
  The compiler and the machine together: a compiled expression computes what the evaluator on the syntax
  tree says. Then the types of the results of the operators, and which constant folds of the optimizer
  agree with the machine.
\<close>

section \<open>Compiled expressions\<close>

text \<open>C14: The imperative code generator, which emits instructions and patches the targets of short-circuit
  jumps once they are known, appends exactly the code given by a recursive function of the expression
  and its address, and changes nothing else but locations; it never fails. (Literals, local variables,
  operators, list literals and indexing.)\<close>

theorem compile_expr_is_expr_code:
  assumes "simple_expr env e" and "module_expr M e" and "compiling M env s"
  shows "\<exists>ls l. compile_expr e s = Inr (s\<lparr>code := code s @ expr_code env (length (code s)) e, code_locs := ls,
    current_loc := l\<rparr>)"
proof -
  from emitsD[OF emits_compile_expr[OF assms(1,2)] assms(3)] obtain t
    where t: "compile_expr e s = Inr t" "emitted s (expr_code env (length (code s)) e) t" .
  then show ?thesis unfolding emitted_def by metis
qed

definition fn_x :: comp where
  "fn_x = (new_compiler Map.empty Map.empty {})\<lparr>current_module := Some (py ''main''),
     symbols := Some (Some (py ''main'')),
     symbol_tables := [Some (py ''main'') \<mapsto> sym_define (py ''x'') False (enter_scope FunctionScope new_symtab)]\<rparr>"

definition env_x :: "pystr \<rightharpoonup> nat" where
  "env_x = [py ''x'' \<mapsto> 0]"

text \<open>\<^verbatim>\<open>x && x + 2\<close>\<close>

definition and_expr :: expr where
  "and_expr = Bin here_meta (py ''&&'') (Var here_meta (py ''x''))
     (Bin here_meta (py ''+'') (Var here_meta (py ''x'')) (IntE here_meta 2 None))"

lemma and_expr_simple: "simple_expr env_x and_expr" "module_expr (py ''main'') and_expr"
  by (simp_all add: and_expr_def env_x_def here_meta_def in_module_def op_instr_def py_def)

lemma fn_x_compiling: "compiling (py ''main'') env_x fn_x"
  by (simp add: compiling_def fn_x_def env_x_def new_compiler_def sym_define_def enter_scope_def new_symtab_def
      in_function_def define_scopes_def new_scope_def resolve_local_def scope_define_def take_slot_def
      current_function_scope_def)

theorem compile_expr_is_expr_code_witness:
  "\<exists>ls l. compile_expr and_expr fn_x = Inr (fn_x\<lparr>code := [LOAD_LOCAL_IDX 0, JUMP_IF_FALSE (Some 7), LOAD_LOCAL_IDX 0,
     PUSH_CONST (CInt 2), ADD, TO_BOOL, JUMP (Some 8), PUSH_CONST (CBool False)], code_locs := ls, current_loc := l\<rparr>)"
  using compile_expr_is_expr_code[OF and_expr_simple fn_x_compiling]
  by (simp add: and_expr_def fn_x_def new_compiler_def env_x_def op_instr_def py_def)

text \<open>C2: A compiled expression runs as its evaluation. Whatever code comes before and after, the machine
  at the first instruction of the compiled expression comes to the next instruction behind it with
  exactly the value of the evaluator on top of its stack and with the evaluator's heap, or it raises an
  error with the kind and the message of the evaluator's fault. Operands are evaluated once, from left to
  right, and the right operand of \<^verbatim>\<open>&&\<close> and \<^verbatim>\<open>||\<close> only when the left one does not decide.\<close>

theorem compiled_expr_runs_as_eval:
  assumes "simple_expr env e" and "module_expr M e" and "compiling M env s" and "compile_expr e s = Inr t"
    and "cx_code (v_ctx v) = code t @ rest" and "ready env arr v" and "v_ip v = Some (length (code s))"
  shows "case eval (v_recursion v) (w_default_str W) arr env e (v_heap v) of
      Inr (x, h) \<Rightarrow> \<exists>j. runs W v (v\<lparr>v_ip := Some (length (code t)), v_stack := x # v_stack v, v_heap := h,
        v_instructions := j\<rparr>)
    | Inl ft \<Rightarrow> faults W v ft"
proof -
  let ?c = "expr_code env (length (code s)) e"
  from emitsD[OF emits_compile_expr[OF assms(1,2)] assms(3)] assms(4)
  have t: "code t = code s @ ?c" using emitted_code by (metis Inr_inject)
  then have "code_at (cx_code (v_ctx v)) (length (code s)) ?c" using assms(5) by (auto simp: code_at_def)
  from simulatedD_start[OF simulated_expr[OF assms(1), of W] assms(6,7) this]
  have r: "arrives W v v (length (code t)) (one (eval (v_recursion v) (w_default_str W) arr env e (v_heap v)))"
    using t by simp
  show ?thesis
  proof (cases "eval (v_recursion v) (w_default_str W) arr env e (v_heap v)")
    case (Inl ft)
    with r show ?thesis by (simp add: arrives_def)
  next
    case (Inr xh)
    obtain x h where xh: "xh = (x, h)" by force
    with r Inr obtain j where "runs W v (pushed v (length (code t)) [x] h j)" by (auto simp: arrives_def)
    then have "\<exists>j. runs W v (v\<lparr>v_ip := Some (length (code t)), v_stack := x # v_stack v, v_heap := h,
        v_instructions := j\<rparr>)" unfolding pushed_def append_Cons append_Nil by (rule exI)
    with Inr xh show ?thesis by (simp only: sum.case prod.case)
  qed
qed

definition fn_x_vm :: vm where
  "fn_x_vm = (new_vm 10 [LOAD_LOCAL_IDX 0, JUMP_IF_FALSE (Some 7), LOAD_LOCAL_IDX 0, PUSH_CONST (CInt 2), ADD, TO_BOOL,
     JUMP (Some 8), PUSH_CONST (CBool False), RETURN] [] [] None)\<lparr>v_frames := [plain_frame\<lparr>fr_array := Some [Plain (VInt 5)]\<rparr>]\<rparr>"

theorem compiled_expr_runs_as_eval_witness:
  "\<exists>j. runs empty_world fn_x_vm (fn_x_vm\<lparr>v_ip := Some 8, v_stack := [VBool True],
     v_heap := [Names [], Names []], v_instructions := j\<rparr>)"
proof -
  let ?c = "[LOAD_LOCAL_IDX 0, JUMP_IF_FALSE (Some 7), LOAD_LOCAL_IDX 0, PUSH_CONST (CInt 2), ADD, TO_BOOL,
     JUMP (Some 8), PUSH_CONST (CBool False)]"
  from emitsD[OF emits_compile_expr[OF and_expr_simple] fn_x_compiling] obtain t
    where t: "compile_expr and_expr fn_x = Inr t" "emitted fn_x (expr_code env_x (length (code fn_x)) and_expr) t" .
  have e: "expr_code env_x 0 and_expr = ?c" by (simp add: and_expr_def env_x_def op_instr_def py_def)
  have z: "code fn_x = []" by (simp add: fn_x_def new_compiler_def)
  have c: "code t = ?c" using emitted_code[OF t(2)] e z by simp
  have v: "ready env_x [Plain (VInt 5)] fn_x_vm" "v_ip fn_x_vm = Some (length (code fn_x))" "v_stack fn_x_vm = []"
    "cx_code (v_ctx fn_x_vm) = code t @ [RETURN]" "v_recursion fn_x_vm = 10" "v_heap fn_x_vm = [Names [], Names []]"
    using c z by (simp_all add: ready_def unlimited_def fn_x_vm_def new_vm_def env_x_def)
  have "eval 10 d [Plain (VInt 5)] env_x and_expr h = Inr (VBool True, h)" for d h
    by (simp add: and_expr_def env_x_def slot_value_def is_truthy_def op_instr_def py_def binary_answer_def
        add_answer_def num_answer_def arith_def)
  note evals = this
  have n: "length ?c = 8" by simp
  from compiled_expr_runs_as_eval[OF and_expr_simple fn_x_compiling t(1) v(4,1,2), of empty_world]
  show ?thesis unfolding v(3,5,6) evals c n by (simp only: sum.case prod.case)
qed

end
