(* ===== verification/Operator_Props.thy ===== *)
theory Operator_Props
  imports Expr_Run Optimizer_Props
begin

text \<open>
  The types of the results of the operators, and which constant folds of the optimizer agree with the
  machine.
\<close>

section \<open>Types of results\<close>

text \<open>The type that the result of an operator has, from the types of the operands.\<close>

definition result_type :: "instr \<Rightarrow> pystr \<Rightarrow> pystr \<Rightarrow> pystr" where
  "result_type i a b =
     (if i \<in> {EQ, NE, LT, GT, LE, GE} then py ''bool''
      else if a = py ''float'' \<or> b = py ''float'' then py ''float''
      else if a \<in> {py ''int'', py ''bool''} \<and> b \<in> {py ''int'', py ''bool''}
      then (if i \<in> {DIV, MOD} \<and> (a \<noteq> py ''int'' \<or> b \<noteq> py ''int'') then py ''float'' else py ''int'')
      else if a = py ''string'' \<or> b = py ''string'' then py ''string''
      else py ''list'')"

lemma list_of_type: "list_of h a = Some xs \<Longrightarrow> builtin_type h a = py ''list''"
  by (auto simp: list_of_def obj_of_def builtin_type_def split: val.splits obj.splits option.splits)

lemma new_list_type: "new_object (OList xs) h = Inr (v, h') \<Longrightarrow> builtin_type h' v = py ''list''"
  by (auto simp: new_object_def builtin_type_def get_obj_def)

lemma str_of_type: "str_of a = Some t \<Longrightarrow> builtin_type h a = py ''string''"
  by (cases a) (auto simp: builtin_type_def)

lemma num_type: "num_value a = Some (NInt i) \<Longrightarrow> builtin_type h a \<in> {py ''int'', py ''bool''}"
  "num_value a = Some (NFloat f) \<Longrightarrow> builtin_type h a = py ''float''"
  by (cases a; auto simp: builtin_type_def split: if_splits)+

lemma type_names [simp]: "py ''int'' \<noteq> py ''float''" "py ''bool'' \<noteq> py ''float''" "py ''string'' \<noteq> py ''float''"
  "py ''list'' \<noteq> py ''float''" "py ''int'' \<noteq> py ''bool''" "py ''bool'' \<noteq> py ''int''" "py ''string'' \<noteq> py ''int''"
  "py ''string'' \<noteq> py ''bool''" "py ''list'' \<noteq> py ''int''" "py ''list'' \<noteq> py ''bool''" "py ''list'' \<noteq> py ''string''"
  "py ''int'' \<noteq> py ''string''" "py ''bool'' \<noteq> py ''string''"
  by (simp_all add: py_def)

text \<open>The operators in which integers stay integers.\<close>

lemma arith_type:
  assumes "num_answer (arith fi ff x y) h = Inr (v, h')" and "num_value a = Some x" and "num_value b = Some y"
    and "i \<in> {ADD, SUB, MUL}"
  shows "builtin_type h' v = result_type i (builtin_type h a) (builtin_type h b)"
  using assms(1-3,4) by (cases a; cases b) (auto simp: num_answer_def py_fault_def arith_def builtin_type_def
      result_type_def split: option.splits if_splits)

lemma add_type:
  assumes "add_answer a b h = Inr (v, h')"
  shows "builtin_type h' v = result_type ADD (builtin_type h a) (builtin_type h b)"
proof -
  consider x y where "num_value a = Some x" "num_value b = Some y"
    | t u where "str_of a = Some t" "str_of b = Some u" "v = VStr (t @ u)"
    | xs ys where "list_of h a = Some xs" "list_of h b = Some ys" "new_object (OList (xs @ ys)) h = Inr (v, h')"
    using assms by (auto simp: add_answer_def type_fault_def split: option.splits)
  then show ?thesis
  proof cases
    case 1
    with assms show ?thesis by (auto simp: add_answer_def intro: arith_type)
  next
    case 2
    then show ?thesis using str_of_type[of a _ h] str_of_type[of b _ h] by (simp add: result_type_def builtin_type_def)
  next
    case 3
    then show ?thesis using list_of_type[of h a] list_of_type[of h b] new_list_type by (simp add: result_type_def)
  qed
qed

lemma repeat_type:
  assumes "repeat_answer a n (type_fault w c d h) h = Inr (v, h')"
  shows "builtin_type h' v = builtin_type h a \<and> builtin_type h a \<in> {py ''string'', py ''list''} \<and> (\<exists>i. n = Some (NInt i))"
proof -
  consider t where "str_of a = Some t" "\<exists>i u. n = Some (NInt i) \<and> v = VStr u"
    | xs where "list_of h a = Some xs" "\<exists>i ys. n = Some (NInt i) \<and> new_object (OList ys) h = Inr (v, h')"
    using assms by (auto simp: repeat_answer_def type_fault_def split: option.splits pynum.splits)
  then show ?thesis
  proof cases
    case 1
    then show ?thesis using str_of_type[of a _ h] by (auto simp: builtin_type_def)
  next
    case 2
    then show ?thesis using list_of_type[of h a] new_list_type by auto
  qed
qed

lemma mul_type:
  assumes "mul_answer a b h = Inr (v, h')"
  shows "builtin_type h' v = result_type MUL (builtin_type h a) (builtin_type h b)"
proof -
  consider x y where "num_value a = Some x" "num_value b = Some y"
    | "num_value a = None" "repeat_answer a (num_value b) (type_fault ''multiply'' a b h) h = Inr (v, h')"
    | x where "num_value a = Some x" "num_value b = None" "repeat_answer b (Some x) (type_fault ''multiply'' a b h) h = Inr (v, h')"
    using assms by (auto simp: mul_answer_def Let_def split: option.splits)
  then show ?thesis
  proof cases
    case 1
    with assms show ?thesis by (auto simp: mul_answer_def intro: arith_type)
  next
    case 2
    then show ?thesis using repeat_type[OF 2(2)] num_type(1)[of b _ h] by (auto simp: result_type_def)
  next
    case 3
    then show ?thesis using repeat_type[OF 3(3)] num_type(1)[of a _ h] by (auto simp: result_type_def)
  qed
qed

lemma sub_type:
  "sub_answer a b h = Inr (v, h') \<Longrightarrow> builtin_type h' v = result_type SUB (builtin_type h a) (builtin_type h b)"
  by (auto simp: sub_answer_def type_fault_def split: option.splits intro: arith_type)

lemma divide_type:
  assumes "divide_answer w n fi ff a b h = Inr (v, h')" and "i \<in> {DIV, MOD}"
  shows "builtin_type h' v = result_type i (builtin_type h a) (builtin_type h b)"
proof (cases "\<exists>i j. a = VInt i \<and> b = VInt j")
  case True
  with assms show ?thesis by (auto simp: divide_answer_def result_type_def builtin_type_def split: if_splits)
next
  case False
  have "(\<exists>f. v = VFloat f) \<and> num_value a \<noteq> None \<and> num_value b \<noteq> None"
    using assms(1) False
    by (cases a; cases b) (auto simp: divide_answer_def type_fault_def py_fault_def float_value_def
        split: sum.splits if_splits option.splits)
  with False assms(2) show ?thesis by (cases a; cases b) (auto simp: result_type_def builtin_type_def)
qed

lemma binary_type:
  assumes "op_instr op = Some i" and "binary_answer n i a b h = Inr (v, h')"
  shows "builtin_type h' v = result_type i (builtin_type h a) (builtin_type h b)"
proof -
  from assms(1) consider "i \<in> {EQ, NE, LT, GT, LE, GE}" | "i = ADD" | "i = SUB" | "i = MUL" | "i = DIV" | "i = MOD"
    by (auto simp: op_instr_def split: if_splits)
  then show ?thesis
  proof cases
    case 1
    then have "\<exists>c. v = VBool c" using assms(2)
      by (auto simp: binary_answer_def equal_answer_def order_answer_def py_fault_def type_fault_def
          split: sum.splits cmp_result.splits)
    with 1 show ?thesis by (auto simp: result_type_def builtin_type_def)
  qed (use assms(2) in \<open>auto simp: binary_answer_def intro: add_type sub_type mul_type divide_type\<close>)
qed

text \<open>C36: The result of an operator has the type its operands determine. If an arithmetic instruction or a
  comparison completes on the two values on top of the stack, it replaces them by one value; comparisons
  give booleans, arithmetic on integers and booleans gives integers, except that division and remainder
  give floats when one operand is a boolean, a float operand makes a float, and strings and lists
  concatenate and repeat to their own type.\<close>

theorem operator_result_type:
  assumes "op_instr op = Some i" and "v_stack s = b # a # st" and "step W ex i s = (Inr None, t)"
  shows "\<exists>v. v_stack t = v # st \<and>
    builtin_type (v_heap t) v = result_type i (builtin_type (v_heap s) a) (builtin_type (v_heap s) b)"
proof -
  from binary_instr[OF assms(1)] obtain f where f: "\<And>W ex. step W ex i = no_signal (binary f)"
    "\<And>s a b. answers s (f a b) (binary_answer (v_recursion s) i a b (v_heap s))" by blast
  let ?s = "s\<lparr>v_stack := st\<rparr>"
  have st: "step W ex i s = no_signal (thenR (f a b) advance) ?s"
    by (simp add: f(1) no_signal_def thenR_def[of _ "ret None"] binary_def bindR_def pop_def assms(2))
  show ?thesis
  proof (cases "binary_answer (v_recursion s) i a b (v_heap s)")
    case (Inl ft)
    with f(2)[of ?s a b] obtain e u where "f a b ?s = (Inl e, u)" by (auto simp: answers_def)
    then show ?thesis using assms(3) st by (simp add: no_signal_def thenR_def bindR_def)
  next
    case (Inr vh)
    obtain v h where vh: "vh = (v, h)" by force
    with Inr f(2)[of ?s a b] have "f a b ?s = (Inr (), s\<lparr>v_stack := v # st, v_heap := h\<rparr>)" by (simp add: answers_def)
    then have "t = s\<lparr>v_stack := v # st, v_heap := h, v_ip := map_option Suc (v_ip s)\<rparr>"
      using assms(3) st by (simp add: no_signal_def thenR_def bindR_def advance_def modify_def ret_def)
    with binary_type[OF assms(1), of "v_recursion s" a b "v_heap s" v h] Inr vh show ?thesis by simp
  qed
qed

definition repeat_vm :: vm where
  "repeat_vm = throwing_vm\<lparr>v_stack := [VInt 2, VStr (py ''a'')]\<rparr>"

theorem operator_result_type_witness:
  "\<exists>t v. step empty_world (ret SHalt) MUL repeat_vm = (Inr None, t) \<and> v_stack t = [v] \<and>
     builtin_type (v_heap t) v = py ''string''"
proof -
  have op: "op_instr (py ''*'') = Some MUL" by (simp add: op_instr_def py_def)
  have st: "v_stack repeat_vm = VInt 2 # VStr (py ''a'') # []" by (simp add: repeat_vm_def)
  have "\<exists>t. step empty_world (ret SHalt) MUL repeat_vm = (Inr None, t)"
    by (simp add: st no_signal_def op_mul_def binary_def thenR_def bindR_def pop_def mul_values_def repeat_value_def
        reading_def push_def modify_def advance_def ret_def)
  then obtain t where t: "step empty_world (ret SHalt) MUL repeat_vm = (Inr None, t)" by blast
  from operator_result_type[OF op st t] t show ?thesis by (auto simp: result_type_def builtin_type_def)
qed

section \<open>Constant folding\<close>

lemma value_of_const: "value_of_num x = const_value (const_of_num x)"
  by (cases x) simp_all

lemma num_of_to_num [simp]: "num_of (to_num a) = num_of a" "num_value (const_value a) = num_of a"
  by (cases a; simp)+

lemma arith_fold:
  assumes "py_arith (arith fi ff) (to_num a) (to_num b) = Some c"
  shows "\<exists>x y. num_of a = Some x \<and> num_of b = Some y \<and> num_answer (arith fi ff x y) h = Inr (const_value c, h)"
  using assms by (auto simp: py_arith_def num_answer_def value_of_const split: option.splits)

lemma fold_answer:
  assumes "i \<in> {ADD, SUB, MUL, LT, GT, LE, GE}" and "PURE_BINARY_OPS i = Some f" and "f a b = Some c" and "0 < n"
  shows "binary_answer n i (const_value a) (const_value b) h = Inr (const_value c, h)"
proof -
  obtain k where k: "n = Suc k" using assms(4) by (cases n) auto
  have order: "order_answer n test (const_value a) (const_value b) h = Inr (const_value c, h)"
    if "py_order test a b = Some c" for test
  proof -
    from that consider x y where "num_of a = Some x" "num_of b = Some y" "c = CBool (sign_test test (num_cmp x y))"
      | t u where "a = CStr t" "b = CStr u"
      by (cases a; cases b) (auto simp: py_order_def sign_test_def)
    then show ?thesis
    proof cases
      case 1
      then show ?thesis by (simp add: order_answer_def k)
    next
      case 2
      with that show ?thesis by (auto simp: order_answer_def py_order_def k)
    qed
  qed
  have add: "add_answer (const_value a) (const_value b) h = Inr (const_value c, h)"
    if "py_add (to_num a) (to_num b) = Some c"
  proof (cases "\<exists>t u. a = CStr t \<and> b = CStr u")
    case True
    with that show ?thesis by (auto simp: py_add_def add_answer_def)
  next
    case False
    with that have "py_arith (arith (+) float_add) (to_num a) (to_num b) = Some c"
      by (cases a; cases b) (auto simp: py_add_def)
    from arith_fold[OF this, of h] show ?thesis by (auto simp: add_answer_def)
  qed
  have mul: "mul_answer (const_value a) (const_value b) h = Inr (const_value c, h)"
    if "py_mul (to_num a) (to_num b) = Some c"
  proof (cases "num_of a = None \<or> num_of b = None")
    case True
    with that show ?thesis
      by (cases a; cases b) (auto simp: py_mul_def py_arith_def repeat_str_def mul_answer_def repeat_answer_def Let_def)
  next
    case False
    with that have "py_arith (arith (*) float_mul) (to_num a) (to_num b) = Some c"
      by (cases a; cases b) (auto simp: py_mul_def)
    from arith_fold[OF this, of h] show ?thesis by (auto simp: mul_answer_def)
  qed
  have sub: "sub_answer (const_value a) (const_value b) h = Inr (const_value c, h)"
    if "py_arith (arith (-) float_sub) (to_num a) (to_num b) = Some c"
    using arith_fold[OF that, of h] by (auto simp: sub_answer_def)
  from assms(1) show ?thesis
    by (elim insertE emptyE)
      (use assms(2,3) in \<open>auto simp: PURE_BINARY_OPS_def binary_answer_def intro: order add mul sub\<close>)
qed

lemma instr_of_op: "i \<in> {ADD, SUB, MUL, LT, GT, LE, GE} \<Longrightarrow> \<exists>op. op_instr op = Some i"
  by (elim insertE emptyE; (rule exI[of _ "py ''+''"] exI[of _ "py ''-''"] exI[of _ "py ''*''"] exI[of _ "py ''<''"]
      exI[of _ "py ''>''"] exI[of _ "py ''<=''"] exI[of _ "py ''>=''"]; simp add: op_instr_def py_def; fail))

text \<open>C37: Constant folding agrees with the machine. For addition, subtraction, multiplication and the order
  comparisons, executing the instruction on two constants has exactly the effect of executing the
  \<^verbatim>\<open>PUSH_CONST\<close> of the folded constant.\<close>

theorem constant_folding_agrees:
  assumes "i \<in> {ADD, SUB, MUL, LT, GT, LE, GE}" and "PURE_BINARY_OPS i = Some f" and "f a b = Some c"
    and "v_stack s = const_value b # const_value a # st" and "0 < v_recursion s"
  shows "step W ex i s = step W ex (PUSH_CONST c) (s\<lparr>v_stack := st\<rparr>)"
proof -
  from instr_of_op[OF assms(1)] obtain op where "op_instr op = Some i" by blast
  from binary_instr[OF this] obtain g where g: "\<And>W ex. step W ex i = no_signal (binary g)"
    "\<And>s a b. answers s (g a b) (binary_answer (v_recursion s) i a b (v_heap s))" by blast
  let ?s = "s\<lparr>v_stack := st\<rparr>" and ?g = "g (const_value a) (const_value b)"
  have "step W ex i s = no_signal (thenR ?g advance) ?s"
    by (simp add: g(1) no_signal_def thenR_def[of _ "ret None"] binary_def bindR_def pop_def assms(4))
  moreover have "?g ?s = push (const_value c) ?s"
    using g(2)[of ?s "const_value a" "const_value b"] fold_answer[OF assms(1-3,5)]
    by (simp add: answers_def push_def modify_def)
  ultimately show ?thesis by (simp add: no_signal_def thenR_def bindR_def)
qed

theorem constant_folding_agrees_witness:
  "step empty_world (ret SHalt) MUL repeat_vm =
   step empty_world (ret SHalt) (PUSH_CONST (CStr (py ''aa''))) (repeat_vm\<lparr>v_stack := []\<rparr>)"
  by (rule constant_folding_agrees[where f = "\<lambda>a b. py_mul (to_num a) (to_num b)" and a = "CStr (py ''a'')" and b = "CInt 2"])
    (simp_all add: PURE_BINARY_OPS_def py_mul_def repeat_str_def repeat_vm_def throwing_vm_def new_vm_def
      numeral_2_eq_2 py_def)

text \<open>C38: Constant folding changes the meaning of integer division and of comparing an integer with a
  boolean. Whenever the optimizer folds the division of two integers it pushes a float, where the machine
  pushes the integer quotient rounded down. An integer and a boolean fold to whether they are equal as
  numbers, where the machine always answers false: the two differ exactly on \<open>1 == true\<close> and
  \<open>0 == false\<close>.\<close>

theorem constant_folding_disagrees:
  assumes "PURE_BINARY_OPS DIV = Some f" and "f (CInt i) (CInt j) = Some c" and "PURE_BINARY_OPS EQ = Some g"
  shows "(\<exists>x. c = CFloat x) \<and>
    step W ex DIV (s\<lparr>v_stack := VInt j # VInt i # st\<rparr>) = step W ex (PUSH_CONST (CInt (i div j))) (s\<lparr>v_stack := st\<rparr>) \<and>
    g (CInt k) (CBool t) = Some (CBool (k = of_bool t)) \<and>
    step W ex EQ (s\<lparr>v_stack := VBool t # VInt k # st\<rparr>) = step W ex (PUSH_CONST (CBool False)) (s\<lparr>v_stack := st\<rparr>)"
proof (intro conjI)
  from assms(1,2) have "num_truediv (NInt i) (NInt j) = Some (case c of CFloat x \<Rightarrow> NFloat x) \<and> j \<noteq> 0 \<and> (\<exists>x. c = CFloat x)"
    by (auto simp: PURE_BINARY_OPS_def py_arith_def num_truediv_def split: if_splits pyfloat.splits)
  then show "\<exists>x. c = CFloat x"
    and "step W ex DIV (s\<lparr>v_stack := VInt j # VInt i # st\<rparr>) = step W ex (PUSH_CONST (CInt (i div j))) (s\<lparr>v_stack := st\<rparr>)"
    by (auto simp: no_signal_def op_div_def binary_def thenR_def bindR_def pop_def divide_with_def push_def modify_def)
  show "g (CInt k) (CBool t) = Some (CBool (k = of_bool t))"
    using assms(3) by (auto simp: PURE_BINARY_OPS_def py_eq_def num_cmp_def sgn_0_0)
  show "step W ex EQ (s\<lparr>v_stack := VBool t # VInt k # st\<rparr>) = step W ex (PUSH_CONST (CBool False)) (s\<lparr>v_stack := st\<rparr>)"
    by (simp add: no_signal_def op_eq_def binary_def thenR_def bindR_def pop_def equal_values_def
        nodus_eq_def reading_def push_def modify_def)
qed

theorem constant_folding_disagrees_witness:
  "\<exists>x. map_option (\<lambda>f. f (CInt 7) (CInt 2)) (PURE_BINARY_OPS DIV) = Some (Some (CFloat x)) \<and>
   step empty_world (ret SHalt) DIV (throwing_vm\<lparr>v_stack := [VInt 2, VInt 7]\<rparr>) =
     step empty_world (ret SHalt) (PUSH_CONST (CInt 3)) (throwing_vm\<lparr>v_stack := []\<rparr>) \<and>
   map_option (\<lambda>g. g (CInt 1) (CBool True)) (PURE_BINARY_OPS EQ) = Some (Some (CBool True)) \<and>
   step empty_world (ret SHalt) EQ (throwing_vm\<lparr>v_stack := [VBool True, VInt 1]\<rparr>) =
     step empty_world (ret SHalt) (PUSH_CONST (CBool False)) (throwing_vm\<lparr>v_stack := []\<rparr>)"
proof -
  have "map_option (\<lambda>f. f (CInt 7) (CInt 2)) (PURE_BINARY_OPS DIV) = Some (Some (CFloat (FFin False 7881299347898368 (- 51))))"
    by (simp add: PURE_BINARY_OPS_def py_arith_def num_truediv_def round_ratio_def choose_exp_def bit_length.simps
        make_float_def div_half_even_def pow_neg_def pow_pos_def Let_def)
  then obtain f where f: "PURE_BINARY_OPS DIV = Some f" "f (CInt 7) (CInt 2) = Some (CFloat (FFin False 7881299347898368 (- 51)))"
    by auto
  obtain g where g: "PURE_BINARY_OPS EQ = Some g" by (simp add: PURE_BINARY_OPS_def)
  show ?thesis
    using constant_folding_disagrees[OF f g, of empty_world "ret SHalt" "[]" throwing_vm 1 True] f g
    by (auto simp del: step.simps)
qed

end
