(* ===== verification/Graph_Cycles.thy ===== *)
theory Graph_Cycles
  imports Nodus_Prelude Lexer
begin

text \<open>
  Cycle detection on dependency graphs, \<^verbatim>\<open>src/nodus/support/graph_cycles.py\<close>: an iterative depth-first
  search over an adjacency map. The map is an association list, in the order of the dictionary; the
  stack of pairs of a node and the next index is a list whose head is the top. A colour that the code
  looks up with the default white is a total function. The search ends on every graph, finds a cycle
  exactly when there is one, and what it returns is a cycle.
\<close>

type_synonym adjacency = "(pystr \<times> pystr list) list"

datatype colour = White | Grey | Black

text \<open>\<^verbatim>\<open>path.index(dep)\<close> raises when the node is not in the path.\<close>

datatype cycle_err = NotInPath

definition nodes :: "adjacency \<Rightarrow> pystr list" where
  "nodes adj = map fst adj"

definition deps_of :: "adjacency \<Rightarrow> pystr \<Rightarrow> pystr list" where
  "deps_of adj n = (case map_of adj n of None \<Rightarrow> [] | Some ds \<Rightarrow> ds)"

fun index_of :: "'a list \<Rightarrow> 'a \<Rightarrow> nat option" where
  "index_of [] x = None"
| "index_of (y # ys) x = (if y = x then Some 0 else map_option Suc (index_of ys x))"

text \<open>The measure of the search: every step pushes a white node, or shortens what is left to do on the stack.\<close>

definition whites :: "adjacency \<Rightarrow> (pystr \<Rightarrow> colour) \<Rightarrow> nat" where
  "whites adj col = card {n \<in> set (nodes adj). col n = White}"

lemma whites_grey: "dep \<in> set (nodes adj) \<Longrightarrow> col dep = White \<Longrightarrow> whites adj (col(dep := Grey)) < whites adj col"
  unfolding whites_def by (rule psubset_card_mono) auto

lemma whites_black: "whites adj (col(node := Black)) \<le> whites adj col"
  unfolding whites_def by (rule card_mono) auto

definition remaining :: "adjacency \<Rightarrow> (pystr \<times> nat) list \<Rightarrow> nat" where
  "remaining adj stack = (\<Sum>(n, i) \<leftarrow> stack. Suc (length (deps_of adj n) - i))"

text \<open>The inner loop: the colours when the stack is empty, or the cycle it returns.\<close>

function visit_loop :: "adjacency \<Rightarrow> (pystr \<Rightarrow> colour) \<Rightarrow> pystr list \<Rightarrow> (pystr \<times> nat) list \<Rightarrow>
    cycle_err + pystr list + (pystr \<Rightarrow> colour)" where
  "visit_loop adj col path [] = Inr (Inr col)"
| "visit_loop adj col path ((node, index) # stack) =
     (if index < length (deps_of adj node) then
        (let dep = deps_of adj node ! index; stack' = (node, index + 1) # stack
         in if col dep = Grey then
              (case index_of path dep of None \<Rightarrow> Inl NotInPath | Some start \<Rightarrow> Inr (Inl (drop start path)))
            else if col dep = White \<and> dep \<in> set (nodes adj)
            then visit_loop adj (col(dep := Grey)) (path @ [dep]) ((dep, 0) # stack')
            else visit_loop adj col path stack')
      else visit_loop adj (col(node := Black)) (butlast path) stack)"
  by pat_completeness auto

termination
proof (relation "(\<lambda>(adj, col, path, stack). whites adj col) <*mlex*> measure (\<lambda>(adj, col, path, stack). remaining adj stack)")
  show "wf ((\<lambda>(adj, col, path, stack). whites adj col) <*mlex*> measure (\<lambda>(adj, col, path, stack). remaining adj stack))"
    by (intro wf_mlex) simp
qed (auto simp: mlex_prod_def whites_grey remaining_def le_neq_implies_less[OF whites_black] split: if_splits)

declare visit_loop.simps(2) [simp del]

fun roots_loop :: "adjacency \<Rightarrow> (pystr \<Rightarrow> colour) \<Rightarrow> pystr list \<Rightarrow> cycle_err + pystr list option" where
  "roots_loop adj col [] = Inr None"
| "roots_loop adj col (root # roots) =
     (if col root \<noteq> White then roots_loop adj col roots
      else case visit_loop adj (col(root := Grey)) [root] [(root, 0)] of
          Inl e \<Rightarrow> Inl e
        | Inr (Inl cyc) \<Rightarrow> Inr (Some cyc)
        | Inr (Inr col') \<Rightarrow> roots_loop adj col' roots)"

definition detect_cycle :: "adjacency \<Rightarrow> cycle_err + pystr list option" where
  "detect_cycle adj = roots_loop adj (\<lambda>_. White) (nodes adj)"

definition format_cycle :: "pystr list \<Rightarrow> pystr" where
  "format_cycle cyc = (case cyc of [] \<Rightarrow> [] | n # _ \<Rightarrow> join_str (py '' -> '') (cyc @ [n]))"

section \<open>The invariant of the search\<close>

text \<open>The dependencies between the nodes of the graph.\<close>

definition edges :: "adjacency \<Rightarrow> (pystr \<times> pystr) set" where
  "edges adj = {(n, d). d \<in> set (deps_of adj n) \<and> d \<in> set (nodes adj)}"

lemma deps_dom: "d \<in> set (deps_of adj n) \<Longrightarrow> n \<in> set (nodes adj)"
  by (cases "map_of adj n") (auto simp: deps_of_def nodes_def dest: map_of_SomeD intro: rev_image_eqI)

text \<open>Black nodes are ranked: a dependency between them goes down in rank.\<close>

definition ranked :: "adjacency \<Rightarrow> (pystr \<Rightarrow> colour) \<Rightarrow> bool" where
  "ranked adj col \<longleftrightarrow> (\<exists>rank :: pystr \<Rightarrow> nat. \<exists>N. \<forall>n. col n = Black \<longrightarrow> rank n < N \<and>
     (\<forall>d. (n, d) \<in> edges adj \<longrightarrow> col d = Black \<and> rank d < rank n))"

text \<open>Every node on the stack is a dependency of the one below; the dependencies before its index are done,
  but for the node above.\<close>

definition handled :: "adjacency \<Rightarrow> (pystr \<Rightarrow> colour) \<Rightarrow> pystr option \<Rightarrow> pystr \<Rightarrow> nat \<Rightarrow> bool" where
  "handled adj col up n i \<longleftrightarrow> (\<forall>d \<in> set (take i (deps_of adj n)). d \<in> set (nodes adj) \<longrightarrow> col d = Black \<or> up = Some d)"

fun stacked :: "adjacency \<Rightarrow> (pystr \<Rightarrow> colour) \<Rightarrow> pystr option \<Rightarrow> (pystr \<times> nat) list \<Rightarrow> bool" where
  "stacked adj col up [] = True"
| "stacked adj col up ((n, i) # st) =
     (handled adj col up n i \<and>
      (\<forall>a. up = Some a \<longrightarrow> a \<in> set (deps_of adj n)) \<and> stacked adj col (Some n) st)"

definition searching :: "adjacency \<Rightarrow> (pystr \<Rightarrow> colour) \<Rightarrow> pystr list \<Rightarrow> (pystr \<times> nat) list \<Rightarrow> bool" where
  "searching adj col path stack \<longleftrightarrow> path = rev (map fst stack) \<and> distinct path \<and> set path = {n. col n = Grey} \<and>
     set path \<subseteq> set (nodes adj) \<and> ranked adj col \<and> stacked adj col None stack"

lemma handled_mono: "handled adj col up n i \<Longrightarrow> (\<And>n. col n = Black \<Longrightarrow> col' n = Black) \<Longrightarrow> handled adj col' up n i"
  by (auto simp: handled_def)

lemma stacked_mono:
  assumes "\<And>n. col n = Black \<Longrightarrow> col' n = Black"
  shows "stacked adj col ab st \<Longrightarrow> stacked adj col' ab st"
  by (induction st arbitrary: ab) (auto intro: handled_mono[of adj col _ _ _ col', OF _ assms])

lemma stacked_pop:
  assumes "stacked adj col (Some n) st"
  shows "stacked adj (col(n := Black)) None st"
proof (cases st)
  case (Cons x rest)
  obtain m i where "x = (m, i)" by force
  with assms Cons have "handled adj (col(n := Black)) None m i" and "stacked adj col (Some m) rest"
    by (simp_all add: handled_def) blast
  moreover from this(2) have "stacked adj (col(n := Black)) (Some m) rest" by (rule stacked_mono[rotated]) simp
  ultimately show ?thesis using Cons \<open>x = (m, i)\<close> by simp
qed simp

lemma stacked_chain: "stacked adj col ab st \<Longrightarrow> successively (\<lambda>x y. x \<in> set (deps_of adj y)) (map fst st)"
proof (induction st arbitrary: ab)
  case (Cons x st)
  then show ?case by (cases x; cases st) (auto simp: successively_Cons)
qed simp

text \<open>A node whose dependencies are all black becomes black with the highest rank.\<close>

lemma ranked_black:
  assumes "ranked adj col" and "col n \<noteq> Black" and "\<forall>d. (n, d) \<in> edges adj \<longrightarrow> col d = Black"
  shows "ranked adj (col(n := Black))"
proof -
  from assms(1) obtain rank N where r: "\<forall>m. col m = Black \<longrightarrow> rank m < (N :: nat) \<and>
      (\<forall>d. (m, d) \<in> edges adj \<longrightarrow> col d = Black \<and> rank d < rank m)" unfolding ranked_def by blast
  have "\<forall>m. (col(n := Black)) m = Black \<longrightarrow> (rank(n := N)) m < Suc N \<and>
      (\<forall>d. (m, d) \<in> edges adj \<longrightarrow> (col(n := Black)) d = Black \<and> (rank(n := N)) d < (rank(n := N)) m)"
    using r assms(2,3) by (auto simp: less_Suc_eq)
  then show ?thesis unfolding ranked_def by blast
qed

lemma ranked_grey:
  assumes "ranked adj col" and "col n \<noteq> Black"
  shows "ranked adj (col(n := Grey))"
proof -
  from assms(1) obtain rank N where r: "\<forall>m. col m = Black \<longrightarrow> rank m < (N :: nat) \<and>
      (\<forall>d. (m, d) \<in> edges adj \<longrightarrow> col d = Black \<and> rank d < rank m)" unfolding ranked_def by blast
  then have "\<forall>m. (col(n := Grey)) m = Black \<longrightarrow> rank m < N \<and>
      (\<forall>d. (m, d) \<in> edges adj \<longrightarrow> (col(n := Grey)) d = Black \<and> rank d < rank m)"
    using assms(2) by (metis colour.distinct(5) fun_upd_apply)
  then show ?thesis unfolding ranked_def by blast
qed

definition is_cycle :: "adjacency \<Rightarrow> pystr list \<Rightarrow> bool" where
  "is_cycle adj cyc \<longleftrightarrow> cyc \<noteq> [] \<and> distinct cyc \<and> successively (\<lambda>m n. (m, n) \<in> edges adj) cyc \<and>
     (last cyc, hd cyc) \<in> edges adj"

lemma index_of_Some: "x \<in> set xs \<Longrightarrow> \<exists>i. index_of xs x = Some i \<and> i < length xs \<and> xs ! i = x"
  by (induction xs) fastforce+

lemma successively_drop: "successively P xs \<Longrightarrow> successively P (drop n xs)"
  by (metis append_take_drop_id successively_append_iff)

lemma successively_subset:
  "successively P xs \<Longrightarrow> (\<And>x y. x \<in> set xs \<Longrightarrow> y \<in> set xs \<Longrightarrow> P x y \<Longrightarrow> Q x y) \<Longrightarrow> successively Q xs"
  by (induction xs rule: induct_list012) auto

lemma found_cycle:
  assumes s: "searching adj col path ((node, index) # stack)" and "index < length (deps_of adj node)"
    and dep: "dep = deps_of adj node ! index" and "col dep = Grey"
  obtains start where "index_of path dep = Some start" and "is_cycle adj (drop start path)"
proof -
  from s have path: "path = rev (map fst ((node, index) # stack))" "distinct path" "set path = {n. col n = Grey}"
    "set path \<subseteq> set (nodes adj)" and st: "stacked adj col None ((node, index) # stack)"
    unfolding searching_def by blast+
  with assms(4) have "dep \<in> set path" by simp
  from index_of_Some[OF this] obtain i where i: "index_of path dep = Some i" "i < length path" "path ! i = dep" by blast
  have "successively (\<lambda>y x. x \<in> set (deps_of adj y)) path"
    using stacked_chain[OF st] unfolding path(1) successively_rev .
  then have "successively (\<lambda>m n. (m, n) \<in> edges adj) path"
    by (rule successively_subset) (use path(4) in \<open>auto simp: edges_def subset_iff\<close>)
  moreover have "last (drop i path) = node" using i(2) path(1) by (simp add: last_drop)
  moreover have "hd (drop i path) = dep" using i by (simp add: hd_drop_conv_nth)
  moreover have "(node, dep) \<in> edges adj"
    using assms(2) dep \<open>dep \<in> set path\<close> path(4) by (auto simp: edges_def)
  ultimately have "is_cycle adj (drop i path)" using i(2) path(2)
    by (simp add: is_cycle_def successively_drop)
  with i(1) show thesis by (rule that)
qed

text \<open>The inner loop keeps the invariant: it returns a cycle, or ends with every node it met black.\<close>

fun visited :: "adjacency \<Rightarrow> (pystr \<Rightarrow> colour) \<Rightarrow> cycle_err + pystr list + (pystr \<Rightarrow> colour) \<Rightarrow> bool" where
  "visited adj col (Inl e) = False"
| "visited adj col (Inr (Inl cyc)) = is_cycle adj cyc"
| "visited adj col (Inr (Inr col')) = (searching adj col' [] [] \<and> (\<forall>n. col n \<noteq> White \<longrightarrow> col' n = Black))"

lemma visited_mono: "visited adj c r \<Longrightarrow> (\<And>n. col n \<noteq> White \<Longrightarrow> c n \<noteq> White) \<Longrightarrow> visited adj col r"
  by (induction adj c r rule: visited.induct) auto

lemma visit_loop_result: "searching adj col path stack \<Longrightarrow> visited adj col (visit_loop adj col path stack)"
proof (induction adj col path stack rule: visit_loop.induct)
  case (1 adj col path)
  then have "col n \<noteq> Grey" for n by (auto simp: searching_def)
  with 1 show ?case by (auto simp: searching_def) (metis colour.exhaust)
next
  case (2 adj col path node index stack)
  let ?ds = "deps_of adj node"
  note s = "2.prems"[unfolded searching_def]
  show ?case
  proof (cases "index < length ?ds")
    case True
    let ?d = "?ds ! index" and ?st = "(node, index + 1) # stack"
    have tk: "take (Suc index) ?ds = take index ?ds @ [?d]" using True by (rule take_Suc_conv_app_nth)
    consider "col ?d = Grey" | "col ?d = White" "?d \<in> set (nodes adj)"
      | "col ?d \<noteq> Grey" "col ?d = Black \<or> ?d \<notin> set (nodes adj)" by (cases "col ?d") auto
    then show ?thesis
    proof cases
      case 1
      from found_cycle[OF "2.prems" True refl 1] obtain i
        where "index_of path ?d = Some i" "is_cycle adj (drop i path)" .
      with True 1 show ?thesis by (simp add: visit_loop.simps(2) Let_def)
    next
      case w: 2
      let ?c = "col(?d := Grey)"
      have st: "stacked adj ?c (Some ?d) ?st"
        using s w True by (auto simp: handled_def tk intro!: stacked_mono[of col ?c])
      have g: "set path = {n. col n = Grey}" "set path \<subseteq> set (nodes adj)" using s by blast+
      then have "?d \<notin> set path" "set (path @ [?d]) = {n. ?c n = Grey}" "set (path @ [?d]) \<subseteq> set (nodes adj)"
        using w by auto
      note d = this
      have rank: "ranked adj ?c" using s w ranked_grey[of adj col ?d] by simp
      have "distinct path" using s by blast
      with d(1) have dist: "distinct (path @ [?d])" by simp
      have path: "path @ [?d] = rev (map fst ((?d, 0) # ?st))" using s by simp
      have "stacked adj ?c None ((?d, 0) # ?st)" using st by (simp add: handled_def)
      with rank path dist d(2,3) have search: "searching adj ?c (path @ [?d]) ((?d, 0) # ?st)"
        unfolding searching_def by blast
      have "visited adj ?c (visit_loop adj ?c (path @ [?d]) ((?d, 0) # ?st))"
        by (rule "2.IH"(1)[OF True refl refl _ _ search]) (use w in simp_all)
      then have "visited adj col (visit_loop adj ?c (path @ [?d]) ((?d, 0) # ?st))" by (rule visited_mono) simp
      with w True show ?thesis by (simp add: visit_loop.simps(2)[of adj col] Let_def)
    next
      case 3
      have "stacked adj col None ?st" using s 3 by (auto simp: handled_def tk)
      moreover have "path = rev (map fst ?st)" using s by simp
      ultimately have "searching adj col path ?st" unfolding searching_def using s by blast
      from "2.IH"(2)[OF True refl refl _ _ this] 3 True show ?thesis
        by (auto simp: visit_loop.simps(2)[of adj col] Let_def)
    qed
  next
    case False
    let ?c = "col(node := Black)"
    have grey: "col node = Grey" using s by auto
    have "\<forall>d. (node, d) \<in> edges adj \<longrightarrow> col d = Black"
      using s False by (auto simp: edges_def handled_def)
    then have "ranked adj ?c" using s grey by (intro ranked_black) auto
    moreover have "stacked adj ?c None stack" using s by (auto intro: stacked_pop)
    moreover have p: "path = rev (map fst stack) @ [node]" "distinct path" using s by (simp, blast)
    moreover have "set (butlast path) = {n. ?c n = Grey}" "set (butlast path) \<subseteq> set (nodes adj)"
    proof -
      have g: "set path = {n. col n = Grey}" "set path \<subseteq> set (nodes adj)" using s by blast+
      have "set (butlast path) = set path - {node}" using p by auto
      with g show "set (butlast path) = {n. ?c n = Grey}" "set (butlast path) \<subseteq> set (nodes adj)" by auto
    qed
    ultimately have "searching adj ?c (butlast path) stack"
      unfolding searching_def by (simp add: distinct_butlast)
    from "2.IH"(3)[OF False this] have "visited adj col (visit_loop adj ?c (butlast path) stack)"
      by (rule visited_mono) simp
    with False show ?thesis by (simp add: visit_loop.simps(2)[of adj col])
  qed
qed

lemma roots_loop_result:
  assumes "searching adj col [] []" and "set roots \<subseteq> set (nodes adj)"
  shows "(case roots_loop adj col roots of
      Inl e \<Rightarrow> False
    | Inr (Some cyc) \<Rightarrow> is_cycle adj cyc
    | Inr None \<Rightarrow> (\<exists>col'. searching adj col' [] [] \<and> (\<forall>n. n \<in> set roots \<or> col n = Black \<longrightarrow> col' n = Black)))"
  using assms
proof (induction roots arbitrary: col)
  case (Cons root roots)
  then have grey: "col n \<noteq> Grey" for n by (auto simp: searching_def)
  show ?case
  proof (cases "col root = White")
    case False
    with grey[of root] have "col root = Black" by (cases "col root") auto
    with Cons.IH[OF Cons.prems(1)] Cons.prems(2) False show ?thesis by (auto split: sum.splits option.splits)
  next
    case True
    let ?v = "visit_loop adj (col(root := Grey)) [root] [(root, 0)]"
    have "searching adj (col(root := Grey)) [root] [(root, 0)]"
      using Cons.prems True ranked_grey[of adj col root] grey by (auto simp: searching_def handled_def)
    note v = visit_loop_result[OF this]
    then consider cyc where "?v = Inr (Inl cyc)" "is_cycle adj cyc"
      | col' where "?v = Inr (Inr col')" "searching adj col' [] []" "col' root = Black"
          "\<forall>n. col n = Black \<longrightarrow> col' n = Black"
      by (cases "(adj, col(root := Grey), ?v)" rule: visited.cases) auto
    then show ?thesis
    proof cases
      case 1
      with True show ?thesis by simp
    next
      case 2
      with Cons.IH[of col'] Cons.prems(2) True show ?thesis by (auto split: sum.splits option.splits)
    qed
  qed
qed auto

text \<open>A graph whose nodes are ranked has no cycle.\<close>

lemma ranked_acyclic:
  assumes "ranked adj col" and "\<forall>n \<in> set (nodes adj). col n = Black"
  shows "acyclic (edges adj)"
proof -
  from assms(1) obtain rank where "\<forall>n d. col n = Black \<longrightarrow> (n, d) \<in> edges adj \<longrightarrow> rank d < (rank n :: nat)"
    unfolding ranked_def by blast
  moreover have "col n = Black" if "(n, d) \<in> edges adj" for n d
    using that assms(2) deps_dom by (auto simp: edges_def)
  ultimately have "edges adj \<subseteq> (measure rank)\<inverse>" by auto
  moreover have "acyclic ((measure rank)\<inverse>)" by (simp add: wf_acyclic)
  ultimately show ?thesis by (rule acyclic_subset[rotated])
qed

lemma cycle_not_acyclic:
  assumes "is_cycle adj cyc"
  shows "\<not> acyclic (edges adj)"
proof -
  have "successively (\<lambda>m n. (m, n) \<in> edges adj) cs \<Longrightarrow> cs \<noteq> [] \<Longrightarrow> (hd cs, last cs) \<in> (edges adj)\<^sup>*" for cs
    by (induction cs rule: induct_list012) (auto intro: converse_rtrancl_into_rtrancl)
  with assms have "(hd cyc, last cyc) \<in> (edges adj)\<^sup>*" "(last cyc, hd cyc) \<in> edges adj" by (auto simp: is_cycle_def)
  then have "(hd cyc, hd cyc) \<in> (edges adj)\<^sup>+" by (rule rtrancl_into_trancl1)
  then show ?thesis by (auto simp: acyclic_def)
qed

section \<open>Properties\<close>

text \<open>C15: Cycle detection is exact. On every adjacency map the search ends without an exception; it returns
  a cycle exactly when the graph has one; and what it returns is one: different nodes, each a dependency
  of the one before, the first one a dependency of the last. The statement is total: the search is a
  function on all graphs, of any depth.\<close>

theorem detect_cycle_exact:
  "case detect_cycle adj of
      Inl e \<Rightarrow> False
    | Inr None \<Rightarrow> acyclic (edges adj)
    | Inr (Some cyc) \<Rightarrow> is_cycle adj cyc \<and> \<not> acyclic (edges adj)"
proof -
  have "searching adj (\<lambda>_. White) [] []" by (auto simp: searching_def ranked_def)
  from roots_loop_result[OF this subset_refl] show ?thesis
    unfolding detect_cycle_def
    by (auto simp: searching_def cycle_not_acyclic ranked_acyclic split: sum.splits option.splits)
qed

end
