(* ===== verification/Semver.thy ===== *)
theory Semver
  imports Nodus_Prelude Unicode_Data
begin

text \<open>
  Versions and version ranges, \<^verbatim>\<open>src/nodus/tooling/semver.py\<close>, and the choice of a version from the index of
  a registry, \<^verbatim>\<open>RegistryClient.resolve_version\<close> of \<^verbatim>\<open>src/nodus/tooling/registry_client.py\<close>. The numbers of
  a version come from texts of digits, so they are naturals. Every exception of the parsers is a
  \<^verbatim>\<open>ValueError\<close>; the constructors of \<open>semver_err\<close> tell its messages apart.
\<close>

section \<open>Python's string operations\<close>

text \<open>\<^verbatim>\<open>s.strip()\<close>, \<^verbatim>\<open>s.split(c)\<close> for a one-character \<open>c\<close>, and \<^verbatim>\<open>int(s)\<close> of a non-empty text of digits, which
  refuses digits that are no decimals and more than 4300 digits.\<close>

definition strip :: "pystr \<Rightarrow> pystr" where
  "strip s = rev (dropWhile is_space (rev (dropWhile is_space s)))"

fun split_on :: "nat \<Rightarrow> pystr \<Rightarrow> pystr list" where
  "split_on c [] = [[]]"
| "split_on c (x # xs) =
     (if x = c then [] # split_on c xs
      else (case split_on c xs of [] \<Rightarrow> [[x]] | p # ps \<Rightarrow> (x # p) # ps))"

definition int_max_digits :: nat where
  "int_max_digits = 4300"

definition nat_of_digits :: "nat list \<Rightarrow> nat" where
  "nat_of_digits ds = foldl (\<lambda>n d. 10 * n + d) 0 ds"

definition decimals :: "pystr \<Rightarrow> nat list option" where
  "decimals s = (if list_all (\<lambda>c. decimal_value c \<noteq> None) s then Some (map (\<lambda>c. the (decimal_value c)) s) else None)"

text \<open>A loop that collects results and stops at the first exception.\<close>

fun mapE :: "('a \<Rightarrow> 'e + 'b) \<Rightarrow> 'a list \<Rightarrow> 'e + 'b list" where
  "mapE f [] = Inr []"
| "mapE f (x # xs) = bindE (f x) (\<lambda>y. bindE (mapE f xs) (\<lambda>ys. Inr (y # ys)))"

section \<open>Versions\<close>

datatype version = Version (major: nat) (minor: nat) (patch: nat)

text \<open>\<^verbatim>\<open>@dataclass(order=True)\<close> compares the tuples of the fields.\<close>

instantiation version :: linorder
begin

definition less_version :: "version \<Rightarrow> version \<Rightarrow> bool" where
  "v < w \<longleftrightarrow> major v < major w \<or> major v = major w \<and> (minor v < minor w \<or> minor v = minor w \<and> patch v < patch w)"

definition less_eq_version :: "version \<Rightarrow> version \<Rightarrow> bool" where
  "v \<le> w \<longleftrightarrow> v < w \<or> v = (w :: version)"

instance
proof
  show "x \<le> y \<or> y \<le> x" for x y :: version
    by (cases x; cases y) (auto simp: less_version_def less_eq_version_def)
qed (auto simp: less_version_def less_eq_version_def)

end

datatype semver_err = InvalidVersion pystr | NotAnInt pystr | InvalidRange pystr | UnsupportedOperator pystr

definition int_of_text :: "pystr \<Rightarrow> semver_err + nat" where
  "int_of_text s = (case decimals s of
      None \<Rightarrow> Inl (NotAnInt s)
    | Some ds \<Rightarrow> if int_max_digits < length s then Inl (NotAnInt s) else Inr (nat_of_digits ds))"

fun version_values :: "pystr \<Rightarrow> pystr list \<Rightarrow> semver_err + nat list" where
  "version_values text [] = Inr []"
| "version_values text (part # parts) =
     (if part = [] \<or> \<not> list_all is_digit part then Inl (InvalidVersion text)
      else bindE (int_of_text part) (\<lambda>v. bindE (version_values text parts) (\<lambda>vs. Inr (v # vs))))"

definition pad3 :: "nat list \<Rightarrow> nat list" where
  "pad3 vs = vs @ replicate (3 - length vs) 0"

definition version_parse :: "pystr \<Rightarrow> semver_err + version" where
  "version_parse text =
     (let parts = split_on 46 (strip text)
      in if parts = [] \<or> [] \<in> set parts then Inl (InvalidVersion text)
         else bindE (version_values text parts) (\<lambda>values.
           let vs = pad3 values
           in if 3 < length vs then Inl (InvalidVersion text) else Inr (Version (vs ! 0) (vs ! 1) (vs ! 2))))"

text \<open>Formatting an integer of more than 4300 digits raises, like reading it.\<close>

definition text_of_int :: "nat \<Rightarrow> semver_err + pystr" where
  "text_of_int n = (if int_max_digits < length (str_nat n) then Inl (NotAnInt []) else Inr (str_nat n))"

definition version_str :: "version \<Rightarrow> semver_err + pystr" where
  "version_str v =
     bindE (text_of_int (major v)) (\<lambda>a. bindE (text_of_int (minor v)) (\<lambda>b. bindE (text_of_int (patch v)) (\<lambda>c.
       Inr (a @ [46] @ b @ [46] @ c))))"

section \<open>Ranges\<close>

record comparator =
  cp_op :: pystr
  cp_version :: version

definition comparator_matches :: "comparator \<Rightarrow> version \<Rightarrow> semver_err + bool" where
  "comparator_matches c v =
     (if cp_op c = py ''=='' then Inr (v = cp_version c)
      else if cp_op c = py ''>'' then Inr (v > cp_version c)
      else if cp_op c = py ''>='' then Inr (v \<ge> cp_version c)
      else if cp_op c = py ''<'' then Inr (v < cp_version c)
      else if cp_op c = py ''<='' then Inr (v \<le> cp_version c)
      else Inl (UnsupportedOperator (cp_op c)))"

definition caret_upper :: "version \<Rightarrow> version" where
  "caret_upper base =
     (if major base > 0 then Version (major base + 1) 0 0
      else if minor base > 0 then Version 0 (minor base + 1) 0
      else Version 0 0 (patch base + 1))"

definition range_ops :: "pystr list" where
  "range_ops = [py ''>='', py ''<='', py ''>'', py ''<'', py ''=='']"

definition part_parse :: "pystr \<Rightarrow> semver_err + comparator" where
  "part_parse part = (case find (starts_with part) range_ops of
      Some op \<Rightarrow> bindE (version_parse (strip (drop (length op) part))) (\<lambda>v. Inr \<lparr>cp_op = op, cp_version = v\<rparr>)
    | None \<Rightarrow> bindE (version_parse part) (\<lambda>v. Inr \<lparr>cp_op = py ''=='', cp_version = v\<rparr>))"

definition range_parse :: "pystr \<Rightarrow> semver_err + comparator list" where
  "range_parse text =
     (let raw = strip text
      in if starts_with raw (py ''^'') then
           bindE (version_parse (drop 1 raw)) (\<lambda>base.
             Inr [\<lparr>cp_op = py ''>='', cp_version = base\<rparr>, \<lparr>cp_op = py ''<'', cp_version = caret_upper base\<rparr>])
         else if starts_with raw (py ''~'') then
           bindE (version_parse (drop 1 raw)) (\<lambda>base.
             Inr [\<lparr>cp_op = py ''>='', cp_version = base\<rparr>,
                  \<lparr>cp_op = py ''<'', cp_version = Version (major base) (minor base + 1) 0\<rparr>])
         else (let parts = filter (\<lambda>p. p \<noteq> []) (map strip (split_on 44 raw))
               in if parts = [] then Inl (InvalidRange text) else mapE part_parse parts))"

text \<open>\<^verbatim>\<open>all\<close> stops at the first comparator that does not match.\<close>

fun range_matches :: "comparator list \<Rightarrow> version \<Rightarrow> semver_err + bool" where
  "range_matches [] v = Inr True"
| "range_matches (c # cs) v = bindE (comparator_matches c v) (\<lambda>b. if b then range_matches cs v else Inr False)"

section \<open>Texts of digits\<close>

lemma nat_of_digits_snoc: "nat_of_digits (ds @ [d]) = 10 * nat_of_digits ds + d"
  by (simp add: nat_of_digits_def)

lemma decimal_value_ascii: "48 \<le> c \<Longrightarrow> c \<le> 57 \<Longrightarrow> decimal_value c = Some (c - 48)"
  by (simp add: decimal_value_def decimal_ranges_def)

lemma is_digit_ascii: "48 \<le> c \<Longrightarrow> c \<le> 57 \<Longrightarrow> is_digit c"
  by (simp add: is_digit_def in_ranges_def digit_ranges_def)

lemma not_space_ascii: "33 \<le> c \<Longrightarrow> c \<le> 126 \<Longrightarrow> \<not> is_space c"
  by (auto simp: is_space_def in_ranges_def space_ranges_def)

lemma digits_of_digit: "list_all is_digit (digits_of n)"
  by (auto simp: list_all_iff dest: digits_of_ascii intro: is_digit_ascii)

lemma decimals_digits: "decimals (digits_of n) = Some (map (\<lambda>c. c - 48) (digits_of n))"
proof -
  have "decimal_value c = Some (c - 48)" if "c \<in> set (digits_of n)" for c
    using digits_of_ascii[OF that] by (simp add: decimal_value_ascii)
  then show ?thesis by (auto simp: decimals_def list_all_iff)
qed

lemma nat_of_digits_of: "nat_of_digits (map (\<lambda>c. c - 48) (digits_of n)) = n"
proof (induction n rule: digits_of.induct)
  case (1 n)
  show ?case
  proof (cases "n < 10")
    case True
    then show ?thesis by (simp add: digits_of.simps[of n] nat_of_digits_def)
  next
    case False
    then show ?thesis using 1 by (simp add: digits_of.simps[of n] nat_of_digits_snoc)
  qed
qed

lemma int_of_text_digits: "length (digits_of n) \<le> int_max_digits \<Longrightarrow> int_of_text (digits_of n) = Inr n"
  by (simp add: int_of_text_def decimals_digits nat_of_digits_of)

lemma split_on_other: "c \<notin> set p \<Longrightarrow> split_on c p = [p]"
  by (induction p) auto

lemma split_on_append: "c \<notin> set p \<Longrightarrow> split_on c (p @ c # s) = p # split_on c s"
  by (induction p) auto

lemma split_on_digits: "split_on 46 (digits_of a @ 46 # digits_of b @ 46 # digits_of c) = [digits_of a, digits_of b, digits_of c]"
proof -
  have "46 \<notin> set (digits_of n)" for n using digits_of_ascii by fastforce
  then show ?thesis by (simp add: split_on_append split_on_other)
qed

lemma digits_of_not_space: "c \<in> set (digits_of n) \<Longrightarrow> \<not> is_space c"
  using digits_of_ascii[of c n] not_space_ascii[of c] by auto

lemmas version_eval = version_parse_def strip_def decimals_def int_of_text_def nat_of_digits_def pad3_def
  int_max_digits_def py_def is_digit_ascii decimal_value_ascii is_space_def in_ranges_def space_ranges_def
  numeral_2_eq_2 numeral_3_eq_3

section \<open>The order\<close>

lemma range_matches_between:
  "range_matches [\<lparr>cp_op = py ''>='', cp_version = lo\<rparr>, \<lparr>cp_op = py ''<'', cp_version = hi\<rparr>] v = Inr (lo \<le> v \<and> v < hi)"
  by (auto simp: comparator_matches_def)

lemma below_next:
  "base \<le> v \<Longrightarrow> v < caret_upper base \<longleftrightarrow>
     (if major base > 0 then major v = major base
      else if minor base > 0 then major v = 0 \<and> minor v = minor base
      else v = base)"
  by (cases base; cases v) (auto simp: caret_upper_def less_version_def less_eq_version_def)

lemma below_next_minor:
  "base \<le> v \<Longrightarrow> v < Version (major base) (minor base + 1) 0 \<longleftrightarrow> major v = major base \<and> minor v = minor base"
  by (cases base; cases v) (auto simp: less_version_def less_eq_version_def)

section \<open>Surrounding white space\<close>

definition trimmed :: "pystr \<Rightarrow> bool" where
  "trimmed m \<longleftrightarrow> m = [] \<or> \<not> is_space (hd m) \<and> \<not> is_space (last m)"

lemma dropWhile_all: "list_all P xs \<Longrightarrow> dropWhile P (xs @ ys) = dropWhile P ys"
  by (induction xs) auto

lemma strip_unique:
  assumes "list_all is_space l" "trimmed m" "list_all is_space r"
  shows "strip (l @ m @ r) = m"
proof (cases m)
  case Nil
  have "\<forall>x \<in> set (l @ m @ r). is_space x" using assms Nil unfolding list_all_iff by auto
  then have "dropWhile is_space (l @ m @ r) = []" by (simp only: dropWhile_eq_Nil_conv)
  then show ?thesis unfolding strip_def using Nil by (simp only:) simp
next
  case (Cons x xs)
  with assms have "dropWhile is_space (l @ m @ r) = m @ r" by (simp add: dropWhile_all trimmed_def)
  moreover have "dropWhile is_space (rev m) = rev m"
  proof -
    obtain ys y where "m = ys @ [y]" using Cons by (metis list.discI rev_exhaust)
    with assms(2) show ?thesis by (simp add: trimmed_def)
  qed
  ultimately show ?thesis using assms(3) by (simp add: strip_def dropWhile_all list_all_iff)
qed

lemma strip_split: "\<exists>l r. t = l @ strip t @ r \<and> list_all is_space l \<and> trimmed (strip t) \<and> list_all is_space r"
proof -
  define u where "u = dropWhile is_space t"
  define l where "l = takeWhile is_space t"
  define r where "r = rev (takeWhile is_space (rev u))"
  have t: "t = l @ u" by (simp add: u_def l_def)
  have "rev u = rev r @ rev (strip t)" by (simp add: r_def strip_def u_def)
  then have u: "u = strip t @ r" by (metis rev_append rev_rev_ident)
  have "trimmed (strip t)"
  proof (cases "strip t = []")
    case False
    then have "hd (strip t) = hd u" using u by simp
    moreover have "u \<noteq> []" using False u by simp
    then have "\<not> is_space (hd u)" unfolding u_def by (rule hd_dropWhile)
    moreover have "\<not> is_space (hd (dropWhile is_space (rev u)))"
      using False by (intro hd_dropWhile[where P = is_space and xs = "rev u"]) (simp add: strip_def u_def)
    ultimately show ?thesis using False by (simp add: trimmed_def strip_def u_def last_rev)
  qed (simp add: trimmed_def)
  moreover have "list_all is_space l" "list_all is_space r"
    by (auto simp: l_def r_def list_all_iff dest: set_takeWhileD)
  moreover have "t = l @ strip t @ r" unfolding u[symmetric] by (rule t)
  ultimately show ?thesis by blast
qed

text \<open>What a prefix character leaves of the text parses like the text.\<close>

lemma strip_prefixed:
  assumes "\<not> is_space c"
  obtains s where "strip (c # t) = c # s" "strip s = strip t"
proof -
  obtain l r where t: "t = l @ strip t @ r" "list_all is_space l" "trimmed (strip t)" "list_all is_space r"
    using strip_split by blast
  show ?thesis
  proof (cases "strip t = []")
    case True
    have "strip ([] @ [c] @ (l @ r)) = [c]" using assms t by (intro strip_unique) (auto simp: trimmed_def)
    moreover have "t = l @ r" using t(1) True by simp
    ultimately show ?thesis using that[of "[]"] True by (simp add: strip_def[of "[]"])
  next
    case False
    have "strip ([] @ (c # l @ strip t) @ r) = c # l @ strip t"
      using assms False t(2-4) by (intro strip_unique) (auto simp: trimmed_def)
    moreover have "strip (l @ strip t @ []) = strip t" using t by (intro strip_unique) auto
    ultimately show ?thesis using that[of "l @ strip t"] t(1) by simp
  qed
qed

lemma version_values_text: "version_values s parts = Inr vs \<longleftrightarrow> version_values t parts = Inr vs"
  by (induction parts arbitrary: vs) (auto simp: result_simps)

lemma version_parse_strip: "strip s = strip t \<Longrightarrow> version_parse s = Inr v \<longleftrightarrow> version_parse t = Inr v"
  unfolding version_parse_def by (auto simp: Let_def bindE_Inr_iff version_values_text[of s _ _ t])

lemma version_parse_digits:
  assumes "version_str v = Inr t" "strip s = t"
  shows "version_parse s = Inr v"
proof -
  from assms(1) have len: "length (digits_of (major v)) \<le> int_max_digits" "length (digits_of (minor v)) \<le> int_max_digits"
      "length (digits_of (patch v)) \<le> int_max_digits"
    and t: "t = digits_of (major v) @ 46 # digits_of (minor v) @ 46 # digits_of (patch v)"
    by (auto simp: version_str_def text_of_int_def str_nat_def bindE_Inr_iff split: if_splits)
  show ?thesis
    by (simp add: version_parse_def assms(2) t split_on_digits digits_of_digit digits_of_nonempty[symmetric] int_of_text_digits len pad3_def
        numeral_2_eq_2 numeral_3_eq_3)
qed

lemma version_str_trimmed: "version_str v = Inr t \<Longrightarrow> trimmed t"
  using digits_of_not_space[OF hd_in_set[OF digits_of_nonempty], of "major v"]
    digits_of_not_space[OF last_in_set[OF digits_of_nonempty], of "patch v"]
  by (auto simp: version_str_def text_of_int_def str_nat_def bindE_Inr_iff trimmed_def split: if_splits)

section \<open>The choice of a version\<close>

text \<open>\<^verbatim>\<open>RegistryClient.resolve_version\<close> for an index already fetched: an entry is its \<^verbatim>\<open>version\<close> text, absent
  or not, and the rest of the dictionary. Sorting in reverse keeps the order of equal keys.\<close>

type_synonym 'e entry = "pystr option \<times> 'e"

datatype registry_err = NoVersions pystr | InvalidConstraint pystr pystr | NoVersionMatches pystr pystr "pystr list"

definition matching_version :: "comparator list \<Rightarrow> 'e entry \<Rightarrow> version option" where
  "matching_version rg entry = (case version_parse (case fst entry of None \<Rightarrow> [] | Some s \<Rightarrow> s) of
      Inl e \<Rightarrow> None
    | Inr v \<Rightarrow> (case range_matches rg v of Inr True \<Rightarrow> Some v | _ \<Rightarrow> None))"

fun matching_entries :: "comparator list \<Rightarrow> 'e entry list \<Rightarrow> (version \<times> 'e entry) list" where
  "matching_entries rg [] = []"
| "matching_entries rg (entry # entries) = (case matching_version rg entry of
      None \<Rightarrow> matching_entries rg entries
    | Some v \<Rightarrow> (v, entry) # matching_entries rg entries)"

definition sort_descending :: "('a \<Rightarrow> 'b :: linorder) \<Rightarrow> 'a list \<Rightarrow> 'a list" where
  "sort_descending f xs = rev (sort_key f (rev xs))"

definition resolve_version :: "pystr \<Rightarrow> pystr \<Rightarrow> 'e entry list \<Rightarrow> registry_err + 'e entry" where
  "resolve_version name constraint versions =
     (if versions = [] then Inl (NoVersions name)
      else case range_parse constraint of
        Inl e \<Rightarrow> Inl (InvalidConstraint constraint name)
      | Inr rg \<Rightarrow>
          (let matching = matching_entries rg versions
           in case sort_descending fst matching of
             [] \<Rightarrow> Inl (NoVersionMatches name constraint
                       (map (\<lambda>e. case fst e of None \<Rightarrow> py ''?'' | Some s \<Rightarrow> s) versions))
           | m # ms \<Rightarrow> Inr (snd m)))"

lemma matching_entries_eq:
  "matching_entries rg es = map (\<lambda>e. (the (matching_version rg e), e)) (filter (\<lambda>e. matching_version rg e \<noteq> None) es)"
  by (induction es) (auto split: option.splits)

lemma matching_entries_mem: "e \<in> set es \<Longrightarrow> matching_version rg e = Some v \<Longrightarrow> (v, e) \<in> set (matching_entries rg es)"
  by (force simp: matching_entries_eq)

lemma matching_entries_split:
  "matching_entries rg es = as @ m # bs \<Longrightarrow>
     \<exists>cs ds. es = cs @ snd m # ds \<and> matching_version rg (snd m) = Some (fst m) \<and> matching_entries rg cs = as"
proof (induction es arbitrary: as)
  case (Cons e es)
  show ?case
  proof (cases "matching_version rg e")
    case None
    with Cons obtain cs ds where "es = cs @ snd m # ds" "matching_version rg (snd m) = Some (fst m)" "matching_entries rg cs = as"
      by auto
    with None show ?thesis by (intro exI[of _ "e # cs"] exI[of _ ds]) auto
  next
    case (Some v)
    show ?thesis
    proof (cases as)
      case Nil
      with Some Cons.prems show ?thesis by (intro exI[of _ "[]"] exI[of _ es]) auto
    next
      case (Cons a as')
      with Some Cons.prems Cons.IH[of as'] obtain cs ds
        where "es = cs @ snd m # ds" "matching_version rg (snd m) = Some (fst m)" "matching_entries rg cs = as'"
        by auto
      with Some Cons Cons.prems show ?thesis by (intro exI[of _ "e # cs"] exI[of _ ds]) auto
    qed
  qed
qed simp

text \<open>The head of a list sorted in reverse is the first of the greatest elements.\<close>

lemma sort_descending_Nil [simp]: "sort_descending f xs = [] \<longleftrightarrow> xs = []"
  by (metis length_0_conv length_rev length_sort sort_descending_def)

lemma sort_descending_head:
  assumes "sort_descending f xs = m # ms"
  obtains as bs where "xs = as @ m # bs" "\<And>x. x \<in> set xs \<Longrightarrow> f x \<le> f m" "\<And>x. x \<in> set as \<Longrightarrow> f x < f m"
proof -
  have s: "sort_key f (rev xs) = rev ms @ [m]"
    using assms by (metis rev.simps(2) rev_swap sort_descending_def)
  have "sorted (map f (rev ms @ [m]))" unfolding s[symmetric] by simp
  then have "\<forall>x \<in> set (rev ms @ [m]). f x \<le> f m" by (auto simp: sorted_append)
  moreover have "set (rev ms @ [m]) = set xs" unfolding s[symmetric] by simp
  ultimately have le: "f x \<le> f m" if "x \<in> set xs" for x using that by blast
  have "rev (filter (\<lambda>x. f x = f m) xs) = rev (m # filter (\<lambda>x. f x = f m) ms)"
    using sort_key_stable[of f "f m" "rev xs"] by (simp add: s rev_filter)
  then have "filter (\<lambda>x. f x = f m) xs = m # filter (\<lambda>x. f x = f m) ms" by (simp only: rev_is_rev_conv)
  then obtain as bs where xs: "xs = as @ m # bs" "\<forall>x \<in> set as. f x \<noteq> f m"
    by (auto simp: filter_eq_Cons_iff)
  then have "f x < f m" if "x \<in> set as" for x using that le[of x] by (metis UnI1 order_less_le set_append)
  with xs le show ?thesis using that by blast
qed

lemma range_parse_prefixed:
  assumes "version_parse t = Inr base"
  shows "range_parse (py ''^'' @ t) = Inr [\<lparr>cp_op = py ''>='', cp_version = base\<rparr>, \<lparr>cp_op = py ''<'', cp_version = caret_upper base\<rparr>]"
    and "range_parse (py ''~'' @ t) =
      Inr [\<lparr>cp_op = py ''>='', cp_version = base\<rparr>, \<lparr>cp_op = py ''<'', cp_version = Version (major base) (minor base + 1) 0\<rparr>]"
proof -
  have "\<exists>s. strip (c # t) = c # s \<and> version_parse s = Inr base" if "c \<in> {94, 126}" for c
  proof -
    have "\<not> is_space c" using that by (auto simp: not_space_ascii)
    from strip_prefixed[OF this, of t] assms show ?thesis by (metis version_parse_strip)
  qed
  from this[of 94] this[of 126]
  show "range_parse (py ''^'' @ t) = Inr [\<lparr>cp_op = py ''>='', cp_version = base\<rparr>, \<lparr>cp_op = py ''<'', cp_version = caret_upper base\<rparr>]"
    and "range_parse (py ''~'' @ t) =
      Inr [\<lparr>cp_op = py ''>='', cp_version = base\<rparr>, \<lparr>cp_op = py ''<'', cp_version = Version (major base) (minor base + 1) 0\<rparr>]"
    by (auto simp: range_parse_def py_def)
qed

section \<open>Properties\<close>

text \<open>C22: A version survives printing and parsing: the text that \<^verbatim>\<open>__str__\<close> gives, also with white space
  around it, parses back to the same three numbers. The only versions without a text are those with a
  number of more than 4300 digits.\<close>

theorem version_roundtrip:
  assumes "version_str v = Inr t" and "list_all is_space l" and "list_all is_space r"
  shows "version_parse (l @ t @ r) = Inr v"
  by (rule version_parse_digits[OF assms(1) strip_unique[OF assms(2) version_str_trimmed[OF assms(1)] assms(3)]])

theorem version_roundtrip_witness:
  "version_parse (py '' '' @ py ''1.20.3'' @ []) = Inr (Version 1 20 3)"
  by (intro version_roundtrip)
    (auto simp: version_str_def text_of_int_def str_nat_def digits_of.simps int_max_digits_def py_def is_space_def in_ranges_def space_ranges_def)

text \<open>C21: Caret and tilde ranges mean what they promise. For a text that is a version, the range with a caret
  parses, never raises, and accepts exactly the versions that are not below it and keep its leftmost
  number that is not zero; the range with a tilde accepts those that keep its first two numbers.\<close>

theorem range_prefix_exact:
  assumes "version_parse t = Inr base"
  shows "(\<exists>r. range_parse (py ''^'' @ t) = Inr r \<and> (\<forall>v. range_matches r v = Inr (base \<le> v \<and>
            (if major base > 0 then major v = major base
             else if minor base > 0 then major v = 0 \<and> minor v = minor base
             else v = base)))) \<and>
         (\<exists>r. range_parse (py ''~'' @ t) = Inr r \<and> (\<forall>v. range_matches r v = Inr (base \<le> v \<and>
            major v = major base \<and> minor v = minor base)))"
  unfolding range_parse_prefixed[OF assms] sum.inject ex_simps simp_thms
  using below_next[of base] below_next_minor[of base] by (auto simp: range_matches_between simp del: range_matches.simps)

theorem range_prefix_exact_witness:
  "\<exists>r. range_parse (py ''^'' @ py ''0.2'') = Inr r \<and> range_matches r (Version 0 2 9) = Inr True \<and>
     range_matches r (Version 0 3 0) = Inr False"
proof -
  have "version_parse (py ''0.2'') = Inr (Version 0 2 0)" by (simp add: version_eval)
  from range_prefix_exact[OF this] show ?thesis by (auto simp: less_eq_version_def less_version_def)
qed

text \<open>The minimum notation \<^verbatim>\<open>~=\<close> is no range: what follows the tilde is no version.\<close>

theorem compatible_release_rejected: "\<exists>e. range_parse (py ''~='' @ t) = Inl e"
proof -
  have "\<not> is_space 126" "\<not> is_space 61" by (simp_all add: not_space_ascii)
  then obtain s where s: "strip (126 # 61 # t) = 126 # s" "strip s = strip (61 # t)" by (metis strip_prefixed)
  obtain u where "strip (61 # t) = 61 # u" using \<open>\<not> is_space 61\<close> by (metis strip_prefixed)
  then obtain p ps where split: "split_on 46 (strip s) = (61 # p) # ps"
    using s(2) by (cases "split_on 46 u") auto
  have "\<not> is_digit 61" by (simp add: is_digit_def in_ranges_def digit_ranges_def)
  then have "\<exists>e. version_parse s = Inl e" by (auto simp: version_parse_def split)
  then show ?thesis using s(1) by (auto simp: range_parse_def py_def)
qed

text \<open>C20: The registry client picks the best version. When it succeeds, the entry it returns is in the index,
  its version text parses to a version in the range, no entry of the index in the range has a higher
  version, and those before it have a lower one; when some entry is in the range, it succeeds.\<close>

theorem resolve_version_best:
  assumes "range_parse constraint = Inr rg"
  shows "case resolve_version name constraint versions of
      Inr e \<Rightarrow> (\<exists>as bs v. versions = as @ e # bs \<and> matching_version rg e = Some v \<and>
        (\<forall>e' \<in> set versions. \<forall>v'. matching_version rg e' = Some v' \<longrightarrow> v' \<le> v) \<and>
        (\<forall>e' \<in> set as. \<forall>v'. matching_version rg e' = Some v' \<longrightarrow> v' < v))
    | Inl err \<Rightarrow> \<forall>e \<in> set versions. matching_version rg e = None"
proof (cases "resolve_version name constraint versions")
  case (Inl err)
  then show ?thesis
    by (auto simp: resolve_version_def assms matching_entries_eq Let_def filter_empty_conv split: if_splits list.splits)
next
  case (Inr e)
  then obtain m ms where s: "sort_descending fst (matching_entries rg versions) = m # ms" "snd m = e"
    by (auto simp: resolve_version_def assms Let_def split: if_splits list.splits)
  obtain as bs where m: "matching_entries rg versions = as @ m # bs"
      "\<And>x. x \<in> set (matching_entries rg versions) \<Longrightarrow> fst x \<le> fst m" "\<And>x. x \<in> set as \<Longrightarrow> fst x < fst m"
    using sort_descending_head[OF s(1)] by blast
  obtain cs ds where e: "versions = cs @ e # ds" "matching_version rg e = Some (fst m)" "matching_entries rg cs = as"
    using matching_entries_split[OF m(1)] s(2) by blast
  have "v' \<le> fst m" if "e' \<in> set versions" "matching_version rg e' = Some v'" for e' v'
    using m(2)[OF matching_entries_mem[OF that]] by simp
  moreover have "v' < fst m" if "e' \<in> set cs" "matching_version rg e' = Some v'" for e' v'
    using m(3)[of "(v', e')"] matching_entries_mem[OF that] e(3) by simp
  ultimately show ?thesis unfolding Inr sum.case using e(1,2) by (intro exI[of _ cs] exI[of _ ds] exI[of _ "fst m"]) simp
qed

theorem resolve_version_best_witness:
  "\<exists>as bs v. [(Some (py ''1.4''), 0 :: nat), (Some (py ''1.10''), 1), (Some (py ''2.0''), 2)] = as @ (Some (py ''1.10''), 1) # bs \<and>
     matching_version [\<lparr>cp_op = py ''>='', cp_version = Version 1 0 0\<rparr>, \<lparr>cp_op = py ''<'', cp_version = Version 2 0 0\<rparr>]
       (Some (py ''1.10''), 1 :: nat) = Some v"
proof -
  define rg where "rg = [\<lparr>cp_op = py ''>='', cp_version = Version 1 0 0\<rparr>, \<lparr>cp_op = py ''<'', cp_version = Version 2 0 0\<rparr>]"
  define index where "index = [(Some (py ''1.4''), 0 :: nat), (Some (py ''1.10''), 1), (Some (py ''2.0''), 2)]"
  have versions: "version_parse (py ''1'') = Inr (Version 1 0 0)" "version_parse (py ''1.4'') = Inr (Version 1 4 0)"
    "version_parse (py ''1.10'') = Inr (Version 1 10 0)" "version_parse (py ''2.0'') = Inr (Version 2 0 0)"
    by (simp_all add: version_eval)
  then have rg: "range_parse (py ''^'' @ py ''1'') = Inr rg" by (simp add: range_parse_prefixed caret_upper_def rg_def)
  have "matching_entries rg index = [(Version 1 4 0, Some (py ''1.4''), 0), (Version 1 10 0, Some (py ''1.10''), 1)]"
    by (simp add: index_def rg_def matching_version_def versions range_matches_between less_eq_version_def less_version_def
        del: range_matches.simps)
  then have "resolve_version (py ''utils'') (py ''^'' @ py ''1'') index = Inr (Some (py ''1.10''), 1)"
    by (simp add: resolve_version_def rg sort_descending_def less_eq_version_def less_version_def)
      (simp add: index_def)
  with resolve_version_best[OF rg, of index "py ''utils''"] show ?thesis unfolding rg_def[symmetric] index_def[symmetric] by auto
qed

end
