(* ===== verification/Resolver.thy ===== *)
theory Resolver
  imports Semver "HOL-Library.AList" "HOL-Library.Product_Lexorder" "HOL-Library.List_Lexorder"
begin

text \<open>
  Resolution of the dependencies of a project, \<^verbatim>\<open>src/nodus/tooling/resolver.py\<close>, with the local registry
  \<^verbatim>\<open>src/nodus/tooling/registry.py\<close>. What the resolver reads from the file system and the network is the
  argument \<open>env\<close>: the manifests, the lock file, the tables of the registry, the index a registry client
  fetches and its download. \<^verbatim>\<open>resolve_spec\<close> is recursive and the directories on disk need not be finitely
  many, so it has a bound on its depth, whose exhaustion is the error \<open>Unfinished\<close>; the last section shows
  that one more than the number of package names is enough.
\<close>

section \<open>Data\<close>

record dep_spec =
  ds_name :: pystr
  ds_kind :: pystr
  ds_value :: pystr

record locked_package =
  lp_version :: pystr
  lp_source :: pystr

record registry_package =
  rp_name :: pystr
  rp_version :: pystr
  rp_source :: pystr
  rp_path :: pystr

record resolved_package =
  rs_name :: pystr
  rs_version :: pystr
  rs_source :: pystr
  rs_path :: pystr
  rs_source_path :: "pystr option"
  rs_dependencies :: "pystr list"

record project =
  pj_version :: pystr
  pj_root :: pystr
  pj_dependencies :: "dep_spec list"

type_synonym registry = "(pystr \<times> (pystr \<times> registry_package) list) list"

text \<open>\<open>en_index\<close> is what \<^verbatim>\<open>fetch_package_index\<close> of the registry client returns, when there is a client;
  \<open>en_abspath\<close> and \<open>en_relpath\<close> are the functions of \<^verbatim>\<open>os.path\<close>.\<close>

record environment =
  en_project :: "pystr \<Rightarrow> pystr + project"
  en_manifest :: "pystr \<Rightarrow> bool"
  en_abspath :: "pystr \<Rightarrow> pystr \<Rightarrow> pystr"
  en_relpath :: "pystr \<Rightarrow> pystr \<Rightarrow> pystr"
  en_locked :: "(pystr \<times> locked_package) list"
  en_registry :: registry
  en_index :: "(pystr \<Rightarrow> pystr + pystr entry list) option"
  en_install :: "pystr \<Rightarrow> pystr entry \<Rightarrow> pystr + pystr"

datatype resolve_err =
    VersionError semver_err
  | RegistryError registry_err
  | HostFailure pystr
  | NotAvailable pystr
  | LockedUnavailable pystr pystr
  | NoneSatisfies pystr pystr
  | Unsatisfied pystr pystr pystr
  | Cyclic "pystr list"
  | Unfinished

definition raisesE :: "('e \<Rightarrow> 'f) \<Rightarrow> 'e + 'a \<Rightarrow> 'f + 'a" where
  "raisesE f r = (case r of Inl e \<Rightarrow> Inl (f e) | Inr x \<Rightarrow> Inr x)"

lemma raisesE_simps [simp, result_simps]: "raisesE f (Inl e) = Inl (f e)" "raisesE f (Inr x) = Inr x"
  by (simp_all add: raisesE_def)

lemma raisesE_Inr [result_simps]: "raisesE f r = Inr x \<longleftrightarrow> r = Inr x"
  by (cases r) auto

section \<open>The local registry\<close>

fun numeric_part :: "pystr \<Rightarrow> semver_err + int" where
  "numeric_part part =
     (if part \<noteq> [] \<and> list_all is_digit part then bindE (int_of_text part) (\<lambda>n. Inr (int n)) else Inr (- 1))"

definition version_sort_key :: "pystr \<Rightarrow> semver_err + int \<times> int \<times> int \<times> pystr" where
  "version_sort_key text = bindE (mapE numeric_part (take 3 (split_on 46 text))) (\<lambda>numeric.
     let ns = numeric @ replicate (3 - length numeric) 0 in Inr (ns ! 0, ns ! 1, ns ! 2, text))"

definition versions_of :: "registry \<Rightarrow> pystr \<Rightarrow> (pystr \<times> registry_package) list" where
  "versions_of reg name = (case map_of reg name of None \<Rightarrow> [] | Some vs \<Rightarrow> vs)"

text \<open>The key ends in the text itself, so sorting the keys sorts the texts.\<close>

definition available_versions :: "registry \<Rightarrow> pystr \<Rightarrow> semver_err + registry_package list" where
  "available_versions reg name =
     bindE (mapE version_sort_key (map fst (versions_of reg name))) (\<lambda>keys.
       Inr (map (\<lambda>(a, b, c, text). the (map_of (versions_of reg name) text)) (sort keys)))"

definition registry_get :: "registry \<Rightarrow> pystr \<Rightarrow> pystr \<Rightarrow> registry_package option" where
  "registry_get reg name version = map_of (versions_of reg name) version"

section \<open>Choosing a package\<close>

definition matches_requirement :: "pystr \<Rightarrow> pystr \<Rightarrow> bool" where
  "matches_requirement requirement version =
     (case bindE (range_parse requirement) (\<lambda>r. bindE (version_parse version) (range_matches r)) of
        Inl e \<Rightarrow> version = requirement
      | Inr b \<Rightarrow> b)"

definition satisfies :: "dep_spec \<Rightarrow> pystr \<Rightarrow> bool" where
  "satisfies spec version \<longleftrightarrow> ds_kind spec \<noteq> py ''version'' \<or> matches_requirement (ds_value spec) version"

definition validate_locked_or_resolved :: "dep_spec \<Rightarrow> pystr \<Rightarrow> resolve_err + unit" where
  "validate_locked_or_resolved spec version =
     (if satisfies spec version then Inr () else Inl (Unsatisfied version (ds_name spec) (ds_value spec)))"

definition select_registry_package :: "registry \<Rightarrow> dep_spec \<Rightarrow> locked_package option \<Rightarrow> resolve_err + registry_package" where
  "select_registry_package reg spec locked =
     bindE (raisesE VersionError (available_versions reg (ds_name spec))) (\<lambda>candidates.
       if candidates = [] then Inl (NotAvailable (ds_name spec))
       else case locked of
         Some lp \<Rightarrow> (case registry_get reg (ds_name spec) (lp_version lp) of
             None \<Rightarrow> Inl (LockedUnavailable (ds_name spec) (lp_version lp))
           | Some p \<Rightarrow> bindE (validate_locked_or_resolved spec (rp_version p)) (\<lambda>_. Inr p))
       | None \<Rightarrow>
           (let matching = filter (\<lambda>p. matches_requirement (ds_value spec) (rp_version p)) candidates
            in bindE (raisesE VersionError (mapE (\<lambda>p. bindE (version_parse (rp_version p)) (\<lambda>v. Inr (v, p))) matching)) (\<lambda>keyed.
                 case sort_descending fst keyed of
                   [] \<Rightarrow> Inl (NoneSatisfies (ds_name spec) (ds_value spec))
                 | m # ms \<Rightarrow> Inr (snd m))))"

definition resolve_single_dependency :: "environment \<Rightarrow> pystr \<Rightarrow> dep_spec \<Rightarrow> resolve_err + resolved_package" where
  "resolve_single_dependency env owner spec =
     (if ds_kind spec = py ''path'' then
        (let path = en_abspath env owner (ds_value spec)
         in bindE (raisesE HostFailure (en_project env path)) (\<lambda>pj.
              Inr \<lparr>rs_name = ds_name spec, rs_version = pj_version pj, rs_source = py ''path'', rs_path = pj_root pj,
                   rs_source_path = Some (en_relpath env owner path), rs_dependencies = []\<rparr>))
      else (let locked = map_of (en_locked env) (ds_name spec) in
        case (ds_kind spec = py ''version'', en_index env) of
          (True, Some fetch) \<Rightarrow>
            (let constraint = (case locked of
                 Some lp \<Rightarrow> if lp_source lp = py ''registry'' then lp_version lp else ds_value spec
               | None \<Rightarrow> ds_value spec)
             in bindE (raisesE HostFailure (fetch (ds_name spec))) (\<lambda>index.
                bindE (raisesE RegistryError (resolve_version (ds_name spec) constraint index)) (\<lambda>entry.
                bindE (raisesE HostFailure (en_install env (ds_name spec) entry)) (\<lambda>path.
                  Inr \<lparr>rs_name = ds_name spec, rs_version = the (fst entry), rs_source = py ''registry'', rs_path = path,
                       rs_source_path = None, rs_dependencies = []\<rparr>))))
        | _ \<Rightarrow>
            bindE (case locked of Some lp \<Rightarrow> validate_locked_or_resolved spec (lp_version lp) | None \<Rightarrow> Inr ()) (\<lambda>_.
            bindE (select_registry_package (en_registry env) spec locked) (\<lambda>p.
              Inr \<lparr>rs_name = rp_name p, rs_version = rp_version p, rs_source = rp_source p, rs_path = rp_path p,
                   rs_source_path = None, rs_dependencies = []\<rparr>))))"

definition load_dependency_specs :: "environment \<Rightarrow> pystr \<Rightarrow> resolve_err + dep_spec list" where
  "load_dependency_specs env path =
     (if en_manifest env path then bindE (raisesE HostFailure (en_project env path)) (\<lambda>pj. Inr (pj_dependencies pj))
      else Inr [])"

section \<open>Resolution\<close>

text \<open>The variables that the nested function \<^verbatim>\<open>resolve_spec\<close> shares with the resolver.\<close>

record resolution =
  re_packages :: "(pystr \<times> resolved_package) list"
  re_graph :: "(pystr \<times> pystr list) list"
  re_visiting :: "pystr list"
  re_order :: "pystr list"

fun resolve_spec :: "environment \<Rightarrow> nat \<Rightarrow> pystr \<Rightarrow> dep_spec \<Rightarrow> resolution \<Rightarrow> resolve_err + resolved_package \<times> resolution"
  and resolve_children :: "environment \<Rightarrow> nat \<Rightarrow> pystr \<Rightarrow> dep_spec list \<Rightarrow> resolution \<Rightarrow> resolve_err + pystr list \<times> resolution" where
  "resolve_spec env 0 owner spec st = Inl Unfinished"
| "resolve_spec env (Suc n) owner spec st =
     (case map_of (re_packages st) (ds_name spec) of
        Some p \<Rightarrow> bindE (validate_locked_or_resolved spec (rs_version p)) (\<lambda>_. Inr (p, st))
      | None \<Rightarrow>
          if ds_name spec \<in> set (re_visiting st) then Inl (Cyclic (re_visiting st @ [ds_name spec]))
          else bindE (resolve_single_dependency env owner spec) (\<lambda>p.
            bindE (load_dependency_specs env (rs_path p)) (\<lambda>deps.
            bindE (resolve_children env n (rs_path p) deps (st\<lparr>re_visiting := re_visiting st @ [ds_name spec]\<rparr>)) (\<lambda>(names, st').
              let r = p\<lparr>rs_dependencies := sort names\<rparr>
              in Inr (r, st'\<lparr>re_packages := AList.update (rs_name r) r (re_packages st'),
                            re_graph := AList.update (rs_name r) (rs_dependencies r) (re_graph st'),
                            re_order := re_order st' @ [rs_name r],
                            re_visiting := butlast (re_visiting st')\<rparr>)))))"
| "resolve_children env n owner [] st = Inr ([], st)"
| "resolve_children env n owner (spec # specs) st =
     bindE (resolve_spec env n owner spec st) (\<lambda>(child, st').
     bindE (resolve_children env n owner specs st') (\<lambda>(names, st'').
       Inr (rs_name child # names, st'')))"

definition resolve_project_dependencies :: "environment \<Rightarrow> nat \<Rightarrow> project \<Rightarrow> resolve_err + resolution" where
  "resolve_project_dependencies env n project =
     bindE (resolve_children env n (pj_root project) (pj_dependencies project)
        \<lparr>re_packages = [], re_graph = [], re_visiting = [], re_order = []\<rparr>) (\<lambda>(names, st). Inr st)"

section \<open>What a choice guarantees\<close>

text \<open>The tables of the registry file give every package the name and version it is listed under.\<close>

definition registry_named :: "registry \<Rightarrow> bool" where
  "registry_named reg \<longleftrightarrow> (\<forall>(name, vs) \<in> set reg. \<forall>(v, p) \<in> set vs. rp_name p = name \<and> rp_version p = v)"

lemma mapE_mem: "mapE f xs = Inr ys \<Longrightarrow> y \<in> set ys \<Longrightarrow> \<exists>x \<in> set xs. f x = Inr y"
  by (induction xs arbitrary: ys) (auto simp: result_simps)

lemma versions_named: "registry_named reg \<Longrightarrow> (v, p) \<in> set (versions_of reg name) \<Longrightarrow> rp_name p = name"
  by (cases "map_of reg name") (auto simp: registry_named_def versions_of_def dest!: map_of_SomeD)

lemma get_named: "registry_named reg \<Longrightarrow> map_of (versions_of reg name) v = Some p \<Longrightarrow> rp_name p = name"
  by (rule versions_named[OF _ map_of_SomeD])

lemma available_named:
  assumes "registry_named reg" "available_versions reg name = Inr ps" "p \<in> set ps"
  shows "rp_name p = name"
proof -
  obtain keys a b c tx where keys: "mapE version_sort_key (map fst (versions_of reg name)) = Inr keys" "(a, b, c, tx) \<in> set keys"
    and p: "p = the (map_of (versions_of reg name) tx)"
    using assms(2,3) by (auto simp: available_versions_def bindE_Inr_iff)
  from mapE_mem[OF keys] have "tx \<in> fst ` set (versions_of reg name)"
    by (auto simp: version_sort_key_def bindE_Inr_iff Let_def)
  then obtain p' where "map_of (versions_of reg name) tx = Some p'" by (meson map_of_eq_None_iff not_Some_eq)
  with p show ?thesis using get_named[OF assms(1)] by simp
qed

lemma sort_descending_set [simp]: "set (sort_descending f xs) = set xs"
  by (simp add: sort_descending_def)

lemma select_named:
  assumes "registry_named reg" "select_registry_package reg spec locked = Inr p"
  shows "rp_name p = ds_name spec \<and> satisfies spec (rp_version p)"
proof (cases locked)
  case (Some lp)
  with assms have "map_of (versions_of reg (ds_name spec)) (lp_version lp) = Some p" "satisfies spec (rp_version p)"
    by (auto simp: select_registry_package_def registry_get_def validate_locked_or_resolved_def bindE_Inr_iff
        split: option.splits if_splits)
  then show ?thesis using get_named[OF assms(1)] by simp
next
  case None
  with assms(2) obtain candidates keyed where c: "available_versions reg (ds_name spec) = Inr candidates"
      "mapE (\<lambda>p. bindE (version_parse (rp_version p)) (\<lambda>v. Inr (v, p)))
         (filter (\<lambda>p. matches_requirement (ds_value spec) (rp_version p)) candidates) = Inr keyed"
      and sorted: "(case sort_descending fst keyed of [] \<Rightarrow> Inl (NoneSatisfies (ds_name spec) (ds_value spec))
        | m # ms \<Rightarrow> Inr (snd m)) = Inr p"
    by (auto simp: select_registry_package_def bindE_Inr_iff raisesE_Inr Let_def split: if_splits)
  from sorted obtain m ms where m: "sort_descending fst keyed = m # ms" "snd m = p"
    by (cases "sort_descending fst keyed") auto
  then have "m \<in> set keyed" by (metis list.set_intros(1) sort_descending_set)
  from mapE_mem[OF c(2) this] m(2) have "p \<in> set candidates" "matches_requirement (ds_value spec) (rp_version p)"
    by (auto simp: bindE_Inr_iff)
  then show ?thesis using available_named[OF assms(1) c(1)] by (simp add: satisfies_def)
qed

lemma single_named:
  assumes "registry_named (en_registry env)" "resolve_single_dependency env owner spec = Inr p"
  shows "rs_name p = ds_name spec \<and> (en_index env = None \<longrightarrow> satisfies spec (rs_version p))"
proof (cases "ds_kind spec = py ''path''")
  case True
  with assms(2) show ?thesis
    by (auto simp: resolve_single_dependency_def satisfies_def bindE_Inr_iff Let_def)
next
  case False
  show ?thesis
  proof (cases "ds_kind spec = py ''version'' \<and> en_index env \<noteq> None")
    case True
    with False assms(2) show ?thesis by (auto simp: resolve_single_dependency_def bindE_Inr_iff Let_def)
  next
    case other: False
    with False assms(2) obtain q where "select_registry_package (en_registry env) spec (map_of (en_locked env) (ds_name spec)) = Inr q"
        "rs_name p = rp_name q" "rs_version p = rp_version q"
      by (cases "en_index env"; cases "ds_kind spec = py ''version''") (auto simp: resolve_single_dependency_def bindE_Inr_iff Let_def)
    then show ?thesis using select_named[OF assms(1)] by auto
  qed
qed

section \<open>The order of installation\<close>

definition provided :: "environment \<Rightarrow> (pystr \<times> resolved_package) list \<Rightarrow> dep_spec \<Rightarrow> bool" where
  "provided env ps spec \<longleftrightarrow> (case map_of ps (ds_name spec) of
      None \<Rightarrow> False
    | Some p \<Rightarrow> en_index env = None \<longrightarrow> satisfies spec (rs_version p))"

definition entry_ok :: "environment \<Rightarrow> (pystr \<times> resolved_package) list \<Rightarrow> pystr \<times> resolved_package \<Rightarrow> bool" where
  "entry_ok env before e \<longleftrightarrow> rs_name (snd e) = fst e \<and> (case load_dependency_specs env (rs_path (snd e)) of
      Inl err \<Rightarrow> False
    | Inr deps \<Rightarrow> rs_dependencies (snd e) = sort (map ds_name deps) \<and> list_all (provided env before) deps)"

definition installable :: "environment \<Rightarrow> (pystr \<times> resolved_package) list \<Rightarrow> bool" where
  "installable env ps \<longleftrightarrow> (\<forall>i < length ps. entry_ok env (take i ps) (ps ! i))"

definition consistent :: "environment \<Rightarrow> resolution \<Rightarrow> bool" where
  "consistent env st \<longleftrightarrow> installable env (re_packages st) \<and> distinct (re_order st) \<and>
     re_order st = map fst (re_packages st) \<and> re_graph st = map (\<lambda>(n, p). (n, rs_dependencies p)) (re_packages st) \<and>
     set (re_order st) \<inter> set (re_visiting st) = {}"

definition grows :: "resolution \<Rightarrow> resolution \<Rightarrow> bool" where
  "grows st st' \<longleftrightarrow> re_visiting st' = re_visiting st \<and> (\<exists>qs. re_packages st' = re_packages st @ qs)"

lemma grows_refl [simp]: "grows st st"
  by (simp add: grows_def)

lemma grows_trans: "grows a b \<Longrightarrow> grows b c \<Longrightarrow> grows a c"
  by (auto simp: grows_def)

lemma provided_append: "provided env ps spec \<Longrightarrow> provided env (ps @ qs) spec"
  by (auto simp: provided_def map_add_def split: option.splits)

lemma provided_grows: "grows st st' \<Longrightarrow> provided env (re_packages st) spec \<Longrightarrow> provided env (re_packages st') spec"
  by (auto simp: grows_def provided_append)

lemma installable_snoc: "installable env (ps @ [e]) \<longleftrightarrow> installable env ps \<and> entry_ok env ps e"
  by (auto simp: installable_def nth_append less_Suc_eq)

lemma installable_Nil [simp]: "installable env []"
  by (simp add: installable_def)

lemma installable_name: "installable env ps \<Longrightarrow> map_of ps n = Some p \<Longrightarrow> rs_name p = n"
  by (induction ps rule: rev_induct) (auto simp: installable_snoc entry_ok_def map_add_def split: if_splits option.splits)

lemma update_fresh: "k \<notin> fst ` set xs \<Longrightarrow> AList.update k v xs = xs @ [(k, v)]"
  by (induction xs) auto

lemma consistent_disjoint: "consistent env st \<Longrightarrow> set (re_order st) \<inter> set (re_visiting st) = {}"
  unfolding consistent_def by blast

lemma consistent_visit:
  "consistent env st \<Longrightarrow> n \<notin> set (re_order st) \<Longrightarrow> consistent env (st\<lparr>re_visiting := re_visiting st @ [n]\<rparr>)"
  using consistent_disjoint[of env st] unfolding consistent_def by (elim conjE) simp

text \<open>Adding a package whose dependencies are there.\<close>

lemma consistent_add:
  assumes "consistent env st" "re_visiting st = vs @ [n]" "n \<notin> set vs" "rs_name r = n"
    and "load_dependency_specs env (rs_path r) = Inr deps" "rs_dependencies r = sort (map ds_name deps)"
    and "list_all (provided env (re_packages st)) deps"
  shows "consistent env (st\<lparr>re_packages := AList.update n r (re_packages st),
      re_graph := AList.update n (rs_dependencies r) (re_graph st), re_order := re_order st @ [n], re_visiting := vs\<rparr>)
    \<and> AList.update n r (re_packages st) = re_packages st @ [(n, r)]"
proof -
  have "n \<notin> set (re_order st)" using consistent_disjoint[OF assms(1)] assms(2) by auto
  then have "n \<notin> fst ` set (re_packages st)" "n \<notin> fst ` set (re_graph st)"
    using assms(1) by (simp_all add: consistent_def image_image split_beta)
  then show ?thesis using assms consistent_disjoint[OF assms(1)] unfolding consistent_def
    by (elim conjE) (simp add: update_fresh installable_snoc entry_ok_def)
qed

lemma resolve_keeps:
  assumes "registry_named (en_registry env)"
  shows "resolve_spec env n owner spec st = Inr (p, st') \<Longrightarrow> consistent env st \<Longrightarrow>
      consistent env st' \<and> grows st st' \<and> rs_name p = ds_name spec \<and> provided env (re_packages st') spec"
    and "resolve_children env n owner specs st = Inr (names, st') \<Longrightarrow> consistent env st \<Longrightarrow>
      consistent env st' \<and> grows st st' \<and> names = map ds_name specs \<and> list_all (provided env (re_packages st')) specs"
  using assms
proof (induction env n owner spec st and env n owner specs st arbitrary: p st' and names st'
    rule: resolve_spec_resolve_children.induct)
  case (1 env owner spec st)
  then show ?case by simp
next
  case (2 env n owner spec st)
  show ?case
  proof (cases "map_of (re_packages st) (ds_name spec)")
    case (Some q)
    with 2(2,3) show ?thesis
      by (auto simp: bindE_Inr_iff validate_locked_or_resolved_def provided_def consistent_def installable_name split: if_splits)
  next
    case None
    with 2(2) obtain q deps names st1 where q: "ds_name spec \<notin> set (re_visiting st)"
        "resolve_single_dependency env owner spec = Inr q" "load_dependency_specs env (rs_path q) = Inr deps"
        "resolve_children env n (rs_path q) deps (st\<lparr>re_visiting := re_visiting st @ [ds_name spec]\<rparr>) = Inr (names, st1)"
      and p: "p = q\<lparr>rs_dependencies := sort names\<rparr>"
      and st': "st' = st1\<lparr>re_packages := AList.update (rs_name p) p (re_packages st1),
          re_graph := AList.update (rs_name p) (rs_dependencies p) (re_graph st1), re_order := re_order st1 @ [rs_name p],
          re_visiting := butlast (re_visiting st1)\<rparr>"
      by (auto simp: bindE_Inr_iff Let_def split: if_splits prod.splits)
    have name: "rs_name p = ds_name spec" "en_index env = None \<longrightarrow> satisfies spec (rs_version p)"
      using single_named[OF 2(4) q(2)] by (simp_all add: p)
    have "ds_name spec \<notin> set (re_order st)" using None 2(3) by (simp add: consistent_def map_of_eq_None_iff)
    then have "consistent env (st\<lparr>re_visiting := re_visiting st @ [ds_name spec]\<rparr>)"
      by (rule consistent_visit[OF 2(3)])
    with 2(1)[OF None q(1-4)] 2(4) have 1: "consistent env st1" "re_visiting st1 = re_visiting st @ [ds_name spec]"
        "names = map ds_name deps" "list_all (provided env (re_packages st1)) deps"
        "\<exists>qs. re_packages st1 = re_packages st @ qs"
      by (auto simp: grows_def)
    have "load_dependency_specs env (rs_path p) = Inr deps" "rs_dependencies p = sort (map ds_name deps)"
      using q(3) 1(3) by (simp_all add: p)
    from consistent_add[OF 1(1,2) q(1) name(1) this 1(4)]
    have add: "consistent env st' \<and> re_packages st' = re_packages st1 @ [(ds_name spec, p)]"
      unfolding st' name(1) 1(2) butlast_snoc by (elim conjE) simp
    then have "map_of (re_packages st') (ds_name spec) = Some p"
      unfolding consistent_def by (elim conjE, intro map_of_is_SomeI) simp_all
    then show ?thesis using add 1(2,5) name by (auto simp: grows_def provided_def st')
  qed
next
  case (3 env n owner st)
  then show ?case by simp
next
  case (4 env n owner spec specs st)
  from 4(3) obtain child st1 names' where a: "resolve_spec env n owner spec st = Inr (child, st1)"
      and b: "resolve_children env n owner specs st1 = Inr (names', st')" and names: "names = rs_name child # names'"
    by (auto simp: bindE_Inr_iff split: prod.splits)
  from "4.IH"(1)[OF a] 4(4,5) have 1: "consistent env st1" "grows st st1" "rs_name child = ds_name spec" "provided env (re_packages st1) spec"
    by auto
  from "4.IH"(2)[OF a refl b] 1(1) 4(5) have 2: "consistent env st'" "grows st1 st'" "names' = map ds_name specs"
      "list_all (provided env (re_packages st')) specs"
    by auto
  with 1 names show ?case by (auto intro: grows_trans provided_grows)
qed

section \<open>Enough depth\<close>

text \<open>All names of a project and of the manifests on disk.\<close>

definition names_in :: "environment \<Rightarrow> pystr set \<Rightarrow> bool" where
  "names_in env N \<longleftrightarrow> (\<forall>path pj. en_project env path = Inr pj \<longrightarrow> ds_name ` set (pj_dependencies pj) \<subseteq> N)"

lemma single_finishes: "resolve_single_dependency env owner spec \<noteq> Inl Unfinished"
  by (auto simp: resolve_single_dependency_def select_registry_package_def validate_locked_or_resolved_def raisesE_def
      bindE_Inl_iff Let_def split: option.splits list.splits if_splits sum.splits bool.splits prod.splits)

lemma loads_in:
  "names_in env N \<Longrightarrow> load_dependency_specs env path = Inr deps \<Longrightarrow> ds_name ` set deps \<subseteq> N"
  "load_dependency_specs env path \<noteq> Inl Unfinished"
  by (auto simp: names_in_def load_dependency_specs_def raisesE_def bindE_Inr_iff bindE_Inl_iff split: if_splits sum.splits)

lemma resolve_finishes:
  assumes "names_in env N" "finite N" "registry_named (en_registry env)"
  shows "ds_name spec \<in> N \<Longrightarrow> distinct (re_visiting st) \<Longrightarrow> set (re_visiting st) \<subseteq> N \<Longrightarrow>
      card N < n + length (re_visiting st) \<Longrightarrow> consistent env st \<Longrightarrow> resolve_spec env n owner spec st \<noteq> Inl Unfinished"
    and "ds_name ` set specs \<subseteq> N \<Longrightarrow> distinct (re_visiting st) \<Longrightarrow> set (re_visiting st) \<subseteq> N \<Longrightarrow>
      card N < n + length (re_visiting st) \<Longrightarrow> consistent env st \<Longrightarrow> resolve_children env n owner specs st \<noteq> Inl Unfinished"
  using assms
proof (induction env n owner spec st and env n owner specs st rule: resolve_spec_resolve_children.induct)
  case (1 env owner spec st)
  then have "length (re_visiting st) \<le> card N" by (metis card_mono distinct_card)
  with 1 show ?case by simp
next
  case (2 env n owner spec st)
  let ?st = "st\<lparr>re_visiting := re_visiting st @ [ds_name spec]\<rparr>"
  have "resolve_children env n (rs_path p) deps ?st \<noteq> Inl Unfinished"
    if r: "map_of (re_packages st) (ds_name spec) = None" "ds_name spec \<notin> set (re_visiting st)"
      "resolve_single_dependency env owner spec = Inr p" "load_dependency_specs env (rs_path p) = Inr deps" for p deps
  proof (rule 2(1)[OF r])
    have "ds_name spec \<notin> set (re_order st)" using r(1) 2(6) by (simp add: consistent_def map_of_eq_None_iff)
    then show "consistent env ?st" by (rule consistent_visit[OF 2(6)])
  qed (use 2 r loads_in(1) in auto)
  then show ?case
    using single_finishes loads_in(2)
    by (auto simp: bindE_Inl_iff validate_locked_or_resolved_def Let_def split: option.splits if_splits prod.splits)
next
  case (3 env n owner st)
  then show ?case by simp
next
  case (4 env n owner spec specs st)
  have "resolve_spec env n owner spec st \<noteq> Inl Unfinished" using 4 by simp
  moreover have "resolve_children env n owner specs st1 \<noteq> Inl Unfinished"
    if r: "resolve_spec env n owner spec st = Inr (child, st1)" for child st1
    using resolve_keeps(1)[OF 4(10) r 4(7)] "4.IH"(2)[OF r refl] 4(3-10) by (auto simp: grows_def)
  ultimately show ?case by (auto simp: bindE_Inl_iff split: prod.splits)
qed

section \<open>Properties\<close>

text \<open>C18: A resolution is complete and in order. When the resolver succeeds, the order of installation names
  every package once; the dependencies of a package are exactly those its manifest lists, and each of
  them comes before it; every dependency of the project is resolved; and, when there is no registry
  client, the version of every resolved package satisfies each requirement on it, of the project and of
  the other packages.\<close>

theorem resolution_sound:
  assumes "registry_named (en_registry env)" and "resolve_project_dependencies env n project = Inr st"
  shows "distinct (re_order st) \<and> re_order st = map fst (re_packages st) \<and>
    re_graph st = map (\<lambda>(n, p). (n, rs_dependencies p)) (re_packages st) \<and>
    (\<forall>i < length (re_packages st). entry_ok env (take i (re_packages st)) (re_packages st ! i)) \<and>
    list_all (provided env (re_packages st)) (pj_dependencies project)"
proof -
  let ?st = "\<lparr>re_packages = [], re_graph = [], re_visiting = [], re_order = []\<rparr>"
  obtain names where r: "resolve_children env n (pj_root project) (pj_dependencies project) ?st = Inr (names, st)"
    using assms(2) by (auto simp: resolve_project_dependencies_def bindE_Inr_iff split: prod.splits)
  have "consistent env ?st" by (simp add: consistent_def)
  from resolve_keeps(2)[OF assms(1) r this] show ?thesis unfolding consistent_def installable_def by blast
qed

text \<open>A project that needs a local directory, whose manifest needs a package of the local registry.\<close>

definition sample_env :: environment where
  "sample_env =
     \<lparr>en_project = (\<lambda>path. Inr \<lparr>pj_version = py ''0.1'', pj_root = path,
        pj_dependencies = (if path = py ''/lib'' then [\<lparr>ds_name = py ''util'', ds_kind = py ''version'', ds_value = py ''^1''\<rparr>] else [])\<rparr>),
      en_manifest = (\<lambda>path. path = py ''/lib''), en_abspath = (\<lambda>owner raw. raw), en_relpath = (\<lambda>owner path. path),
      en_locked = [], en_registry = [(py ''util'', [(py ''1.4'', \<lparr>rp_name = py ''util'', rp_version = py ''1.4'',
        rp_source = py ''registry'', rp_path = py ''/util''\<rparr>)])],
      en_index = None, en_install = (\<lambda>name e. Inl [])\<rparr>"

definition sample_project :: project where
  "sample_project = \<lparr>pj_version = py ''0.1'', pj_root = py ''/app'',
     pj_dependencies = [\<lparr>ds_name = py ''lib'', ds_kind = py ''path'', ds_value = py ''/lib''\<rparr>]\<rparr>"

lemma sample_named: "registry_named (en_registry sample_env)"
  by (simp add: registry_named_def sample_env_def)

lemma sample_versions:
  "version_parse (py ''1'') = Inr (Version 1 0 0)" "version_parse (py ''1.4'') = Inr (Version 1 4 0)"
  "split_on 46 (py ''1.4'') = [py ''1'', py ''4'']" "matches_requirement (py ''^1'') (py ''1.4'')"
  "numeric_part (py ''1'') = Inr 1" "numeric_part (py ''4'') = Inr 4"
proof -
  show v: "version_parse (py ''1'') = Inr (Version 1 0 0)" "version_parse (py ''1.4'') = Inr (Version 1 4 0)"
    by (simp_all add: version_eval)
  have "py ''^1'' = py ''^'' @ py ''1''" by (simp add: py_def)
  then show "matches_requirement (py ''^1'') (py ''1.4'')"
    by (simp add: matches_requirement_def range_parse_prefixed[OF v(1)] v range_matches_between caret_upper_def
        less_eq_version_def less_version_def del: range_matches.simps)
qed (simp_all add: version_eval)

lemma sample_steps:
  "resolve_single_dependency sample_env owner \<lparr>ds_name = py ''lib'', ds_kind = py ''path'', ds_value = py ''/lib''\<rparr> =
     Inr \<lparr>rs_name = py ''lib'', rs_version = py ''0.1'', rs_source = py ''path'', rs_path = py ''/lib'',
       rs_source_path = Some (py ''/lib''), rs_dependencies = []\<rparr>"
  "resolve_single_dependency sample_env owner \<lparr>ds_name = py ''util'', ds_kind = py ''version'', ds_value = py ''^1''\<rparr> =
     Inr \<lparr>rs_name = py ''util'', rs_version = py ''1.4'', rs_source = py ''registry'', rs_path = py ''/util'',
       rs_source_path = None, rs_dependencies = []\<rparr>"
  "load_dependency_specs sample_env (py ''/lib'') = Inr [\<lparr>ds_name = py ''util'', ds_kind = py ''version'', ds_value = py ''^1''\<rparr>]"
  "load_dependency_specs sample_env (py ''/util'') = Inr []"
  by (simp_all add: sample_env_def resolve_single_dependency_def load_dependency_specs_def select_registry_package_def
      available_versions_def versions_of_def version_sort_key_def sample_versions sort_descending_def Let_def
      del: numeric_part.simps)

lemma sample_resolution: "\<exists>st. resolve_project_dependencies sample_env 3 sample_project = Inr st"
  by (simp add: resolve_project_dependencies_def sample_project_def numeral_3_eq_3 sample_steps Let_def)

theorem resolution_sound_witness:
  "\<exists>st. resolve_project_dependencies sample_env 3 sample_project = Inr st \<and>
     distinct (re_order st) \<and> list_all (provided sample_env (re_packages st)) (pj_dependencies sample_project)"
  using sample_resolution resolution_sound[OF sample_named] by blast

text \<open>C19: Resolution ends. If the names of all dependencies, of the project and of every manifest, are among
  finitely many, a recursion one deeper than their number resolves the project or ends in an error of the
  resolver; the bound of the model is never reached.\<close>

theorem resolution_ends:
  assumes "names_in env N" and "finite N" and "ds_name ` set (pj_dependencies project) \<subseteq> N"
    and "registry_named (en_registry env)" and "card N < n"
  shows "resolve_project_dependencies env n project \<noteq> Inl Unfinished"
proof -
  let ?st = "\<lparr>re_packages = [], re_graph = [], re_visiting = [], re_order = []\<rparr>"
  have "resolve_children env n (pj_root project) (pj_dependencies project) ?st \<noteq> Inl Unfinished"
    using assms by (intro resolve_finishes(2)) (auto simp: consistent_def)
  then show ?thesis by (auto simp: resolve_project_dependencies_def bindE_Inl_iff split: prod.splits)
qed

theorem resolution_ends_witness: "resolve_project_dependencies sample_env 3 sample_project \<noteq> Inl Unfinished"
proof (rule resolution_ends)
  show "names_in sample_env {py ''util'', py ''lib''}" by (auto simp: names_in_def sample_env_def)
  show "card {py ''util'', py ''lib''} < 3" by (simp add: card_insert_if)
qed (auto simp: sample_project_def sample_named)

text \<open>With a registry client, the requirement in the manifest plays no part once the lock file has an entry from
  the registry: the locked version is installed without the check that the other paths make.\<close>

theorem locked_requirement_ignored:
  assumes "ds_kind spec = py ''version''" and "en_index env \<noteq> None"
    and "map_of (en_locked env) (ds_name spec) = Some lp" and "lp_source lp = py ''registry''"
  shows "resolve_single_dependency env owner (spec\<lparr>ds_value := requirement\<rparr>) = resolve_single_dependency env owner spec"
  using assms by (auto simp: resolve_single_dependency_def)

text \<open>A requirement that is no range is compared as a text, but sorting the matches parses them: the choice
  raises.\<close>

theorem text_requirement_raises:
  "select_registry_package [(py ''util'', [(py ''dev'', \<lparr>rp_name = py ''util'', rp_version = py ''dev'', rp_source = py ''registry'',
      rp_path = py ''/util''\<rparr>)])] \<lparr>ds_name = py ''util'', ds_kind = py ''version'', ds_value = py ''dev''\<rparr> None =
    Inl (VersionError (InvalidVersion (py ''dev'')))"
proof -
  have tx: "py ''dev'' = [100, 101, 118]" by (simp add: py_def)
  have digit: "\<not> is_digit 100" by (simp add: is_digit_def in_ranges_def digit_ranges_def)
  have strip: "strip [100, 101, 118] = [100, 101, 118]" by (simp add: strip_def is_space_def in_ranges_def space_ranges_def)
  have dev: "version_parse (py ''dev'') = Inl (InvalidVersion (py ''dev''))"
    unfolding tx by (simp add: version_parse_def strip digit)
  moreover have "version_sort_key (py ''dev'') = Inr (- 1, 0, 0, py ''dev'')"
    unfolding tx by (simp add: version_sort_key_def digit)
  moreover have "range_parse (py ''dev'') = Inl (InvalidVersion (py ''dev''))"
    using dev unfolding tx by (simp add: range_parse_def part_parse_def range_ops_def strip py_def)
  ultimately show ?thesis
    by (simp add: select_registry_package_def available_versions_def versions_of_def matches_requirement_def)
qed

end
