(* ===== verification/Channels.thy ===== *)
theory Channels
  imports VM_State
begin

text \<open>
  Channels between coroutines: the state of \<^verbatim>\<open>src/nodus/runtime/channel.py\<close>, the builtins \<^verbatim>\<open>channel\<close>,
  \<^verbatim>\<open>send\<close>, \<^verbatim>\<open>recv\<close> and \<^verbatim>\<open>close\<close> of \<^verbatim>\<open>src/nodus/builtins/coroutine.py\<close>, and what they use of the scheduler,
  \<^verbatim>\<open>schedule\<close> and \<^verbatim>\<open>unpark\<close> of \<^verbatim>\<open>src/nodus/runtime/scheduler.py\<close>. Coroutines and channels are mutable
  objects with an identity, so they are numbered and kept in a store. Of a coroutine the model keeps what
  these operations read or write; the rest of what \<^verbatim>\<open>save_current_coroutine_state\<close> saves is one field
  \<open>c_context\<close> of any type. The top of a stack is the head of the list. Events, which only report, are left
  out, as are the channels of the host that threads write to.
\<close>

section \<open>State\<close>

record 'c coro =
  c_id :: "nat option"
  c_state :: pystr
  c_stack :: "val list"
  c_context :: 'c
  c_blocked_on :: "nat option"
  c_blocked_reason :: "pystr option"

record channel =
  ch_maxsize :: nat
  ch_queue :: "val list"
  ch_receivers :: "nat list"
  ch_senders :: "(nat \<times> val) list"
  ch_closed :: bool

text \<open>The scheduler and the running machine. \<open>sc_timers\<close> are the coroutines of the timer heap, earliest first.\<close>

record 'c sched =
  sc_coros :: "nat \<Rightarrow> 'c coro"
  sc_chans :: "nat \<Rightarrow> channel"
  sc_ready :: "nat list"
  sc_timers :: "nat list"
  sc_sleeping :: "nat set"
  sc_recv :: "nat set"
  sc_send :: "nat set"
  sc_ages :: "nat \<rightharpoonup> nat"
  sc_resumes :: nat
  sc_current :: "nat option"
  sc_current_task :: "nat option"
  sc_stack :: "val list"
  sc_context :: 'c

text \<open>What a builtin does: it returns, it parks the running coroutine, or it raises an error of a kind.\<close>

datatype reply = Return val | Parked | Raised pystr pystr

definition suspended :: "'c sched \<Rightarrow> nat \<Rightarrow> bool" where
  "suspended s c \<longleftrightarrow> c_state (sc_coros s c) = py ''suspended''"

definition set_coro :: "nat \<Rightarrow> ('c coro \<Rightarrow> 'c coro) \<Rightarrow> 'c sched \<Rightarrow> 'c sched" where
  "set_coro c f s = s\<lparr>sc_coros := (sc_coros s)(c := f (sc_coros s c))\<rparr>"

definition set_chan :: "nat \<Rightarrow> (channel \<Rightarrow> channel) \<Rightarrow> 'c sched \<Rightarrow> 'c sched" where
  "set_chan k f s = s\<lparr>sc_chans := (sc_chans s)(k := f (sc_chans s k))\<rparr>"

section \<open>Operations of the scheduler\<close>

definition schedule :: "nat \<Rightarrow> 'c sched \<Rightarrow> 'c sched" where
  "schedule c s =
     (if c_state (sc_coros s c) = py ''finished'' then s
      else s\<lparr>sc_ready := sc_ready s @ [c],
             sc_ages := (case c_id (sc_coros s c) of None \<Rightarrow> sc_ages s | Some i \<Rightarrow> (sc_ages s)(i \<mapsto> sc_resumes s))\<rparr>)"

definition unblock :: "nat \<Rightarrow> 'c sched \<Rightarrow> 'c sched" where
  "unblock c = set_coro c (\<lambda>co. co\<lparr>c_blocked_on := None, c_blocked_reason := None\<rparr>)"

definition answer :: "nat \<Rightarrow> val \<Rightarrow> 'c sched \<Rightarrow> 'c sched" where
  "answer c v = set_coro c (\<lambda>co. co\<lparr>c_stack := (case c_stack co of [] \<Rightarrow> [] | _ # st \<Rightarrow> v # st)\<rparr>)"

definition leave_channel :: "nat \<Rightarrow> nat \<Rightarrow> 'c sched \<Rightarrow> 'c sched" where
  "leave_channel c k s =
     (let s1 = set_chan k (\<lambda>ch. ch\<lparr>ch_receivers := filter (\<lambda>w. w \<noteq> c) (ch_receivers ch),
                                  ch_senders := filter (\<lambda>e. fst e \<noteq> c) (ch_senders ch)\<rparr>) s;
          ch = sc_chans s1 k
      in s1\<lparr>sc_recv := (if ch_receivers ch = [] then sc_recv s1 - {k} else sc_recv s1),
            sc_send := (if ch_senders ch = [] then sc_send s1 - {k} else sc_send s1)\<rparr>)"

text \<open>\<^verbatim>\<open>unpark\<close>, for a coroutine that waits for a channel or for no object with queues of waiters.\<close>

definition unpark :: "nat \<Rightarrow> 'c sched \<Rightarrow> 'c sched" where
  "unpark c s =
     (let s1 = s\<lparr>sc_ready := remove1 c (sc_ready s), sc_timers := filter (\<lambda>t. t \<noteq> c) (sc_timers s),
                 sc_sleeping := (case c_id (sc_coros s c) of None \<Rightarrow> sc_sleeping s | Some i \<Rightarrow> sc_sleeping s - {i})\<rparr>
      in unblock c (case c_blocked_on (sc_coros s c) of None \<Rightarrow> s1 | Some k \<Rightarrow> leave_channel c k s1))"

section \<open>The builtins\<close>

definition park :: "nat \<Rightarrow> string \<Rightarrow> nat \<Rightarrow> 'c sched \<Rightarrow> 'c sched" where
  "park k reason c s =
     set_coro c (\<lambda>co. co\<lparr>c_state := py ''suspended'', c_blocked_on := Some k, c_blocked_reason := Some (py reason),
        c_stack := VNil # sc_stack s, c_context := sc_context s\<rparr>) (s\<lparr>sc_stack := VNil # sc_stack s\<rparr>)"

text \<open>\<^verbatim>\<open>channel(maxsize)\<close>: the new channel, under a number that is not in use.\<close>

definition builtin_channel :: "nat \<Rightarrow> val \<Rightarrow> 'c sched \<Rightarrow> reply \<times> 'c sched" where
  "builtin_channel k maxsize s = (case maxsize of
      VInt n \<Rightarrow> if n < 0 then (Raised (py ''value'') (py ''channel() maxsize must be a non-negative integer''), s)
               else (Return (VRef k), set_chan k (\<lambda>_. \<lparr>ch_maxsize = nat n, ch_queue = [], ch_receivers = [], ch_senders = [], ch_closed = False\<rparr>) s)
    | _ \<Rightarrow> (Raised (py ''value'') (py ''channel() maxsize must be a non-negative integer''), s))"

definition wrap_hint :: pystr where
  "wrap_hint = [8212] @ py '' wrap your code in spawn(coroutine(fn() { ... })) and call run_loop()''"

definition full_message :: "channel \<Rightarrow> pystr" where
  "full_message ch = py ''send: channel is full (maxsize='' @ str_nat (ch_maxsize ch) @
     py '') and a blocking send needs a coroutine '' @ wrap_hint"

text \<open>The argument of the next three is a channel; for other values \<^verbatim>\<open>ensure_channel\<close> raises before anything
  happens.\<close>

definition builtin_send :: "nat \<Rightarrow> val \<Rightarrow> 'c sched \<Rightarrow> reply \<times> 'c sched" where
  "builtin_send k v s =
     (let ch = sc_chans s k in
      if ch_closed ch then (Raised (py ''runtime'') (py ''send on closed channel''), s)
      else case ch_receivers ch of
        r # rs \<Rightarrow>
          (let s1 = schedule r (unblock r (answer r v (set_chan k (\<lambda>ch. ch\<lparr>ch_receivers := rs\<rparr>) s)))
           in (Return VNil, s1\<lparr>sc_recv := (if rs = [] then sc_recv s1 - {k} else sc_recv s1)\<rparr>))
      | [] \<Rightarrow>
          if 0 < ch_maxsize ch \<and> ch_maxsize ch \<le> length (ch_queue ch) then
            (case sc_current s of
               None \<Rightarrow> (Raised (py ''runtime'') (full_message ch), s)
             | Some c \<Rightarrow>
                 if sc_current_task s \<noteq> Some c then (Raised (py ''runtime'') (full_message ch), s)
                 else (let s1 = set_chan k (\<lambda>ch. ch\<lparr>ch_senders := ch_senders ch @ [(c, v)]\<rparr>) (park k ''channel_send'' c s)
                       in (Parked, s1\<lparr>sc_send := insert k (sc_send s1)\<rparr>)))
          else (Return VNil, set_chan k (\<lambda>ch. ch\<lparr>ch_queue := ch_queue ch @ [v]\<rparr>) s))"

fun wake_loop :: "nat \<Rightarrow> (nat \<times> val) list \<Rightarrow> 'c sched \<Rightarrow> 'c sched" where
  "wake_loop k [] s = set_chan k (\<lambda>ch. ch\<lparr>ch_senders := []\<rparr>) s"
| "wake_loop k ((c, v) # rest) s =
     (if \<not> suspended s c then wake_loop k rest s
      else schedule c (unblock c (set_chan k (\<lambda>ch. ch\<lparr>ch_queue := ch_queue ch @ [v], ch_senders := rest\<rparr>) s)))"

definition wake_one_sender :: "nat \<Rightarrow> 'c sched \<Rightarrow> 'c sched" where
  "wake_one_sender k s =
     (let s1 = wake_loop k (ch_senders (sc_chans s k)) s
      in s1\<lparr>sc_send := (if ch_senders (sc_chans s1 k) = [] then sc_send s1 - {k} else sc_send s1)\<rparr>)"

definition builtin_recv :: "nat \<Rightarrow> 'c sched \<Rightarrow> reply \<times> 'c sched" where
  "builtin_recv k s =
     (let ch = sc_chans s k in
      case ch_queue ch of
        v # vs \<Rightarrow> (Return v, wake_one_sender k (set_chan k (\<lambda>ch. ch\<lparr>ch_queue := vs\<rparr>) s))
      | [] \<Rightarrow>
          if ch_closed ch then (Return VNil, s)
          else (case sc_current s of
              None \<Rightarrow> (Raised (py ''runtime'') (py ''recv(channel) outside coroutine '' @ wrap_hint), s)
            | Some c \<Rightarrow>
                (let s1 = set_chan k (\<lambda>ch. ch\<lparr>ch_receivers := ch_receivers ch @ [c]\<rparr>) (park k ''channel_recv'' c s)
                 in (Parked, s1\<lparr>sc_recv := insert k (sc_recv s1)\<rparr>))))"

fun flush_senders :: "nat \<Rightarrow> (nat \<times> val) list \<Rightarrow> 'c sched \<Rightarrow> 'c sched" where
  "flush_senders k [] s = s"
| "flush_senders k ((c, v) # rest) s =
     (let s1 = set_chan k (\<lambda>ch. ch\<lparr>ch_senders := rest, ch_queue := ch_queue ch @ [v]\<rparr>) s
      in flush_senders k rest (if suspended s1 c then schedule c (unblock c s1) else s1))"

fun release_receivers :: "nat \<Rightarrow> nat list \<Rightarrow> 'c sched \<Rightarrow> 'c sched" where
  "release_receivers k [] s = s"
| "release_receivers k (r # rest) s =
     (let s1 = set_chan k (\<lambda>ch. ch\<lparr>ch_receivers := rest\<rparr>) s
      in release_receivers k rest (if suspended s1 r then schedule r (unblock r (answer r VNil s1)) else s1))"

definition builtin_close :: "nat \<Rightarrow> 'c sched \<Rightarrow> reply \<times> 'c sched" where
  "builtin_close k s =
     (if ch_closed (sc_chans s k) then (Return VNil, s)
      else (let s1 = set_chan k (\<lambda>ch. ch\<lparr>ch_closed := True\<rparr>) s;
                s2 = flush_senders k (ch_senders (sc_chans s1 k)) s1;
                s3 = release_receivers k (ch_receivers (sc_chans s2 k)) (s2\<lparr>sc_send := sc_send s2 - {k}\<rparr>)
            in (Return VNil, s3\<lparr>sc_recv := sc_recv s3 - {k}\<rparr>)))"

section \<open>The channels after an operation\<close>

text \<open>Coroutines and channels are separate parts of the state.\<close>

lemma set_chan_fields [simp]:
  "sc_chans (set_chan k f s) = (sc_chans s)(k := f (sc_chans s k))" "sc_coros (set_chan k f s) = sc_coros s"
  "sc_recv (set_chan k f s) = sc_recv s" "sc_send (set_chan k f s) = sc_send s" "sc_ready (set_chan k f s) = sc_ready s"
  "sc_current (set_chan k f s) = sc_current s" "sc_current_task (set_chan k f s) = sc_current_task s"
  by (simp_all add: set_chan_def)

lemma set_coro_fields [simp]:
  "sc_chans (set_coro c f s) = sc_chans s" "sc_coros (set_coro c f s) = (sc_coros s)(c := f (sc_coros s c))"
  "sc_recv (set_coro c f s) = sc_recv s" "sc_send (set_coro c f s) = sc_send s" "sc_ready (set_coro c f s) = sc_ready s"
  by (simp_all add: set_coro_def)

lemma schedule_fields [simp]:
  "sc_chans (schedule c s) = sc_chans s" "sc_coros (schedule c s) = sc_coros s"
  "sc_recv (schedule c s) = sc_recv s" "sc_send (schedule c s) = sc_send s"
  by (simp_all add: schedule_def)

lemma unblock_fields [simp]:
  "sc_chans (unblock c s) = sc_chans s" "sc_recv (unblock c s) = sc_recv s" "sc_send (unblock c s) = sc_send s"
  "sc_ready (unblock c s) = sc_ready s" "suspended (unblock c s) = suspended s"
  by (auto simp: unblock_def suspended_def fun_eq_iff)

lemma answer_fields [simp]:
  "sc_chans (answer c v s) = sc_chans s" "sc_recv (answer c v s) = sc_recv s" "sc_send (answer c v s) = sc_send s"
  "sc_ready (answer c v s) = sc_ready s" "suspended (answer c v s) = suspended s"
  by (auto simp: answer_def suspended_def fun_eq_iff)

lemma park_fields [simp]:
  "sc_chans (park k r c s) = sc_chans s" "sc_recv (park k r c s) = sc_recv s" "sc_send (park k r c s) = sc_send s"
  by (simp_all add: park_def)

lemma suspended_same [simp]: "suspended (schedule c s) = suspended s" "suspended (set_chan k f s) = suspended s"
  by (simp_all add: suspended_def fun_eq_iff)

text \<open>Waking a sender and flushing them, on the channel alone.\<close>

fun woken :: "(nat \<Rightarrow> bool) \<Rightarrow> (nat \<times> val) list \<Rightarrow> val list \<times> (nat \<times> val) list" where
  "woken alive [] = ([], [])"
| "woken alive ((c, v) # rest) = (if alive c then ([v], rest) else woken alive rest)"

lemma wake_loop_fields [simp]: "sc_recv (wake_loop k es s) = sc_recv s" "sc_send (wake_loop k es s) = sc_send s"
    "suspended (wake_loop k es s) = suspended s"
  by (induction k es s rule: wake_loop.induct) auto

lemma wake_loop_chans:
  "sc_chans (wake_loop k es s) = (sc_chans s)(k := sc_chans s k
     \<lparr>ch_queue := ch_queue (sc_chans s k) @ fst (woken (suspended s) es), ch_senders := snd (woken (suspended s) es)\<rparr>)"
  by (induction k es s rule: wake_loop.induct) auto

lemma flush_fields [simp]: "sc_recv (flush_senders k es s) = sc_recv s" "sc_send (flush_senders k es s) = sc_send s"
  by (induction k es s rule: flush_senders.induct) (auto simp: Let_def)

lemma flush_chans:
  "sc_chans (flush_senders k es s) = (if es = [] then sc_chans s else (sc_chans s)(k := sc_chans s k
     \<lparr>ch_queue := ch_queue (sc_chans s k) @ map snd es, ch_senders := []\<rparr>))"
  by (induction k es s rule: flush_senders.induct) (auto simp: Let_def)

lemma release_fields [simp]: "sc_recv (release_receivers k rs s) = sc_recv s" "sc_send (release_receivers k rs s) = sc_send s"
  by (induction k rs s rule: release_receivers.induct) (auto simp: Let_def)

lemma release_chans:
  "sc_chans (release_receivers k rs s) = (if rs = [] then sc_chans s else (sc_chans s)(k := (sc_chans s k)\<lparr>ch_receivers := []\<rparr>))"
  by (induction k rs s rule: release_receivers.induct) (auto simp: Let_def)

lemma close_chans:
  "\<not> ch_closed (sc_chans s k) \<Longrightarrow> sc_chans (snd (builtin_close k s)) = (sc_chans s)(k := (sc_chans s k)
     \<lparr>ch_closed := True, ch_queue := ch_queue (sc_chans s k) @ map snd (ch_senders (sc_chans s k)),
      ch_senders := [], ch_receivers := []\<rparr>)"
  by (auto simp: builtin_close_def Let_def flush_chans release_chans)

section \<open>Runs\<close>

text \<open>What programs and the scheduler do to channels: the builtins, in any order and by any coroutine, the
  unparking of a coroutine, and anything that leaves the channels and their registration alone, such as
  running, resuming, suspending and finishing coroutines. A new channel takes an unused number.\<close>

definition new_channel :: "channel \<Rightarrow> bool" where
  "new_channel ch \<longleftrightarrow> ch_queue ch = [] \<and> ch_receivers ch = [] \<and> ch_senders ch = [] \<and> \<not> ch_closed ch"

inductive channel_step :: "'c sched \<Rightarrow> 'c sched \<Rightarrow> bool" where
  step_channel: "new_channel (sc_chans s k) \<Longrightarrow> channel_step s (snd (builtin_channel k n s))"
| step_send: "channel_step s (snd (builtin_send k v s))"
| step_recv: "channel_step s (snd (builtin_recv k s))"
| step_close: "channel_step s (snd (builtin_close k s))"
| step_unpark: "channel_step s (unpark c s)"
| step_other: "sc_chans s' = sc_chans s \<Longrightarrow> sc_recv s' = sc_recv s \<Longrightarrow> sc_send s' = sc_send s \<Longrightarrow> channel_step s s'"

inductive channel_run :: "'c sched \<Rightarrow> bool" where
  run_start: "(\<And>k. new_channel (sc_chans s k)) \<Longrightarrow> sc_recv s = {} \<Longrightarrow> sc_send s = {} \<Longrightarrow> channel_run s"
| run_step: "channel_run s \<Longrightarrow> channel_step s s' \<Longrightarrow> channel_run s'"

inductive_cases channel_stepE: "channel_step s s'"

text \<open>What holds of a channel between operations.\<close>

definition channel_ok :: "channel \<Rightarrow> bool" where
  "channel_ok ch \<longleftrightarrow> (ch_receivers ch \<noteq> [] \<longrightarrow> ch_queue ch = []) \<and>
     (ch_senders ch \<noteq> [] \<longrightarrow> 0 < ch_maxsize ch \<and> length (ch_queue ch) = ch_maxsize ch) \<and>
     (\<not> ch_closed ch \<longrightarrow> 0 < ch_maxsize ch \<longrightarrow> length (ch_queue ch) \<le> ch_maxsize ch) \<and>
     (ch_closed ch \<longrightarrow> ch_receivers ch = [] \<and> ch_senders ch = [])"

definition registered :: "'c sched \<Rightarrow> nat \<Rightarrow> bool" where
  "registered s k \<longleftrightarrow> channel_ok (sc_chans s k) \<and> (k \<in> sc_recv s \<longleftrightarrow> ch_receivers (sc_chans s k) \<noteq> []) \<and>
     (k \<in> sc_send s \<longleftrightarrow> ch_senders (sc_chans s k) \<noteq> [])"

lemma woken_ok: "snd (woken alive es) \<noteq> [] \<Longrightarrow> length (fst (woken alive es)) = 1"
  by (induction es) auto

lemma woken_short: "length (fst (woken alive es)) \<le> Suc 0" "es = [] \<Longrightarrow> woken alive es = ([], [])"
  by (induction es) auto

lemma send_keeps: "registered s j \<Longrightarrow> registered (snd (builtin_send k v s)) j"
  by (auto simp: registered_def channel_ok_def builtin_send_def Let_def split: list.splits option.splits)

lemma wake_one_sender_fields:
  "sc_recv (wake_one_sender k s) = sc_recv s"
  "sc_chans (wake_one_sender k s) = (sc_chans s)(k := sc_chans s k
     \<lparr>ch_queue := ch_queue (sc_chans s k) @ fst (woken (suspended s) (ch_senders (sc_chans s k))),
      ch_senders := snd (woken (suspended s) (ch_senders (sc_chans s k)))\<rparr>)"
  "j \<in> sc_send (wake_one_sender k s) \<longleftrightarrow> j \<in> sc_send s \<and> (j = k \<longrightarrow> snd (woken (suspended s) (ch_senders (sc_chans s k))) \<noteq> [])"
  by (auto simp: wake_one_sender_def Let_def wake_loop_chans)

lemma recv_ok:
  assumes "channel_ok (sc_chans s k)"
  shows "channel_ok (sc_chans (snd (builtin_recv k s)) k)"
proof (cases "ch_queue (sc_chans s k)")
  case Nil
  with assms show ?thesis by (auto simp: channel_ok_def builtin_recv_def Let_def split: option.splits)
next
  case (Cons v vs)
  let ?es = "ch_senders (sc_chans s k)"
  have "snd (woken (suspended s) ?es) \<noteq> [] \<Longrightarrow> length (fst (woken (suspended s) ?es)) = 1"
      "length (fst (woken (suspended s) ?es)) \<le> Suc 0" "?es = [] \<Longrightarrow> woken (suspended s) ?es = ([], [])"
    by (simp_all add: woken_ok woken_short)
  with assms Cons show ?thesis
    by (cases "?es = []") (auto simp: channel_ok_def builtin_recv_def wake_one_sender_fields)
qed

lemma recv_keeps: "registered s j \<Longrightarrow> registered (snd (builtin_recv k s)) j"
  using recv_ok[of s k] woken_short(2)[of "ch_senders (sc_chans s k)" "suspended s"]
  by (cases "j = k") (auto simp: registered_def builtin_recv_def Let_def wake_one_sender_fields split: list.splits option.splits)

lemma close_ok: "channel_ok (sc_chans s k) \<Longrightarrow> channel_ok (sc_chans (snd (builtin_close k s)) k)"
  by (cases "ch_closed (sc_chans s k)") (simp add: builtin_close_def, simp add: close_chans channel_ok_def)

lemma close_keeps: "registered s j \<Longrightarrow> registered (snd (builtin_close k s)) j"
proof (cases "ch_closed (sc_chans s k)")
  case False
  assume "registered s j"
  moreover have "sc_recv (snd (builtin_close k s)) = sc_recv s - {k}" "sc_send (snd (builtin_close k s)) = sc_send s - {k}"
    using False by (simp_all add: builtin_close_def Let_def)
  ultimately show ?thesis by (auto simp: registered_def channel_ok_def close_chans[OF False])
qed (simp add: builtin_close_def)

lemma unpark_keeps: "registered s j \<Longrightarrow> registered (unpark c s) j"
  by (cases "c_blocked_on (sc_coros s c)")
    (auto simp: registered_def channel_ok_def unpark_def leave_channel_def Let_def dest: arg_cong[of _ "[]" "filter _"])

section \<open>Values in transit\<close>

text \<open>The values a channel owes, in the order in which they were sent: those in the queue, then those of the
  senders that wait.\<close>

definition owed :: "channel \<Rightarrow> val list" where
  "owed ch = ch_queue ch @ map snd (ch_senders ch)"

text \<open>The coroutines that wait at a channel are suspended, with the place for the answer on their stack.\<close>

definition waits :: "'c sched \<Rightarrow> nat \<Rightarrow> bool" where
  "waits s c \<longleftrightarrow> suspended s c \<and> c_stack (sc_coros s c) \<noteq> []"

definition all_wait :: "'c sched \<Rightarrow> nat \<Rightarrow> bool" where
  "all_wait s k \<longleftrightarrow> list_all (waits s) (ch_receivers (sc_chans s k) @ map fst (ch_senders (sc_chans s k)))"

text \<open>What an operation delivers: the value on the stack of the first receiver that waited, or the answer of a
  \<^verbatim>\<open>recv\<close> that found a value.\<close>

definition delivered :: "'c sched \<Rightarrow> 'c sched \<Rightarrow> nat \<Rightarrow> val list" where
  "delivered s s' k = (case ch_receivers (sc_chans s k) of [] \<Rightarrow> [] | r # rs \<Rightarrow> [hd (c_stack (sc_coros s' r))])"

definition received :: "'c sched \<Rightarrow> nat \<Rightarrow> reply \<Rightarrow> val list" where
  "received s k reply = (case reply of Return v \<Rightarrow> if ch_queue (sc_chans s k) = [] then [] else [v] | _ \<Rightarrow> [])"

text \<open>The traffic of one channel: what \<^verbatim>\<open>send\<close> accepted and what was delivered. Between two operations on the
  channel other coroutines run and other channels are used, as long as the coroutines that wait here do
  so until they are woken.\<close>

inductive traffic :: "nat \<Rightarrow> 'c sched \<Rightarrow> val list \<Rightarrow> val list \<Rightarrow> bool" for k where
  traffic_start: "new_channel (sc_chans s k) \<Longrightarrow> traffic k s [] []"
| traffic_send: "traffic k s sent got \<Longrightarrow> all_wait s k \<Longrightarrow> builtin_send k v s = (reply, s') \<Longrightarrow>
     reply = Return VNil \<or> reply = Parked \<Longrightarrow> traffic k s' (sent @ [v]) (got @ delivered s s' k)"
| traffic_refused: "traffic k s sent got \<Longrightarrow> builtin_send k v s = (Raised kind message, s') \<Longrightarrow> traffic k s' sent got"
| traffic_recv: "traffic k s sent got \<Longrightarrow> all_wait s k \<Longrightarrow> builtin_recv k s = (reply, s') \<Longrightarrow>
     traffic k s' sent (got @ received s k reply)"
| traffic_close: "traffic k s sent got \<Longrightarrow> builtin_close k s = (reply, s') \<Longrightarrow> traffic k s' sent got"
| traffic_other: "traffic k s sent got \<Longrightarrow> sc_chans s' k = sc_chans s k \<Longrightarrow> traffic k s' sent got"

lemma woken_suspended:
  "list_all alive (map fst es) \<Longrightarrow> fst (woken alive es) @ map snd (snd (woken alive es)) = map snd es"
  by (cases es) auto

lemma send_owed:
  assumes "builtin_send k v s = (reply, s')" "channel_ok (sc_chans s k)" "all_wait s k"
    and "reply = Return VNil \<or> reply = Parked"
  shows "owed (sc_chans s k) @ [v] = delivered s s' k @ owed (sc_chans s' k) \<and> channel_ok (sc_chans s' k)"
proof (cases "ch_receivers (sc_chans s k)")
  case Nil
  with assms show ?thesis
    by (auto simp: builtin_send_def Let_def owed_def delivered_def channel_ok_def split: if_splits option.splits)
next
  case (Cons r rs)
  with assms(3) have "c_stack (sc_coros s r) \<noteq> []" by (simp add: all_wait_def waits_def)
  then have "hd (c_stack (sc_coros s' r)) = v"
    using assms(1,4) Cons by (auto simp: builtin_send_def Let_def unblock_def answer_def split: if_splits list.splits)
  moreover have "sc_chans s' = (sc_chans s)(k := (sc_chans s k)\<lparr>ch_receivers := rs\<rparr>)"
    using assms(1,4) Cons by (auto simp: builtin_send_def Let_def split: if_splits)
  ultimately show ?thesis using assms(2) Cons by (auto simp: owed_def delivered_def channel_ok_def)
qed

lemma recv_owed:
  assumes "builtin_recv k s = (reply, s')" "channel_ok (sc_chans s k)" "all_wait s k"
  shows "owed (sc_chans s k) = received s k reply @ owed (sc_chans s' k)"
proof (cases "ch_queue (sc_chans s k)")
  case Nil
  with assms show ?thesis
    by (auto simp: builtin_recv_def Let_def owed_def received_def channel_ok_def split: if_splits option.splits)
next
  case (Cons v vs)
  have "list_all (suspended s) (map fst (ch_senders (sc_chans s k)))" using assms(3) by (auto simp: all_wait_def waits_def list_all_iff)
  from woken_suspended[OF this] assms(1) Cons show ?thesis
    by (auto simp: builtin_recv_def owed_def received_def wake_one_sender_fields)
qed

lemma close_owed: "owed (sc_chans (snd (builtin_close k s)) k) = owed (sc_chans s k)"
  by (cases "ch_closed (sc_chans s k)") (simp add: builtin_close_def, simp add: close_chans owed_def)

section \<open>Properties\<close>

text \<open>C17: The state of channels is sound in every run. Receivers wait only at an empty channel and senders only
  at a full one, so they never wait at the same time; an open channel with a limit never holds more
  values than the limit; nobody waits at a closed channel; and the scheduler's sets of channels with
  blocked receivers and senders, on which its loop and the report of a deadlock rest, are exact.\<close>

theorem channels_sound:
  assumes "channel_run s"
  shows "channel_ok (sc_chans s k) \<and> (k \<in> sc_recv s \<longleftrightarrow> ch_receivers (sc_chans s k) \<noteq> []) \<and>
    (k \<in> sc_send s \<longleftrightarrow> ch_senders (sc_chans s k) \<noteq> []) \<and>
    \<not> (ch_receivers (sc_chans s k) \<noteq> [] \<and> ch_senders (sc_chans s k) \<noteq> [])"
proof -
  have "registered s k" for k using assms
  proof (induction arbitrary: k)
    case (run_start s)
    then show ?case by (simp add: registered_def channel_ok_def new_channel_def)
  next
    case (run_step s s')
    from run_step.hyps(2) run_step.IH show ?case
    proof (cases rule: channel_step.cases)
      case (step_channel k n)
      with run_step.IH show ?thesis
        by (auto simp: builtin_channel_def registered_def channel_ok_def new_channel_def split: val.splits)
    next
      case step_other
      with run_step.IH show ?thesis by (simp add: registered_def)
    qed (simp_all add: send_keeps recv_keeps close_keeps unpark_keeps)
  qed
  from this[of k] show ?thesis by (auto simp: registered_def channel_ok_def)
qed

text \<open>A scheduler that runs coroutine 0, with channels that hold one value each.\<close>

definition sample_sched :: "unit sched" where
  "sample_sched =
     \<lparr>sc_coros = (\<lambda>c. \<lparr>c_id = Some c, c_state = py ''running'', c_stack = [], c_context = (), c_blocked_on = None, c_blocked_reason = None\<rparr>),
      sc_chans = (\<lambda>k. \<lparr>ch_maxsize = 1, ch_queue = [], ch_receivers = [], ch_senders = [], ch_closed = False\<rparr>),
      sc_ready = [], sc_timers = [], sc_sleeping = {}, sc_recv = {}, sc_send = {}, sc_ages = Map.empty, sc_resumes = 0,
      sc_current = Some 0, sc_current_task = Some 0, sc_stack = [], sc_context = ()\<rparr>"

lemma sample_new: "new_channel (sc_chans sample_sched k)"
  by (simp add: sample_sched_def new_channel_def)

theorem channels_sound_witness:
  "ch_senders (sc_chans (snd (builtin_send 7 VNil (snd (builtin_send 7 VNil sample_sched)))) 7) \<noteq> [] \<and>
     7 \<in> sc_send (snd (builtin_send 7 VNil (snd (builtin_send 7 VNil sample_sched))))"
proof -
  have "channel_run sample_sched" using sample_new by (rule run_start) (simp_all add: sample_sched_def)
  then have "channel_run (snd (builtin_send 7 VNil (snd (builtin_send 7 VNil sample_sched))))"
    by (rule run_step[OF run_step[OF _ step_send] step_send])
  from channels_sound[OF this, of 7] show ?thesis
    by (simp add: builtin_send_def sample_sched_def Let_def)
qed

text \<open>C16: No value is lost, invented or reordered. Whatever the interleaving of sends, receives, closing and other
  work, the values that \<^verbatim>\<open>send\<close> accepted at a channel are those delivered so far, in the same order,
  followed by those in its queue and those of its waiting senders, as long as coroutines that wait at the
  channel stay suspended until it wakes them.\<close>

theorem channel_is_fifo:
  assumes "traffic k s sent got"
  shows "sent = got @ owed (sc_chans s k)"
proof -
  from assms have "sent = got @ owed (sc_chans s k) \<and> channel_ok (sc_chans s k)"
  proof induction
    case (traffic_start s)
    then show ?case by (simp add: new_channel_def owed_def channel_ok_def)
  next
    case (traffic_send s sent got v reply s')
    then show ?case using send_owed[OF traffic_send(3) _ traffic_send(2,4)] by auto
  next
    case (traffic_refused s sent got v kind message s')
    then show ?case by (auto simp: builtin_send_def Let_def split: if_splits list.splits option.splits)
  next
    case (traffic_recv s sent got reply s')
    then show ?case using recv_owed[OF traffic_recv(3)] recv_ok[of s k] by auto
  next
    case (traffic_close s sent got reply s')
    then show ?case using close_ok[of s k] close_owed[of k s] by simp
  qed auto
  then show ?thesis ..
qed

theorem channel_is_fifo_witness:
  "\<exists>s. traffic 7 (s :: unit sched) [VInt 5] [] \<and> owed (sc_chans s 7) = [VInt 5]"
proof -
  have "traffic 7 (snd (builtin_send 7 (VInt 5) sample_sched)) ([] @ [VInt 5])
      ([] @ delivered sample_sched (snd (builtin_send 7 (VInt 5) sample_sched)) 7)"
    by (rule traffic_send[OF traffic_start[OF sample_new], where reply = "Return VNil"])
      (simp_all add: all_wait_def builtin_send_def sample_sched_def)
  then have "traffic 7 (snd (builtin_send 7 (VInt 5) sample_sched)) [VInt 5] []"
    by (simp add: delivered_def sample_sched_def)
  with channel_is_fifo[OF this] show ?thesis by auto
qed

text \<open>A receiver that was resumed by hand and finished stays in the queue of receivers: the value sent next is
  neither kept nor delivered.\<close>

theorem finished_receiver_loses_value:
  assumes "\<not> ch_closed (sc_chans s k)" and "ch_receivers (sc_chans s k) = [c]" and "c_state (sc_coros s c) = py ''finished''"
  shows "fst (builtin_send k v s) = Return VNil \<and> owed (sc_chans (snd (builtin_send k v s)) k) = owed (sc_chans s k) \<and>
    sc_ready (snd (builtin_send k v s)) = sc_ready s"
  using assms by (simp add: builtin_send_def Let_def owed_def schedule_def unblock_def answer_def)

end
