(* ===== verification/Spec2Isabelle.thy ===== *)
theory Spec2Isabelle
  imports Lexer_Props Optimizer_Props VM_Finally Expr_Props Operator_Props Graph_Cycles Resolver Channels
begin

text \<open>
  A verification library for Nodus, a scripting language with coroutines, exceptions and workflows that is
  implemented in Python: a lexer, a parser, a compiler to bytecode, an optimizer, a stack machine, a
  scheduler, and the tools around them. Paths are relative to \<^verbatim>\<open>src/\<close> of the repository, so that
  \<^verbatim>\<open>nodus/vm/vm.py\<close> is \<^verbatim>\<open>src/nodus/vm/vm.py\<close>. The definitions keep the names of the source; state-changing
  methods pass the state explicitly, exceptions are values of a sum type, and loops are recursive functions.

  \<^bold>\<open>How the parts fit together.\<close> The lexer turns source text into tokens; the parser, which is not modelled,
  turns tokens into the tree of \<^verbatim>\<open>nodus/frontend/ast/ast_nodes.py\<close>. The compiler walks the tree with a chain
  of scopes, emits instructions and patches their jump targets afterwards; annotated functions are rewritten
  before. The optimizer is a separate pass over the finished code. The machine runs the code of one module:
  it has a value stack, call frames, a stack of exception handlers and actions deferred by \<^verbatim>\<open>finally\<close> blocks,
  and it calls builtins, which may suspend the running coroutine. Channels connect coroutines and hand them
  to the scheduler. The package tools resolve dependencies between projects before anything is compiled.

  \<^bold>\<open>Foundations.\<close> \<^verbatim>\<open>Nodus_Prelude\<close> has strings as lists of code points, results and sequences of actions.
  \<^verbatim>\<open>Unicode_Data\<close> has the character classes that the source reads through Python. \<^verbatim>\<open>Py_Float\<close>, \<^verbatim>\<open>Py_Num\<close> and
  \<^verbatim>\<open>Py_Repr\<close> are Python's numbers: binary64 arithmetic by exact rounding of fractions, the mixed operators, and
  the shortest text of a float.

  \<^bold>\<open>Lexer.\<close> \<^verbatim>\<open>Lexer\<close> models \<^verbatim>\<open>nodus/frontend/lexer.py\<close>: the pattern of tokens, string literals with escapes
  and interpolation, and both decoders of literals. \<^verbatim>\<open>Lexer_Props\<close>: escaping and lexing is a round trip, the
  decoders agree, a token stream ends in one end marker at the end of the source, words lex to one token, the
  digits accepted in \<^verbatim>\<open>\x\<close> escapes are characterised, and the scanners never exhaust the bound on their recursion, which is the length of the text.

  \<^bold>\<open>Compiler.\<close> \<^verbatim>\<open>Nodus_Ast\<close> is the syntax tree, \<^verbatim>\<open>Symbol_Table\<close> the scopes of
  \<^verbatim>\<open>nodus/compiler/symbol_table.py\<close> behind the locale \<open>scope_table\<close>, \<^verbatim>\<open>Bytecode\<close> the instructions,
  \<^verbatim>\<open>Compiler_State\<close>, \<^verbatim>\<open>Lowering\<close> and \<^verbatim>\<open>Compiler\<close> the code generator of \<^verbatim>\<open>nodus/compiler/compiler.py\<close>. Slots and
  upvalues are always in range; \<^verbatim>\<open>Compiler_Rules\<close> and \<^verbatim>\<open>Compiler_Constructs\<close> carry one invariant through every
  construct, and \<^verbatim>\<open>Compiler_Props\<close> concludes that compiled code is closed, that internal errors cannot happen
  and that every statement restores what it changes for itself, except that a \<^verbatim>\<open>break\<close> in a function belongs to
  the loop around the function.

  \<^bold>\<open>Meaning of expressions.\<close> \<^verbatim>\<open>Expr_Spec\<close> gives an evaluator on the tree and the code of an expression as a
  recursive function. \<^verbatim>\<open>Expr_Compile\<close> shows that the emitting and patching compiler appends exactly that code,
  \<^verbatim>\<open>Expr_Run\<close> that the machine runs it as the evaluator says, and \<^verbatim>\<open>Expr_Props\<close> puts both together for
  constants, variables in slots and all operators, with their errors. \<^verbatim>\<open>Operator_Props\<close> has the types of
  results and compares the constant folding of the optimizer with the machine.

  \<^bold>\<open>Optimizer.\<close> \<^verbatim>\<open>Optimizer\<close> models \<^verbatim>\<open>nodus/compiler/optimizer.py\<close> with all passes and the loop to a fixed
  point; the bound on its rounds is never reached on compiled code. \<^verbatim>\<open>Optimizer_Jumps\<close>, \<^verbatim>\<open>Optimizer_Passes\<close> and
  \<^verbatim>\<open>Optimizer_Props\<close>: the search for reachable code, the threading of jumps and the removal of useless pushes are
  exact, the last with the two cases in which the renumbering of addresses goes wrong: a removed jump target
  and the address of a finally block.

  \<^bold>\<open>Machine.\<close> \<^verbatim>\<open>VM_State\<close>, \<^verbatim>\<open>VM_Core\<close>, \<^verbatim>\<open>VM_Exec\<close> and \<^verbatim>\<open>VM_Loop\<close> model \<^verbatim>\<open>nodus/vm/vm.py\<close> for one chunk of code:
  every instruction handler, names and captured variables, exception handlers, calls, and the loop. Builtins,
  methods, capabilities and texts of opaque objects are the argument \<open>world\<close>. The loop takes a number of
  instructions; a run that needs more ends in \<open>Unfinished\<close>, longer bounds agree with shorter ones, and a run
  with a limit on its steps ends whenever the bound is above it. \<^verbatim>\<open>VM_Rules\<close> proves once, in the locale
  \<open>kept\<close>, that a predicate with a few laws holds throughout a run; \<^verbatim>\<open>VM_Invariants\<close> interprets it for the
  nesting of handlers, the call depth and the step limit, and \<^verbatim>\<open>VM_Props\<close> and \<^verbatim>\<open>VM_Finally\<close> have the behaviour of
  exceptions, cancellation and \<^verbatim>\<open>finally\<close>, with the states in which \<^verbatim>\<open>finally\<close> blocks are skipped and two
  compiled programs that reach them.

  \<^bold>\<open>Channels.\<close> \<^verbatim>\<open>Channels\<close> models \<^verbatim>\<open>nodus/runtime/channel.py\<close>, the channel builtins of
  \<^verbatim>\<open>nodus/builtins/coroutine.py\<close>, and \<^verbatim>\<open>schedule\<close> and \<^verbatim>\<open>unpark\<close> of \<^verbatim>\<open>nodus/runtime/scheduler.py\<close> on a store of
  coroutines and channels. Runs are a step relation that interleaves the operations of all coroutines; the
  waiting queues and the sets of blocked channels are sound, and a channel is a first-in first-out queue.

  \<^bold>\<open>Packages.\<close> \<^verbatim>\<open>Semver\<close> models \<^verbatim>\<open>nodus/tooling/semver.py\<close> and the choice of a version in
  \<^verbatim>\<open>nodus/tooling/registry_client.py\<close>, \<^verbatim>\<open>Resolver\<close> models \<^verbatim>\<open>nodus/tooling/resolver.py\<close> with the queries of
  \<^verbatim>\<open>nodus/tooling/registry.py\<close>, and \<^verbatim>\<open>Graph_Cycles\<close> models \<^verbatim>\<open>nodus/support/graph_cycles.py\<close>. Printing and parsing
  versions is a round trip, ranges mean what they say, the best version is chosen, a resolution is complete
  and in order and its depth is bounded by the number of names, and cycles are found exactly.

  \<^bold>\<open>Not modelled.\<close> The parser, the analysis of types and goals, and the formatter read or write texts and trees
  only. Module loading, embedding, the event loop of the scheduler with its clocks, task graphs and durable
  workflows need several machines, files, threads or data bases. Builtins other than those of channels are
  arguments of the machine. Servers, command line, editor protocols, test runner, debugger and profiler are
  input and output around the parts above. The machine model leaves out module objects, closures of other
  modules, and limits on time and memory.
\<close>

end
